(* ===== verification/Prelude.thy ===== *)
theory Prelude
  imports Main "HOL-Library.Finite_Map" "HOL-Library.List_Lexorder" "HOL-Library.Char_ord"
begin

text \<open>
  What every component of the development shares: the Go runtime notions the source relies on
  (fixed-width integers, instants and durations, maps and their unordered \<open>range\<close>, decimal
  rendering, blank strings, error values) and the generic lemmas about lists and finite maps that
  the component theories use.  A Go \<open>map\<close> is a finite map \<open>('k, 'v) fmap\<close>; a nil map and an
  empty one read alike and are both \<open>fmempty\<close>.  A slice is a list; nil and empty slices read
  alike and are both \<open>[]\<close>, and where the source tells nil from non-nil the model uses
  \<open>option\<close>.  A string is the list of its bytes.
\<close>

named_theorems inv_intros \<open>introduction rules for the invariants of the components\<close>
named_theorems frame_simps \<open>fields an operation leaves alone\<close>

section \<open>Machine integers\<close>

text \<open>
  Go's \<open>int\<close> and \<open>time.Duration\<close> are signed 64-bit values; arithmetic wraps.  The model keeps
  them as \<open>int\<close> and writes the wrap-around out.  \<open>wrap32\<close> is the conversion \<open>int32(x)\<close>.
\<close>

definition wrap64 :: "int \<Rightarrow> int" where
  "wrap64 x = signed_take_bit 63 x"

definition wrap32 :: "int \<Rightarrow> int" where
  "wrap32 x = signed_take_bit 31 x"

definition in_int64 :: "int \<Rightarrow> bool" where
  "in_int64 x \<longleftrightarrow> - (2 ^ 63) \<le> x \<and> x < 2 ^ 63"

definition in_int32 :: "int \<Rightarrow> bool" where
  "in_int32 x \<longleftrightarrow> - (2 ^ 31) \<le> x \<and> x < 2 ^ 31"

lemma wrap64_id [simp]: "in_int64 x \<Longrightarrow> wrap64 x = x"
  by (simp add: wrap64_def in_int64_def signed_take_bit_int_eq_self)

lemma wrap32_id [simp]: "in_int32 x \<Longrightarrow> wrap32 x = x"
  by (simp add: wrap32_def in_int32_def signed_take_bit_int_eq_self)

lemma in_int64_wrap64 [simp]: "in_int64 (wrap64 x)"
  unfolding wrap64_def in_int64_def
  using signed_take_bit_int_greater_eq_minus_exp [of 63 x] signed_take_bit_int_less_exp [of 63 x]
  by simp

lemma in_int32_wrap32 [simp]: "in_int32 (wrap32 x)"
  unfolding wrap32_def in_int32_def
  using signed_take_bit_int_greater_eq_minus_exp [of 31 x] signed_take_bit_int_less_exp [of 31 x]
  by simp

lemma in_int32_in_int64: "in_int32 x \<Longrightarrow> in_int64 x"
  by (simp add: in_int32_def in_int64_def)

lemma wrap64_wrap64_diff: "wrap64 (wrap64 x - y) = wrap64 (x - y)"
  unfolding wrap64_def
  by (metis signed_take_bit_diff signed_take_bit_signed_take_bit min.idem)

section \<open>Time\<close>

text \<open>
  An instant is the number of nanoseconds since Go's zero \<open>time.Time\<close>, so \<open>IsZero t\<close> is
  \<open>t = 0\<close>.  \<open>time.Now()\<close> is an argument of the operations that read the clock.
  \<open>t.Sub(u)\<close> saturates at the bounds of \<open>Duration\<close>.
\<close>

type_synonym instant = int
type_synonym duration = int

definition time_IsZero :: "instant \<Rightarrow> bool" where
  "time_IsZero t \<longleftrightarrow> t = 0"

definition time_Sub :: "instant \<Rightarrow> instant \<Rightarrow> duration" where
  "time_Sub t u = max (- (2 ^ 63)) (min (2 ^ 63 - 1) (t - u))"

definition Millisecond :: duration where "Millisecond = 1000000"
definition Second :: duration where "Second = 1000000000"

lemma time_Sub_le_iff: "in_int64 d \<Longrightarrow> d < 2 ^ 63 - 1 \<Longrightarrow> time_Sub t u \<le> d \<longleftrightarrow> t - u \<le> d"
  unfolding time_Sub_def in_int64_def by linarith

section \<open>Decimal rendering\<close>

text \<open>\<open>strconv.Itoa\<close> and the verb \<open>%d\<close>.\<close>

definition digit_char :: "nat \<Rightarrow> char" where
  "digit_char d = char_of (48 + d)"

fun nat_digits :: "nat \<Rightarrow> string" where
  "nat_digits n = (if n < 10 then [digit_char n] else nat_digits (n div 10) @ [digit_char (n mod 10)])"

declare nat_digits.simps [simp del]

definition itoa :: "int \<Rightarrow> string" where
  "itoa i = (if i < 0 then CHR ''-'' # nat_digits (nat (- i)) else nat_digits (nat i))"

fun digits_value :: "string \<Rightarrow> nat" where
  "digits_value [] = 0"
| "digits_value (c # cs) = (of_char c - 48) * 10 ^ length cs + digits_value cs"

lemma digit_char_value: "d < 10 \<Longrightarrow> of_char (digit_char d) = (48 + d :: nat)"
  by (simp add: digit_char_def of_char_of)

lemma digits_value_append:
  "digits_value (xs @ ys) = digits_value xs * 10 ^ length ys + digits_value ys"
  by (induction xs) (simp_all add: algebra_simps power_add)

lemma digits_value_nat_digits [simp]: "digits_value (nat_digits n) = n"
proof (induction n rule: nat_digits.induct)
  case (1 n)
  show ?case
  proof (cases "n < 10")
    case True
    then show ?thesis by (subst nat_digits.simps) (simp add: digit_char_value)
  next
    case False
    with 1 have "digits_value (nat_digits (n div 10)) = n div 10" by simp
    with False show ?thesis
      by (subst nat_digits.simps) (simp add: digits_value_append digit_char_value)
  qed
qed

lemma nat_digits_inj: "nat_digits m = nat_digits n \<longleftrightarrow> m = n"
  by (metis digits_value_nat_digits)

lemma nat_digits_nonempty [simp]: "nat_digits n \<noteq> []"
  by (subst nat_digits.simps) simp

lemma nat_digits_hd: "hd (nat_digits n) \<noteq> CHR ''-''"
proof (induction n rule: nat_digits.induct)
  case (1 n)
  have small: "digit_char d \<noteq> CHR ''-''" if "d < 10" for d
  proof
    assume "digit_char d = CHR ''-''"
    then have "of_char (digit_char d) = (45 :: nat)" by simp
    with digit_char_value [OF that] show False by simp
  qed
  show ?case
  proof (cases "n < 10")
    case True
    with small show ?thesis by (subst nat_digits.simps) simp
  next
    case False
    with 1 show ?thesis by (subst nat_digits.simps) (simp add: hd_append)
  qed
qed

lemma itoa_inj: "itoa i = itoa j \<longleftrightarrow> i = j"
proof
  assume eq: "itoa i = itoa j"
  show "i = j"
  proof (cases "i < 0 \<longleftrightarrow> j < 0")
    case True
    with eq show ?thesis by (auto simp: itoa_def nat_digits_inj split: if_splits)
  next
    case False
    with eq nat_digits_hd [of "nat i"] nat_digits_hd [of "nat j"] show ?thesis
      by (cases "i < 0"; cases "j < 0"; simp add: itoa_def) (metis list.sel(1))+
  qed
qed simp


lemma itoa_nonempty [simp]: "itoa i \<noteq> []"
  by (simp add: itoa_def)

text \<open>
  \<open>time.Duration\<close>'s \<open>String\<close>: \<open>frac_text\<close> renders the low \<open>p\<close> decimal digits of a value
  with the trailing zeros left out (and no point when all are zero); the leading unit is hours,
  minutes or seconds, or for less than a second the largest of ms, \<open>\<mu>\<close>s and ns.
\<close>

fun frac_digits :: "nat \<Rightarrow> nat \<Rightarrow> bool \<Rightarrow> string" where
  "frac_digits 0 v started = []"
| "frac_digits (Suc p) v started =
     (let d = v mod 10; started' = started \<or> d \<noteq> 0
      in frac_digits p (v div 10) started' @ (if started' then [digit_char d] else []))"

definition frac_text :: "nat \<Rightarrow> nat \<Rightarrow> string" where
  "frac_text v p = (let ds = frac_digits p v False in if ds = [] then [] else CHR ''.'' # ds)"

definition duration_abs_text :: "nat \<Rightarrow> string" where
  "duration_abs_text u =
     (if u = 0 then ''0s''
      else if u < 1000 then nat_digits u @ ''ns''
      else if u < 1000000 then nat_digits (u div 1000) @ frac_text u 3 @ [CHR 0xC2, CHR 0xB5, CHR ''s'']
      else if u < 1000000000 then nat_digits (u div 1000000) @ frac_text u 6 @ ''ms''
      else
        let secs = u div 1000000000; mins = secs div 60; hours = mins div 60
        in (if mins = 0 then []
            else (if hours = 0 then [] else nat_digits hours @ ''h'') @ nat_digits (mins mod 60) @ ''m'')
           @ nat_digits (secs mod 60) @ frac_text u 9 @ ''s'')"

definition duration_text :: "duration \<Rightarrow> string" where
  "duration_text d = (if d < 0 then CHR ''-'' # duration_abs_text (nat (- d)) else duration_abs_text (nat d))"

section \<open>Blank strings\<close>

text \<open>
  \<open>strings.TrimSpace(s) == ""\<close> holds when every rune of \<open>s\<close> is white space in the sense of
  \<open>unicode.IsSpace\<close>: six ASCII bytes, and the UTF-8 encodings of U+0085, U+00A0, U+1680,
  U+2000 to U+200A, U+2028, U+2029, U+202F, U+205F and U+3000.
\<close>

definition ascii_space :: "char \<Rightarrow> bool" where
  "ascii_space c \<longleftrightarrow> c \<in> {CHR 0x09, CHR 0x0A, CHR 0x0B, CHR 0x0C, CHR 0x0D, CHR 0x20}"

definition space2 :: "char \<Rightarrow> char \<Rightarrow> bool" where
  "space2 c d \<longleftrightarrow> c = CHR 0xC2 \<and> (d = CHR 0x85 \<or> d = CHR 0xA0)"

definition space3 :: "char \<Rightarrow> char \<Rightarrow> char \<Rightarrow> bool" where
  "space3 c d e \<longleftrightarrow>
     c = CHR 0xE1 \<and> d = CHR 0x9A \<and> e = CHR 0x80 \<or>
     c = CHR 0xE2 \<and> d = CHR 0x80 \<and>
       (e \<in> {CHR 0x80, CHR 0x81, CHR 0x82, CHR 0x83, CHR 0x84, CHR 0x85, CHR 0x86, CHR 0x87,
             CHR 0x88, CHR 0x89, CHR 0x8A} \<or> e \<in> {CHR 0xA8, CHR 0xA9, CHR 0xAF}) \<or>
     c = CHR 0xE2 \<and> d = CHR 0x81 \<and> e = CHR 0x9F \<or>
     c = CHR 0xE3 \<and> d = CHR 0x80 \<and> e = CHR 0x80"

fun blank :: "string \<Rightarrow> bool" where
  "blank [] = True"
| "blank (c # d # e # cs) =
     (if ascii_space c then blank (d # e # cs)
      else if space2 c d then blank (e # cs)
      else space3 c d e \<and> blank cs)"
| "blank (c # d # []) = (if ascii_space c then blank [d] else space2 c d)"
| "blank (c # []) = ascii_space c"

lemma blank_cons_space: "ascii_space c \<Longrightarrow> blank (c # s) = blank s"
  by (cases "c # s" rule: blank.cases) simp_all

lemma blank_all_ascii: "\<forall>c \<in> set s. ascii_space c \<Longrightarrow> blank s"
  by (induction s) (simp_all add: blank_cons_space)

lemma not_blank_nonempty: "\<not> blank s \<Longrightarrow> s \<noteq> []"
  by auto

section \<open>Error values\<close>

text \<open>
  The errors of the source: two sentinels that callers compare with \<open>errors.Is\<close>, and the formatted
  ones, which are their text.
\<close>

datatype go_error = ErrJobNotFound | ErrJobExists | Errorf string

definition error_text :: "go_error \<Rightarrow> string" where
  "error_text e = (case e of
     ErrJobNotFound \<Rightarrow> ''job not found''
   | ErrJobExists \<Rightarrow> ''job already exists''
   | Errorf s \<Rightarrow> s)"

section \<open>Maps and their range\<close>

text \<open>
  \<open>range\<close> visits the keys of a Go map in an unspecified order: an enumeration without repetition,
  chosen by the runtime.  A loop over a map takes the enumeration as an argument wherever its
  outcome may depend on it.  \<open>go_keys\<close> is one enumeration (by key order).
\<close>

definition go_range :: "'k list \<Rightarrow> ('k, 'v) fmap \<Rightarrow> bool" where
  "go_range ks m \<longleftrightarrow> distinct ks \<and> set ks = fmdom' m"

definition go_keys :: "('k::linorder, 'v) fmap \<Rightarrow> 'k list" where
  "go_keys m = sorted_list_of_fset (fmdom m)"

definition go_values :: "'k list \<Rightarrow> ('k, 'v) fmap \<Rightarrow> 'v list" where
  "go_values ks m = List.map_filter (fmlookup m) ks"

definition go_len :: "('k, 'v) fmap \<Rightarrow> nat" where
  "go_len m = fcard (fmdom m)"

lemma go_range_keys [simp]: "go_range (go_keys m) m"
  by (simp add: go_range_def go_keys_def fmdom'_alt_def sorted_list_of_fset.rep_eq)

lemma go_range_mem: "go_range ks m \<Longrightarrow> k \<in> set ks \<longleftrightarrow> fmlookup m k \<noteq> None"
  by (auto simp: go_range_def fmlookup_dom'_iff)

lemma mem_fmdom': "k \<in> fmdom' m \<longleftrightarrow> fmlookup m k \<noteq> None"
  by (auto simp: fmlookup_dom'_iff)

lemma go_range_length: "go_range ks m \<Longrightarrow> length ks = go_len m"
  by (metis distinct_card fcard.rep_eq fmdom'_alt_def go_len_def go_range_def)

lemma go_values_Nil [simp]: "go_values [] m = []"
  by (simp add: go_values_def)

lemma go_values_Cons [simp]:
  "go_values (k # ks) m = (case fmlookup m k of None \<Rightarrow> go_values ks m | Some v \<Rightarrow> v # go_values ks m)"
  by (simp add: go_values_def split: option.split)

lemma set_go_values: "set (go_values ks m) = {v. \<exists>k \<in> set ks. fmlookup m k = Some v}"
  by (induction ks) (auto split: option.splits)

lemma go_values_fmupd: "k \<notin> set ks \<Longrightarrow> go_values ks (fmupd k v m) = go_values ks m"
  by (induction ks) (auto split: option.split)

lemma go_values_mem:
  "go_range ks m \<Longrightarrow> v \<in> set (go_values ks m) \<longleftrightarrow> (\<exists>k. fmlookup m k = Some v)"
  by (auto simp: set_go_values go_range_mem)

lemma go_keys_empty [simp]: "go_keys fmempty = []"
  by (simp add: go_keys_def sorted_list_of_fset_def)

lemma go_keys_fmupd [simp]:
  "go_keys (fmupd k v m) = (if k |\<in>| fmdom m then go_keys m else insort k (go_keys m))"
proof (cases "k |\<in>| fmdom m")
  case True
  then have "fmdom (fmupd k v m) = fmdom m" by auto
  with True show ?thesis by (simp add: go_keys_def)
next
  case False
  then show ?thesis
    by (simp add: go_keys_def sorted_list_of_fset.rep_eq)
qed

lemma fmupd_idem2 [simp]: "fmupd k v (fmupd k w m) = fmupd k v m"
  by (rule fmap_ext) simp

lemma go_len_empty [simp]: "go_len fmempty = 0"
  by (simp add: go_len_def)

lemma go_len_fmupd [simp]:
  "go_len (fmupd k v m) = (if k |\<in>| fmdom m then go_len m else Suc (go_len m))"
  by (simp add: go_len_def fcard_finsert_if)

text \<open>Copying a map key by key, in any order, gives the same map.\<close>

definition go_copy :: "'k list \<Rightarrow> ('k, 'v) fmap \<Rightarrow> ('k, 'v) fmap" where
  "go_copy ks m = fold (\<lambda>k acc. case fmlookup m k of None \<Rightarrow> acc | Some v \<Rightarrow> fmupd k v acc) ks fmempty"

lemma fold_copy_lookup:
  "fmlookup (fold (\<lambda>k acc. case fmlookup m k of None \<Rightarrow> acc | Some v \<Rightarrow> fmupd k v acc) ks acc) x =
     (if x \<in> set ks \<and> fmlookup m x \<noteq> None then fmlookup m x else fmlookup acc x)"
  by (induction ks arbitrary: acc) (auto split: option.splits)

lemma go_copy_eq: "go_range ks m \<Longrightarrow> go_copy ks m = m"
  by (rule fmap_ext) (auto simp: go_copy_def fold_copy_lookup go_range_mem)

section \<open>Lists\<close>

lemma sorted_map_unique:
  assumes inj: "inj_on f (set xs)" and "set xs = set ys"
    and "sorted (map f xs)" "sorted (map f ys)" "distinct xs" "distinct ys"
  shows "xs = ys"
proof -
  from assms have "map f xs = map f ys"
    by (intro sorted_distinct_set_unique) (simp_all add: distinct_map)
  with inj \<open>set xs = set ys\<close> show ?thesis by (metis inj_on_map_eq_map Un_absorb)
qed

lemma sort_key_unique:
  assumes "inj_on f (set xs)" "set xs = set ys" "distinct xs" "distinct ys"
  shows "sort_key f xs = sort_key f ys"
  using assms by (intro sorted_map_unique [where f = f]) simp_all

section \<open>The tail of a list\<close>

definition keep_last :: "nat \<Rightarrow> 'a list \<Rightarrow> 'a list" where
  "keep_last k xs = drop (length xs - k) xs"

lemma keep_last_rev: "keep_last k xs = rev (take k (rev xs))"
  by (simp add: keep_last_def take_rev)

lemma keep_last_append [simp]: "keep_last k (keep_last k xs @ ys) = keep_last k (xs @ ys)"
  by (simp add: keep_last_rev min_def)

lemma keep_last_short [simp]: "length xs \<le> k \<Longrightarrow> keep_last k xs = xs"
  by (simp add: keep_last_def)

end
