(* ===== verification/Job.thy ===== *)
theory Job
  imports Prelude
begin

text \<open>
  The job model of \<open>src/internal/job/job.go\<close>: statuses, resource requests, specifications, jobs, and
  the state machine of a job's status.  A method with a pointer receiver that may fail returns
  \<open>go_error + Job\<close>; \<open>now\<close> is the value of \<open>time.Now().UTC()\<close>.
\<close>

section \<open>Statuses\<close>

text \<open>
  \<open>Status\<close> is a Go string type with five named values; any other string is \<open>StatusOther\<close>.
\<close>

datatype Status =
    StatusPending
  | StatusRunning
  | StatusCompleted
  | StatusFailed
  | StatusCancelled
  | StatusOther string

definition status_text :: "Status \<Rightarrow> string" where
  "status_text s = (case s of
     StatusPending \<Rightarrow> ''pending''
   | StatusRunning \<Rightarrow> ''running''
   | StatusCompleted \<Rightarrow> ''completed''
   | StatusFailed \<Rightarrow> ''failed''
   | StatusCancelled \<Rightarrow> ''cancelled''
   | StatusOther t \<Rightarrow> t)"

definition Valid :: "Status \<Rightarrow> bool" where
  "Valid s = (case s of
     StatusPending \<Rightarrow> True | StatusRunning \<Rightarrow> True | StatusCompleted \<Rightarrow> True
   | StatusFailed \<Rightarrow> True | StatusCancelled \<Rightarrow> True
   | _ \<Rightarrow> False)"

definition Terminal :: "Status \<Rightarrow> bool" where
  "Terminal s \<longleftrightarrow> s = StatusCompleted \<or> s = StatusFailed \<or> s = StatusCancelled"

section \<open>Requests, specifications and jobs\<close>

record ResourceRequest =
  NodesRequired :: int
  CPUsPerNode :: int
  MaxDuration :: duration

definition ResourceRequest_Validate :: "ResourceRequest \<Rightarrow> go_error option" where
  "ResourceRequest_Validate r =
     (if NodesRequired r < 1
      then Some (Errorf (''nodes_required must be >= 1, got '' @ itoa (NodesRequired r)))
      else if CPUsPerNode r < 1
      then Some (Errorf (''cpus_per_node must be >= 1, got '' @ itoa (CPUsPerNode r)))
      else if MaxDuration r < 0
      then Some (Errorf (''max_duration must be >= 0, got '' @ duration_text (MaxDuration r)))
      else None)"

record Spec =
  Resources :: ResourceRequest
  Command :: string
  Args :: "string list"
  Env :: "(string, string) fmap"

definition Spec_Validate :: "Spec \<Rightarrow> go_error option" where
  "Spec_Validate s =
     (case ResourceRequest_Validate (Resources s) of
        Some err \<Rightarrow> Some err
      | None \<Rightarrow> if blank (Command s) then Some (Errorf ''command must be non-empty'') else None)"

record Job =
  job_ID :: string
  job_Status :: Status
  job_Spec :: Spec
  AssignedNodeIDs :: "string list"
  SubmittedAt :: instant
  StartedAt :: instant
  FinishedAt :: instant
  ExitCode :: int
  ErrorMessage :: string

definition New_Job :: "instant \<Rightarrow> string \<Rightarrow> Spec \<Rightarrow> go_error + Job" where
  "New_Job now jid spec =
     (if blank jid then Inl (Errorf ''job id must be non-empty'')
      else case Spec_Validate spec of
        Some err \<Rightarrow> Inl err
      | None \<Rightarrow> Inr \<lparr>job_ID = jid, job_Status = StatusPending, job_Spec = spec,
                     AssignedNodeIDs = [], SubmittedAt = now, StartedAt = 0, FinishedAt = 0,
                     ExitCode = 0, ErrorMessage = []\<rparr>)"

section \<open>Transitions\<close>

definition CanTransition :: "Job \<Rightarrow> Status \<Rightarrow> bool" where
  "CanTransition j to =
     (if \<not> Valid to then False
      else case job_Status j of
        StatusPending \<Rightarrow> to = StatusRunning \<or> to = StatusCancelled
      | StatusRunning \<Rightarrow> to = StatusCompleted \<or> to = StatusFailed \<or> to = StatusCancelled
      | _ \<Rightarrow> False)"

text \<open>The three bytes E2 86 92 are the arrow in the message.\<close>

definition Transition :: "instant \<Rightarrow> Status \<Rightarrow> Job \<Rightarrow> go_error + Job" where
  "Transition now to j =
     (if \<not> CanTransition j to
      then Inl (Errorf (''invalid job '' @ job_ID j @ '' transition '' @ status_text (job_Status j) @
                  '' '' @ [CHR 0xE2, CHR 0x86, CHR 0x92] @ '' '' @ status_text to))
      else
        let j' = j\<lparr>job_Status := to\<rparr>
        in Inr (if Terminal to then j'\<lparr>FinishedAt := now\<rparr> else j'))"

definition Job_MarkRunning :: "instant \<Rightarrow> string list \<Rightarrow> Job \<Rightarrow> go_error + Job" where
  "Job_MarkRunning now nodeIDs j =
     (case Transition now StatusRunning j of
        Inl err \<Rightarrow> Inl err
      | Inr j' \<Rightarrow> Inr (j'\<lparr>AssignedNodeIDs := nodeIDs, StartedAt := now\<rparr>))"

definition Job_MarkCompleted :: "instant \<Rightarrow> int \<Rightarrow> Job \<Rightarrow> go_error + Job" where
  "Job_MarkCompleted now exitCode j =
     (case Transition now StatusCompleted j of
        Inl err \<Rightarrow> Inl err
      | Inr j' \<Rightarrow> Inr (j'\<lparr>ExitCode := exitCode\<rparr>))"

definition Job_MarkFailed :: "instant \<Rightarrow> int \<Rightarrow> string \<Rightarrow> Job \<Rightarrow> go_error + Job" where
  "Job_MarkFailed now exitCode errMsg j =
     (case Transition now StatusFailed j of
        Inl err \<Rightarrow> Inl err
      | Inr j' \<Rightarrow> Inr (j'\<lparr>ExitCode := exitCode, ErrorMessage := errMsg\<rparr>))"

definition Job_MarkCancelled :: "instant \<Rightarrow> Job \<Rightarrow> go_error + Job" where
  "Job_MarkCancelled now j = Transition now StatusCancelled j"

section \<open>Facts\<close>

lemma Terminal_simps [simp]:
  "\<not> Terminal StatusPending" "\<not> Terminal StatusRunning" "\<not> Terminal (StatusOther t)"
  "Terminal StatusCompleted" "Terminal StatusFailed" "Terminal StatusCancelled"
  by (simp_all add: Terminal_def)

lemma Valid_iff: "Valid s \<longleftrightarrow> (\<forall>t. s \<noteq> StatusOther t)"
  by (cases s) (simp_all add: Valid_def)

lemma Terminal_Valid: "Terminal s \<Longrightarrow> Valid s"
  by (auto simp: Terminal_def Valid_def)

lemma CanTransition_iff:
  "CanTransition j to \<longleftrightarrow>
     job_Status j = StatusPending \<and> to \<in> {StatusRunning, StatusCancelled} \<or>
     job_Status j = StatusRunning \<and> to \<in> {StatusCompleted, StatusFailed, StatusCancelled}"
  by (cases "job_Status j") (auto simp: CanTransition_def Valid_def)

lemma Transition_Inr_iff: "(\<exists>j'. Transition now to j = Inr j') \<longleftrightarrow> CanTransition j to"
  by (simp add: Transition_def Let_def)

text \<open>What each mark does where it succeeds, and exactly when it does.\<close>

lemma Job_MarkRunning_pending:
  "job_Status j = StatusPending \<Longrightarrow>
   Job_MarkRunning now ids j =
     Inr (j\<lparr>job_Status := StatusRunning, AssignedNodeIDs := ids, StartedAt := now\<rparr>)"
  by (simp add: Job_MarkRunning_def Transition_def CanTransition_iff)

lemma Job_MarkRunning_InrD:
  "Job_MarkRunning now ids j = Inr j' \<Longrightarrow>
   job_Status j = StatusPending \<and>
   j' = j\<lparr>job_Status := StatusRunning, AssignedNodeIDs := ids, StartedAt := now\<rparr>"
  by (auto simp: Job_MarkRunning_def Transition_def CanTransition_iff Let_def split: if_splits)

lemma Job_MarkCompleted_running:
  "job_Status j = StatusRunning \<Longrightarrow>
   Job_MarkCompleted now c j =
     Inr (j\<lparr>job_Status := StatusCompleted, FinishedAt := now, ExitCode := c\<rparr>)"
  by (simp add: Job_MarkCompleted_def Transition_def CanTransition_iff)

lemma Job_MarkCompleted_InrD:
  "Job_MarkCompleted now c j = Inr j' \<Longrightarrow>
   job_Status j = StatusRunning \<and>
   j' = j\<lparr>job_Status := StatusCompleted, FinishedAt := now, ExitCode := c\<rparr>"
  by (auto simp: Job_MarkCompleted_def Transition_def CanTransition_iff Let_def split: if_splits)

lemma Job_MarkFailed_running:
  "job_Status j = StatusRunning \<Longrightarrow>
   Job_MarkFailed now c msg j =
     Inr (j\<lparr>job_Status := StatusFailed, FinishedAt := now, ExitCode := c, ErrorMessage := msg\<rparr>)"
  by (simp add: Job_MarkFailed_def Transition_def CanTransition_iff)

lemma Job_MarkFailed_InrD:
  "Job_MarkFailed now c msg j = Inr j' \<Longrightarrow>
   job_Status j = StatusRunning \<and>
   j' = j\<lparr>job_Status := StatusFailed, FinishedAt := now, ExitCode := c, ErrorMessage := msg\<rparr>"
  by (auto simp: Job_MarkFailed_def Transition_def CanTransition_iff Let_def split: if_splits)

lemma Job_MarkCancelled_active:
  "job_Status j = StatusPending \<or> job_Status j = StatusRunning \<Longrightarrow>
   Job_MarkCancelled now j = Inr (j\<lparr>job_Status := StatusCancelled, FinishedAt := now\<rparr>)"
  by (auto simp: Job_MarkCancelled_def Transition_def CanTransition_iff)

lemmas mark_active =
  Job_MarkRunning_pending Job_MarkCompleted_running Job_MarkFailed_running Job_MarkCancelled_active

lemmas mark_InrD = Job_MarkRunning_InrD Job_MarkCompleted_InrD Job_MarkFailed_InrD

section \<open>The life of a job\<close>

text \<open>
  The operations on one job as a step relation: whatever a caller marks, at whatever clock.
\<close>

inductive job_step :: "Job \<Rightarrow> Job \<Rightarrow> bool" where
  run: "Job_MarkRunning now ids j = Inr j' \<Longrightarrow> job_step j j'"
| complete: "Job_MarkCompleted now c j = Inr j' \<Longrightarrow> job_step j j'"
| fail: "Job_MarkFailed now c msg j = Inr j' \<Longrightarrow> job_step j j'"
| cancel: "Job_MarkCancelled now j = Inr j' \<Longrightarrow> job_step j j'"

inductive_cases job_stepE: "job_step j j'"

text \<open>The stages of a job's life: a step always moves to a later one, so there are at most two.\<close>

definition stage :: "Job \<Rightarrow> nat" where
  "stage j = (case job_Status j of StatusPending \<Rightarrow> 0 | StatusRunning \<Rightarrow> 1 | _ \<Rightarrow> 2)"

lemma Job_MarkCancelled_InrD:
  "Job_MarkCancelled now j = Inr j' \<Longrightarrow>
   (job_Status j = StatusPending \<or> job_Status j = StatusRunning) \<and>
   j' = j\<lparr>job_Status := StatusCancelled, FinishedAt := now\<rparr>"
  by (auto simp: Job_MarkCancelled_def Transition_def CanTransition_iff Let_def split: if_splits)

lemma job_step_stage: "job_step j j' \<Longrightarrow> stage j < stage j'"
  by (erule job_stepE) (auto simp: stage_def dest!: mark_InrD Job_MarkCancelled_InrD)

lemma job_step_frame:
  "job_step j j' \<Longrightarrow> job_ID j' = job_ID j \<and> job_Spec j' = job_Spec j \<and> SubmittedAt j' = SubmittedAt j"
  by (erule job_stepE) (auto dest!: mark_InrD Job_MarkCancelled_InrD)

lemma job_step_active: "job_step j j' \<Longrightarrow> job_Status j \<in> {StatusPending, StatusRunning}"
  by (erule job_stepE) (auto dest!: mark_InrD Job_MarkCancelled_InrD)

lemma job_step_Valid: "job_step j j' \<Longrightarrow> Valid (job_Status j')"
  by (erule job_stepE) (auto simp: Valid_def dest!: mark_InrD Job_MarkCancelled_InrD)

lemma job_steps_length:
  "(job_step ^^ n) j j' \<Longrightarrow> stage j + n \<le> stage j'"
proof (induction n arbitrary: j')
  case (Suc n)
  then obtain m where "(job_step ^^ n) j m" "job_step m j'" by auto
  with Suc.IH [of m] job_step_stage [of m j'] show ?case by linarith
qed simp

text \<open>A job that \<open>New_Job\<close> returns: validated, pending, with nothing assigned or stamped.\<close>

lemma New_Job_Inr:
  "New_Job now jid spec = Inr j \<Longrightarrow>
   job_ID j = jid \<and> \<not> blank jid \<and> job_Status j = StatusPending \<and> job_Spec j = spec \<and>
   AssignedNodeIDs j = [] \<and> SubmittedAt j = now \<and> StartedAt j = 0 \<and> FinishedAt j = 0 \<and>
   Spec_Validate spec = None"
  by (auto simp: New_Job_def split: if_splits option.splits)

lemma Spec_Validate_None_iff:
  "Spec_Validate s = None \<longleftrightarrow>
     1 \<le> NodesRequired (Resources s) \<and> 1 \<le> CPUsPerNode (Resources s) \<and>
     0 \<le> MaxDuration (Resources s) \<and> \<not> blank (Command s)"
  by (auto simp: Spec_Validate_def ResourceRequest_Validate_def split: option.splits)

section \<open>Sample values\<close>

text \<open>Small concrete values for the witnesses of the properties.\<close>

definition sample_spec :: "int \<Rightarrow> Spec" where
  "sample_spec n =
     \<lparr>Resources = \<lparr>NodesRequired = n, CPUsPerNode = 1, MaxDuration = 0\<rparr>,
      Command = ''hello'', Args = [], Env = fmempty\<rparr>"

definition sample_job :: "string \<Rightarrow> int \<Rightarrow> Job" where
  "sample_job jid n =
     \<lparr>job_ID = jid, job_Status = StatusPending, job_Spec = sample_spec n, AssignedNodeIDs = [],
      SubmittedAt = 1, StartedAt = 0, FinishedAt = 0, ExitCode = 0, ErrorMessage = []\<rparr>"

lemma sample_job_simps [simp]:
  "job_ID (sample_job jid n) = jid" "job_Status (sample_job jid n) = StatusPending"
  "job_Spec (sample_job jid n) = sample_spec n" "AssignedNodeIDs (sample_job jid n) = []"
  by (simp_all add: sample_job_def)

lemma sample_spec_simps [simp]:
  "NodesRequired (Resources (sample_spec n)) = n" "CPUsPerNode (Resources (sample_spec n)) = 1"
  "MaxDuration (Resources (sample_spec n)) = 0" "Command (sample_spec n) = ''hello''"
  "Env (sample_spec n) = fmempty" "Args (sample_spec n) = []"
  by (simp_all add: sample_spec_def)

lemma sample_command_ok [simp]: "\<not> blank ''hello''"
  by code_simp

section \<open>Properties\<close>

text \<open>A job is created exactly from a non-blank ID and a specification that asks for at least
  one node and one CPU, bounds the run by no negative duration, and names a non-blank command.\<close>

theorem new_job_accepts_valid_specs:
  "(\<exists>j. New_Job now jid spec = Inr j) \<longleftrightarrow>
     \<not> blank jid \<and> 1 \<le> NodesRequired (Resources spec) \<and> 1 \<le> CPUsPerNode (Resources spec) \<and>
     0 \<le> MaxDuration (Resources spec) \<and> \<not> blank (Command spec)"
proof -
  have "(\<exists>j. New_Job now jid spec = Inr j) \<longleftrightarrow> \<not> blank jid \<and> Spec_Validate spec = None"
    by (simp add: New_Job_def split: option.split)
  then show ?thesis by (simp add: Spec_Validate_None_iff)
qed

text \<open>However its owner marks it, a job makes at most two transitions in its life, and its
  identity, specification and submission time never change.\<close>

theorem job_lifecycle:
  assumes "(job_step ^^ n) j j'"
  shows "n \<le> 2 \<and> job_ID j' = job_ID j \<and> job_Spec j' = job_Spec j \<and> SubmittedAt j' = SubmittedAt j"
proof -
  have "stage j' \<le> 2" by (simp add: stage_def split: Status.split)
  with job_steps_length [OF assms] have "n \<le> 2" by linarith
  moreover have "job_step\<^sup>*\<^sup>* j j'" using assms by (rule relpowp_imp_rtranclp)
  then have "job_ID j' = job_ID j \<and> job_Spec j' = job_Spec j \<and> SubmittedAt j' = SubmittedAt j"
    by (induction rule: rtranclp_induct) (auto dest: job_step_frame)
  ultimately show ?thesis by simp
qed

theorem job_lifecycle_witness:
  "(1::nat) \<le> 2 \<and> job_ID ((sample_job ''a'' 1)\<lparr>job_Status := StatusCancelled, FinishedAt := 5\<rparr>) = ''a''"
proof -
  have "job_step (sample_job ''a'' 1) ((sample_job ''a'' 1)\<lparr>job_Status := StatusCancelled, FinishedAt := 5\<rparr>)"
    by (rule job_step.cancel [of 5]) (rule Job_MarkCancelled_active, simp)
  then have "(job_step ^^ 1) (sample_job ''a'' 1) ((sample_job ''a'' 1)\<lparr>job_Status := StatusCancelled, FinishedAt := 5\<rparr>)"
    by (simp only: relpowp_1)
  from job_lifecycle [OF this] show ?thesis by simp
qed

end
