(* ===== verification/Component.thy ===== *)
theory Component
  imports Prelude
begin

text \<open>
  The interface every lock-protected component of the controller offers its callers.  The job
  manager, the registry and the hub each guard their state with one mutex, and every exported
  method holds it from start to end, so the goroutines that share a component act on it as some
  sequence of whole method calls.  A component is therefore an initial state and an operation on
  the state; what holds after every sequence of operations holds under every interleaving of the
  callers.
\<close>

locale guarded_component =
  fixes init :: 's
    and apply_op :: "'op \<Rightarrow> 's \<Rightarrow> 's"
    and inv :: "'s \<Rightarrow> bool"
  assumes inv_init: "inv init"
    and inv_op: "inv s \<Longrightarrow> inv (apply_op c s)"
begin

lemma inv_from: "inv s \<Longrightarrow> inv (fold apply_op cs s)"
  by (induction cs arbitrary: s) (simp_all add: inv_op)

lemma inv_run: "inv (fold apply_op cs init)"
  by (rule inv_from) (rule inv_init)

end

text \<open>
  A component whose operations only move its state forward along a preorder: what the preorder
  says of one operation it says of every run.
\<close>

locale forward_component = guarded_component +
  fixes later :: "'a \<Rightarrow> 'a \<Rightarrow> bool"
  assumes later_refl: "later s s"
    and later_trans: "inv s \<Longrightarrow> inv t \<Longrightarrow> later s t \<Longrightarrow> later t u \<Longrightarrow> later s u"
    and later_op: "inv s \<Longrightarrow> later s (apply_op c s)"
begin

lemma later_from: "inv s \<Longrightarrow> later s (fold apply_op cs s)"
proof (induction cs arbitrary: s)
  case Nil
  then show ?case by (simp add: later_refl)
next
  case (Cons c cs)
  have ok: "inv (apply_op c s)" using Cons.prems by (rule inv_op)
  have "later s (apply_op c s)" using Cons.prems by (rule later_op)
  moreover have "later (apply_op c s) (fold apply_op cs (apply_op c s))"
    using ok by (rule Cons.IH)
  ultimately have "later s (fold apply_op cs (apply_op c s))"
    by (rule later_trans [OF Cons.prems ok])
  then show ?case by simp
qed

lemma later_run: "later (fold apply_op cs init) (fold apply_op (cs @ ds) init)"
  by (simp add: later_from inv_run)

end

text \<open>
  First-in first-out queueing: entries join at the tail, the head is the one that is served, and an
  entry may leave from anywhere.
\<close>

locale fifo_queue =
  fixes enq :: "'e \<Rightarrow> 'q \<Rightarrow> 'q"
    and peek :: "'q \<Rightarrow> 'a option"
    and key :: "'e \<Rightarrow> 'a"
    and contents :: "'q \<Rightarrow> 'a list"
    and accepts :: "'e \<Rightarrow> 'q \<Rightarrow> bool"
  assumes contents_enq: "accepts x q \<Longrightarrow> contents (enq x q) = contents q @ [key x]"
    and peek_contents: "peek q = (case contents q of [] \<Rightarrow> None | a # _ \<Rightarrow> Some a)"
begin

fun accepts_all :: "'e list \<Rightarrow> 'q \<Rightarrow> bool" where
  "accepts_all [] q = True"
| "accepts_all (x # xs) q = (accepts x q \<and> accepts_all xs (enq x q))"

lemma contents_enq_all:
  "accepts_all xs q \<Longrightarrow> contents (fold enq xs q) = contents q @ map key xs"
  by (induction xs arbitrary: q) (simp_all add: contents_enq)

lemma peek_after_enq_all:
  "accepts_all xs q \<Longrightarrow> contents q \<noteq> [] \<Longrightarrow> peek (fold enq xs q) = peek q"
  by (simp add: peek_contents contents_enq_all split: list.split)

end

end
