(* ===== verification/Registry.thy ===== *)
theory Registry
  imports Component
begin

text \<open>
  The node registry of \<open>src/internal/cluster/registry.go\<close>: the cluster's nodes keyed by ID, with
  registration, heartbeats, staleness, and the all-or-nothing reservation of a gang.  Every method
  holds the registry's mutex, so each is one function on the state.  \<open>now\<close> is \<open>time.Now()\<close>.
\<close>

section \<open>State\<close>

datatype node_Status = StatusOnline | StatusOffline | NodeStatusOther string

record Node =
  node_ID :: string
  Hostname :: string
  Address :: string
  node_Status :: node_Status
  TotalCPUs :: int
  AllocatedCPUs :: int
  LastHeartbeat :: instant
  CurrentJobID :: string

record Registry =
  nodes :: "(string, Node) fmap"

definition Make_Registry :: Registry where
  "Make_Registry = \<lparr>nodes = fmempty\<rparr>"

text \<open>The zero value that indexing a Go map at an absent key yields.\<close>

definition zero_Node :: Node where
  "zero_Node = \<lparr>node_ID = [], Hostname = [], Address = [], node_Status = NodeStatusOther [],
     TotalCPUs = 0, AllocatedCPUs = 0, LastHeartbeat = 0, CurrentJobID = []\<rparr>"

section \<open>Registration and heartbeats\<close>

definition merge_existing :: "Node \<Rightarrow> Node \<Rightarrow> Node" where
  "merge_existing existing node =
     node\<lparr>Hostname := (if Hostname node = [] then Hostname existing else Hostname node),
          Address := (if Address node = [] then Address existing else Address node),
          TotalCPUs := (if TotalCPUs node = 0 then TotalCPUs existing else TotalCPUs node),
          AllocatedCPUs := AllocatedCPUs existing,
          CurrentJobID := CurrentJobID existing\<rparr>"

definition RegisterNode :: "instant \<Rightarrow> Node \<Rightarrow> Registry \<Rightarrow> Registry" where
  "RegisterNode now node r =
     (if node_ID node = [] then r
      else
        let n1 = (case fmlookup (nodes r) (node_ID node) of
                    None \<Rightarrow> node | Some existing \<Rightarrow> merge_existing existing node);
            n2 = (if node_Status n1 = NodeStatusOther [] then n1\<lparr>node_Status := StatusOnline\<rparr> else n1);
            n3 = (if time_IsZero (LastHeartbeat n2) then n2\<lparr>LastHeartbeat := now\<rparr> else n2)
        in r\<lparr>nodes := fmupd (node_ID n3) n3 (nodes r)\<rparr>)"

definition Reg_Get :: "string \<Rightarrow> Registry \<Rightarrow> Node option" where
  "Reg_Get nodeID r = fmlookup (nodes r) nodeID"

definition Touch :: "instant \<Rightarrow> string \<Rightarrow> Registry \<Rightarrow> bool \<times> Registry" where
  "Touch now nodeID r =
     (if nodeID = [] then (False, r)
      else case fmlookup (nodes r) nodeID of
        None \<Rightarrow> (False, r)
      | Some n \<Rightarrow> (True, r\<lparr>nodes := fmupd nodeID (n\<lparr>LastHeartbeat := now, node_Status := StatusOnline\<rparr>) (nodes r)\<rparr>))"

text \<open>The loop of \<open>ReapStale\<close> over the keys, in the order \<open>range\<close> visits them.\<close>

fun reap_loop :: "instant \<Rightarrow> duration \<Rightarrow> string list \<Rightarrow> Registry \<Rightarrow> Node list \<times> Registry" where
  "reap_loop now timeout [] r = ([], r)"
| "reap_loop now timeout (k # ks) r = (case fmlookup (nodes r) k of
     None \<Rightarrow> reap_loop now timeout ks r
   | Some n \<Rightarrow>
       if node_Status n \<noteq> StatusOnline then reap_loop now timeout ks r
       else if time_Sub now (LastHeartbeat n) \<le> timeout then reap_loop now timeout ks r
       else
         let n' = n\<lparr>node_Status := StatusOffline\<rparr>;
             (dead, r') = reap_loop now timeout ks (r\<lparr>nodes := fmupd k n' (nodes r)\<rparr>)
         in (n' # dead, r'))"

definition ReapStale :: "string list \<Rightarrow> instant \<Rightarrow> duration \<Rightarrow> Registry \<Rightarrow> Node list \<times> Registry" where
  "ReapStale ks now timeout r = (if timeout \<le> 0 then ([], r) else reap_loop now timeout ks r)"

definition UpdateNode :: "Node \<Rightarrow> Registry \<Rightarrow> Registry" where
  "UpdateNode node r =
     (if node_ID node = [] then r
      else if fmlookup (nodes r) (node_ID node) = None then r
      else r\<lparr>nodes := fmupd (node_ID node) node (nodes r)\<rparr>)"

definition MarkNodeOffline :: "Node \<Rightarrow> Registry \<Rightarrow> Registry" where
  "MarkNodeOffline node r = (case fmlookup (nodes r) (node_ID node) of
     None \<Rightarrow> r
   | Some n \<Rightarrow> r\<lparr>nodes := fmupd (node_ID node) (n\<lparr>node_Status := StatusOffline\<rparr>) (nodes r)\<rparr>)"

section \<open>Listing\<close>

text \<open>
  The nodes are collected in the order of \<open>range\<close> and sorted by ID; \<open>ListNodes\<close> takes the order
  \<open>go_keys\<close>, and \<open>list_nodes_in_order\<close> below shows that every other gives the same list.
\<close>

definition list_nodes_in :: "string list \<Rightarrow> Registry \<Rightarrow> Node list" where
  "list_nodes_in ks r = sort_key node_ID (go_values ks (nodes r))"

definition ListNodes :: "Registry \<Rightarrow> Node list" where
  "ListNodes r = list_nodes_in (go_keys (nodes r)) r"

section \<open>Reservation\<close>

fun reserve_check :: "string list \<Rightarrow> int \<Rightarrow> Registry \<Rightarrow> go_error option" where
  "reserve_check [] cpus r = None"
| "reserve_check (k # ks) cpus r = (case fmlookup (nodes r) k of
     None \<Rightarrow> Some (Errorf (''node '' @ k @ '' not registered''))
   | Some n \<Rightarrow>
       if node_Status n \<noteq> StatusOnline then Some (Errorf (''node '' @ k @ '' is not online''))
       else if CurrentJobID n \<noteq> []
       then Some (Errorf (''node '' @ k @ '' is busy with job '' @ CurrentJobID n))
       else if wrap64 (TotalCPUs n - AllocatedCPUs n) < cpus
       then Some (Errorf (''node '' @ k @ '' has insufficient free CPUs''))
       else reserve_check ks cpus r)"

fun reserve_loop :: "string \<Rightarrow> string list \<Rightarrow> int \<Rightarrow> Registry \<Rightarrow> Registry" where
  "reserve_loop jobID [] cpus r = r"
| "reserve_loop jobID (k # ks) cpus r =
     (let n = (case fmlookup (nodes r) k of None \<Rightarrow> zero_Node | Some n \<Rightarrow> n)
      in reserve_loop jobID ks cpus
           (r\<lparr>nodes := fmupd k (n\<lparr>AllocatedCPUs := wrap64 (AllocatedCPUs n + cpus), CurrentJobID := jobID\<rparr>) (nodes r)\<rparr>))"

definition ReserveNodes :: "string \<Rightarrow> string list \<Rightarrow> int \<Rightarrow> Registry \<Rightarrow> go_error option \<times> Registry" where
  "ReserveNodes jobID nodeIDs cpusPerNode r =
     (if jobID = [] then (Some (Errorf ''job id must be non-empty''), r)
      else if cpusPerNode < 1
      then (Some (Errorf (''cpus_per_node must be >= 1, got '' @ itoa cpusPerNode)), r)
      else if nodeIDs = [] then (Some (Errorf ''no nodes to reserve''), r)
      else case reserve_check nodeIDs cpusPerNode r of
        Some err \<Rightarrow> (Some err, r)
      | None \<Rightarrow> (None, reserve_loop jobID nodeIDs cpusPerNode r))"

fun ReleaseNodes :: "string list \<Rightarrow> int \<Rightarrow> Registry \<Rightarrow> Registry" where
  "ReleaseNodes [] cpusPerNode r = r"
| "ReleaseNodes (k # ks) cpusPerNode r = (case fmlookup (nodes r) k of
     None \<Rightarrow> ReleaseNodes ks cpusPerNode r
   | Some n \<Rightarrow>
       let left = wrap64 (AllocatedCPUs n - cpusPerNode);
           n' = n\<lparr>AllocatedCPUs := (if left < 0 then 0 else left), CurrentJobID := []\<rparr>
       in ReleaseNodes ks cpusPerNode (r\<lparr>nodes := fmupd k n' (nodes r)\<rparr>))"

section \<open>Lookup after each operation\<close>

definition stale :: "instant \<Rightarrow> duration \<Rightarrow> Node \<Rightarrow> bool" where
  "stale now timeout n \<longleftrightarrow> node_Status n = StatusOnline \<and> timeout < time_Sub now (LastHeartbeat n)"

definition mark_stale :: "instant \<Rightarrow> duration \<Rightarrow> Node \<Rightarrow> Node" where
  "mark_stale now timeout n = (if stale now timeout n then n\<lparr>node_Status := StatusOffline\<rparr> else n)"

definition released :: "int \<Rightarrow> Node \<Rightarrow> Node" where
  "released cpus n =
     n\<lparr>AllocatedCPUs := max 0 (wrap64 (AllocatedCPUs n - cpus)), CurrentJobID := []\<rparr>"

definition reserved :: "string \<Rightarrow> int \<Rightarrow> Node \<Rightarrow> Node" where
  "reserved jobID cpus n =
     n\<lparr>AllocatedCPUs := wrap64 (AllocatedCPUs n + cpus), CurrentJobID := jobID\<rparr>"

definition free_for :: "int \<Rightarrow> Node \<Rightarrow> bool" where
  "free_for cpus n \<longleftrightarrow> node_Status n = StatusOnline \<and> CurrentJobID n = [] \<and>
     cpus \<le> wrap64 (TotalCPUs n - AllocatedCPUs n)"

lemma reap_loop_lookup:
  "distinct ks \<Longrightarrow>
   fmlookup (nodes (snd (reap_loop now timeout ks r))) k =
     (if k \<in> set ks then map_option (mark_stale now timeout) (fmlookup (nodes r) k)
      else fmlookup (nodes r) k)"
  by (induction ks arbitrary: r)
    (auto simp: mark_stale_def stale_def Let_def split_beta split: option.split)

lemma reap_loop_dead:
  "distinct ks \<Longrightarrow>
   fst (reap_loop now timeout ks r) =
     map (\<lambda>n. n\<lparr>node_Status := StatusOffline\<rparr>) (filter (stale now timeout) (go_values ks (nodes r)))"
  by (induction ks arbitrary: r)
    (auto simp: stale_def Let_def split_beta go_values_fmupd split: option.split)

lemma reserve_check_None_iff:
  "reserve_check ks cpus r = None \<longleftrightarrow>
     (\<forall>k \<in> set ks. \<exists>n. fmlookup (nodes r) k = Some n \<and> free_for cpus n)"
  by (induction ks) (auto simp: free_for_def split: option.split)

lemma reserve_loop_lookup:
  assumes "distinct ks" "\<forall>k \<in> set ks. fmlookup (nodes r) k \<noteq> None"
  shows "fmlookup (nodes (reserve_loop jobID ks cpus r)) k =
     (if k \<in> set ks then map_option (reserved jobID cpus) (fmlookup (nodes r) k)
      else fmlookup (nodes r) k)"
  using assms by (induction ks arbitrary: r) (auto simp: reserved_def Let_def split: option.split)

lemma ReleaseNodes_Cons:
  "ReleaseNodes (k # ks) cpus r = (case fmlookup (nodes r) k of
     None \<Rightarrow> ReleaseNodes ks cpus r
   | Some n \<Rightarrow> ReleaseNodes ks cpus (r\<lparr>nodes := fmupd k (released cpus n) (nodes r)\<rparr>))"
  by (simp add: released_def Let_def max_def split: option.split)

declare ReleaseNodes.simps(2) [simp del]
declare ReleaseNodes_Cons [simp]

lemma ReleaseNodes_lookup:
  "distinct ks \<Longrightarrow>
   fmlookup (nodes (ReleaseNodes ks cpus r)) k =
     (if k \<in> set ks then map_option (released cpus) (fmlookup (nodes r) k)
      else fmlookup (nodes r) k)"
  by (induction ks arbitrary: r) (auto split: option.split)

lemma Registry_eqI: "(\<And>k. fmlookup (nodes r) k = fmlookup (nodes r') k) \<Longrightarrow> r = (r' :: Registry)"
  by (intro Registry.equality fmap_ext) simp_all

text \<open>Exactly when a reservation succeeds, and that a refused one changes nothing.\<close>

lemma ReserveNodes_None_iff:
  "fst (ReserveNodes jobID ks cpus r) = None \<longleftrightarrow>
     jobID \<noteq> [] \<and> 1 \<le> cpus \<and> ks \<noteq> [] \<and>
     (\<forall>k \<in> set ks. \<exists>n. fmlookup (nodes r) k = Some n \<and> free_for cpus n)"
  by (auto simp: ReserveNodes_def reserve_check_None_iff [symmetric] split: option.split)

lemma ReserveNodes_error: "fst (ReserveNodes jobID ks cpus r) \<noteq> None \<Longrightarrow> snd (ReserveNodes jobID ks cpus r) = r"
  by (auto simp: ReserveNodes_def split: option.split)

lemma ReserveNodes_lookup:
  assumes "distinct ks" "fst (ReserveNodes jobID ks cpus r) = None"
  shows "fmlookup (nodes (snd (ReserveNodes jobID ks cpus r))) k =
     (if k \<in> set ks then map_option (reserved jobID cpus) (fmlookup (nodes r) k)
      else fmlookup (nodes r) k)"
proof -
  from assms(2) have "snd (ReserveNodes jobID ks cpus r) = reserve_loop jobID ks cpus r"
    by (auto simp: ReserveNodes_def split: if_splits option.splits)
  moreover have "\<forall>k \<in> set ks. fmlookup (nodes r) k \<noteq> None"
    using assms(2) by (auto simp: ReserveNodes_None_iff)
  ultimately show ?thesis using reserve_loop_lookup [OF assms(1)] by simp
qed


section \<open>The invariant\<close>

text \<open>Nodes are stored under their own, non-empty ID.\<close>

definition reg_inv :: "Registry \<Rightarrow> bool" where
  "reg_inv r \<longleftrightarrow> (\<forall>k n. fmlookup (nodes r) k = Some n \<longrightarrow> node_ID n = k \<and> k \<noteq> [])"

lemma reg_invD: "reg_inv r \<Longrightarrow> fmlookup (nodes r) k = Some n \<Longrightarrow> node_ID n = k \<and> k \<noteq> []"
  by (simp add: reg_inv_def)

lemma reg_inv_upd:
  "reg_inv r \<Longrightarrow> node_ID n = k \<Longrightarrow> k \<noteq> [] \<Longrightarrow> reg_inv (r\<lparr>nodes := fmupd k n (nodes r)\<rparr>)"
  by (simp add: reg_inv_def)

lemma reg_inv_Make [inv_intros]: "reg_inv Make_Registry"
  by (simp add: reg_inv_def Make_Registry_def)

lemma merge_existing_fields [simp]:
  "node_ID (merge_existing e n) = node_ID n" "node_Status (merge_existing e n) = node_Status n"
  "AllocatedCPUs (merge_existing e n) = AllocatedCPUs e" "CurrentJobID (merge_existing e n) = CurrentJobID e"
  "LastHeartbeat (merge_existing e n) = LastHeartbeat n"
  by (simp_all add: merge_existing_def)

lemma reg_inv_RegisterNode [inv_intros]: "reg_inv r \<Longrightarrow> reg_inv (RegisterNode now node r)"
  by (auto simp: RegisterNode_def Let_def intro!: reg_inv_upd split: option.split)

lemma reg_inv_Touch [inv_intros]: "reg_inv r \<Longrightarrow> reg_inv (snd (Touch now k r))"
  by (auto simp: Touch_def intro!: reg_inv_upd dest: reg_invD split: option.split)

lemma reg_inv_reap_loop: "reg_inv r \<Longrightarrow> reg_inv (snd (reap_loop now timeout ks r))"
proof (induction ks arbitrary: r)
  case (Cons k ks)
  have "reg_inv (r\<lparr>nodes := fmupd k (n\<lparr>node_Status := StatusOffline\<rparr>) (nodes r)\<rparr>)"
    if "fmlookup (nodes r) k = Some n" for n
    using reg_invD [OF Cons.prems that] by (intro reg_inv_upd Cons.prems) simp_all
  with Cons show ?case by (simp add: Let_def split_beta split: option.split)
qed simp

lemma reg_inv_ReapStale [inv_intros]: "reg_inv r \<Longrightarrow> reg_inv (snd (ReapStale ks now timeout r))"
  by (simp add: ReapStale_def reg_inv_reap_loop)

lemma reg_inv_UpdateNode [inv_intros]: "reg_inv r \<Longrightarrow> reg_inv (UpdateNode node r)"
  by (auto simp: UpdateNode_def intro!: reg_inv_upd)

lemma reg_inv_MarkNodeOffline [inv_intros]: "reg_inv r \<Longrightarrow> reg_inv (MarkNodeOffline node r)"
  by (auto simp: MarkNodeOffline_def intro!: reg_inv_upd dest: reg_invD split: option.split)

lemma reg_inv_reserve_loop:
  "reg_inv r \<Longrightarrow> \<forall>k \<in> set ks. fmlookup (nodes r) k \<noteq> None \<Longrightarrow> reg_inv (reserve_loop jobID ks cpus r)"
proof (induction ks arbitrary: r)
  case (Cons k ks)
  then obtain n where n: "fmlookup (nodes r) k = Some n" by auto
  have "reg_inv (r\<lparr>nodes := fmupd k (n\<lparr>AllocatedCPUs := a, CurrentJobID := jobID\<rparr>) (nodes r)\<rparr>)" for a
    using reg_invD [OF Cons.prems(1) n] by (intro reg_inv_upd Cons.prems) simp_all
  with Cons n show ?case by (simp add: Let_def)
qed simp

lemma reg_inv_ReserveNodes [inv_intros]: "reg_inv r \<Longrightarrow> reg_inv (snd (ReserveNodes jobID ks cpus r))"
  by (auto simp: ReserveNodes_def reserve_check_None_iff intro!: reg_inv_reserve_loop split: option.split)

lemma reg_inv_ReleaseNodes [inv_intros]: "reg_inv r \<Longrightarrow> reg_inv (ReleaseNodes ks cpus r)"
proof (induction ks arbitrary: r)
  case (Cons k ks)
  have "reg_inv (r\<lparr>nodes := fmupd k (released cpus n) (nodes r)\<rparr>)"
    if "fmlookup (nodes r) k = Some n" for n
    using reg_invD [OF Cons.prems that] by (intro reg_inv_upd Cons.prems) (simp_all add: released_def)
  with Cons show ?case by (simp split: option.split)
qed simp

section \<open>The node list\<close>

lemma inj_node_ID: "reg_inv r \<Longrightarrow> inj_on node_ID {n. \<exists>k. fmlookup (nodes r) k = Some n}"
proof (rule inj_onI)
  fix n n' assume inv: "reg_inv r" and eq: "node_ID n = node_ID n'"
    and "n \<in> {n. \<exists>k. fmlookup (nodes r) k = Some n}" "n' \<in> {n. \<exists>k. fmlookup (nodes r) k = Some n}"
  then obtain k k' where k: "fmlookup (nodes r) k = Some n" "fmlookup (nodes r) k' = Some n'" by auto
  with eq reg_invD [OF inv k(1)] reg_invD [OF inv k(2)] show "n = n'" by simp
qed

lemma distinct_go_values:
  assumes "reg_inv r" "distinct ks"
  shows "distinct (map node_ID (go_values ks (nodes r)))"
  using assms(2)
proof (induction ks)
  case (Cons k ks)
  have "node_ID n \<in> set ks" if "n \<in> set (go_values ks (nodes r))" for n
    using that reg_invD [OF assms(1)] by (auto simp: set_go_values)
  with Cons reg_invD [OF assms(1), of k] show ?case by (auto split: option.split)
qed simp

lemma set_ListNodes: "reg_inv r \<Longrightarrow> n \<in> set (ListNodes r) \<longleftrightarrow> fmlookup (nodes r) (node_ID n) = Some n"
  by (auto simp: ListNodes_def list_nodes_in_def go_values_mem [OF go_range_keys] dest: reg_invD)

lemma distinct_ListNodes: "reg_inv r \<Longrightarrow> distinct (map node_ID (ListNodes r))"
proof -
  assume inv: "reg_inv r"
  have "distinct (go_keys (nodes r))"
    using go_range_keys [of "nodes r"] by (simp add: go_range_def)
  from distinct_go_values [OF inv this] show ?thesis
    by (simp add: ListNodes_def list_nodes_in_def distinct_map)
qed

lemma sorted_ListNodes: "sorted (map node_ID (ListNodes r))"
  by (simp add: ListNodes_def list_nodes_in_def)

lemma list_nodes_in_order:
  assumes "reg_inv r" "go_range ks (nodes r)"
  shows "list_nodes_in ks r = ListNodes r"
  unfolding ListNodes_def list_nodes_in_def
proof (rule sort_key_unique)
  let ?vs = "\<lambda>ks. go_values ks (nodes r)"
  have set_eq: "set (?vs ks') = {n. \<exists>k. fmlookup (nodes r) k = Some n}" if "go_range ks' (nodes r)" for ks'
    by (auto simp: go_values_mem [OF that])
  show "inj_on node_ID (set (?vs ks))"
    by (simp add: set_eq [OF assms(2)] inj_node_ID [OF assms(1)])
  show "set (?vs ks) = set (?vs (go_keys (nodes r)))"
    by (simp add: set_eq [OF assms(2)] set_eq [OF go_range_keys])
  show "distinct (?vs ks)" "distinct (?vs (go_keys (nodes r)))"
    using distinct_go_values [OF assms(1)] assms(2) go_range_keys [of "nodes r"]
    by (auto simp: go_range_def distinct_map)
qed


section \<open>CPU accounting\<close>

text \<open>
  Counts are non-negative 64-bit values.  The allocated count of a node may exceed its total, since
  a node may register again with fewer CPUs, but a reservation never makes it so.
\<close>

definition cpus_ok :: "Node \<Rightarrow> bool" where
  "cpus_ok n \<longleftrightarrow> 0 \<le> TotalCPUs n \<and> in_int64 (TotalCPUs n) \<and> 0 \<le> AllocatedCPUs n \<and> in_int64 (AllocatedCPUs n)"

definition reg_cpus :: "Registry \<Rightarrow> bool" where
  "reg_cpus r \<longleftrightarrow> (\<forall>k n. fmlookup (nodes r) k = Some n \<longrightarrow> cpus_ok n)"

lemma reg_cpusD: "reg_cpus r \<Longrightarrow> fmlookup (nodes r) k = Some n \<Longrightarrow> cpus_ok n"
  by (simp add: reg_cpus_def)

text \<open>On such a node the source's test for free CPUs does not overflow.\<close>

lemma free_cpus_exact: "cpus_ok n \<Longrightarrow> wrap64 (TotalCPUs n - AllocatedCPUs n) = TotalCPUs n - AllocatedCPUs n"
  by (simp add: cpus_ok_def in_int64_def)

lemma reserved_exact:
  assumes "cpus_ok n" "free_for cpus n" "1 \<le> cpus"
  shows "AllocatedCPUs (reserved jobID cpus n) = AllocatedCPUs n + cpus"
    and "AllocatedCPUs n + cpus \<le> TotalCPUs n"
proof -
  show le: "AllocatedCPUs n + cpus \<le> TotalCPUs n"
    using assms free_cpus_exact by (simp add: free_for_def)
  with assms have "in_int64 (AllocatedCPUs n + cpus)" by (simp add: cpus_ok_def in_int64_def)
  then show "AllocatedCPUs (reserved jobID cpus n) = AllocatedCPUs n + cpus"
    by (simp add: reserved_def)
qed

lemma cpus_ok_reserved: "cpus_ok n \<Longrightarrow> free_for cpus n \<Longrightarrow> 1 \<le> cpus \<Longrightarrow> cpus_ok (reserved jobID cpus n)"
  using reserved_exact(1) [of n cpus jobID]
  by (simp add: cpus_ok_def reserved_def) (metis in_int64_wrap64)

lemma cpus_ok_released: "cpus_ok n \<Longrightarrow> cpus_ok (released cpus n)"
  using in_int64_wrap64 [of "AllocatedCPUs n - cpus"]
  by (simp add: cpus_ok_def released_def max_def) (simp add: in_int64_def)

text \<open>Releasing what was just reserved gives the node back as it was.\<close>

lemma released_reserved:
  "cpus_ok n \<Longrightarrow> CurrentJobID n = [] \<Longrightarrow> released cpus (reserved jobID cpus n) = n"
  by (simp add: released_def reserved_def wrap64_wrap64_diff cpus_ok_def)

lemma reg_cpus_Touch: "reg_cpus r \<Longrightarrow> reg_cpus (snd (Touch now k r))"
  by (auto simp: Touch_def reg_cpus_def cpus_ok_def split: option.split)

lemma reg_cpus_RegisterNode: "reg_cpus r \<Longrightarrow> cpus_ok node \<Longrightarrow> reg_cpus (RegisterNode now node r)"
  by (auto simp: RegisterNode_def Let_def reg_cpus_def cpus_ok_def merge_existing_def split: option.split)

lemma reg_cpus_ReleaseNodes: "reg_cpus r \<Longrightarrow> reg_cpus (ReleaseNodes ks cpus r)"
proof (induction ks arbitrary: r)
  case (Cons k ks)
  have "reg_cpus (r\<lparr>nodes := fmupd k (released cpus n) (nodes r)\<rparr>)" if "fmlookup (nodes r) k = Some n" for n
    using Cons.prems cpus_ok_released [OF reg_cpusD [OF Cons.prems that]] by (simp add: reg_cpus_def)
  with Cons show ?case by (simp split: option.split)
qed simp

lemma reg_cpus_ReserveNodes:
  assumes "reg_cpus r" "distinct ks"
  shows "reg_cpus (snd (ReserveNodes jobID ks cpus r))"
proof (cases "fst (ReserveNodes jobID ks cpus r)")
  case None
  then have free: "\<forall>k \<in> set ks. \<exists>n. fmlookup (nodes r) k = Some n \<and> free_for cpus n" "1 \<le> cpus"
    by (simp_all add: ReserveNodes_None_iff)
  show ?thesis
    unfolding reg_cpus_def ReserveNodes_lookup [OF assms(2) None]
    using free assms(1) by (auto simp: reg_cpusD cpus_ok_reserved split: if_splits)
next
  case (Some err)
  then show ?thesis using assms(1) ReserveNodes_error [of jobID ks cpus r] by simp
qed

lemma reg_cpus_reap_loop: "distinct ks \<Longrightarrow> reg_cpus r \<Longrightarrow> reg_cpus (snd (reap_loop now timeout ks r))"
  by (auto simp: reg_cpus_def reap_loop_lookup mark_stale_def cpus_ok_def split: if_splits)

lemma Release_after_Reserve:
  assumes "reg_cpus r" "distinct ks" "fst (ReserveNodes jobID ks cpus r) = None"
  shows "ReleaseNodes ks cpus (snd (ReserveNodes jobID ks cpus r)) = r"
proof (rule Registry_eqI)
  fix k
  from assms(3) have free: "\<forall>k \<in> set ks. \<exists>n. fmlookup (nodes r) k = Some n \<and> free_for cpus n"
    by (simp add: ReserveNodes_None_iff)
  show "fmlookup (nodes (ReleaseNodes ks cpus (snd (ReserveNodes jobID ks cpus r)))) k = fmlookup (nodes r) k"
  proof (cases "k \<in> set ks")
    case True
    with free obtain n where n: "fmlookup (nodes r) k = Some n" "free_for cpus n" by auto
    with True assms(2,3) reg_cpusD [OF assms(1) n(1)] show ?thesis
      by (simp add: ReleaseNodes_lookup ReserveNodes_lookup released_reserved free_for_def)
  next
    case False
    with assms(2,3) show ?thesis by (simp add: ReleaseNodes_lookup ReserveNodes_lookup)
  qed
qed

section \<open>Runs of the registry\<close>

datatype reg_op =
    OpRegister instant Node
  | OpTouch instant string
  | OpReap "string list" instant duration
  | OpUpdate Node
  | OpMarkOffline Node
  | OpReserve string "string list" int
  | OpRelease "string list" int

fun reg_apply :: "reg_op \<Rightarrow> Registry \<Rightarrow> Registry" where
  "reg_apply (OpRegister now node) r = RegisterNode now node r"
| "reg_apply (OpTouch now k) r = snd (Touch now k r)"
| "reg_apply (OpReap ks now timeout) r = snd (ReapStale ks now timeout r)"
| "reg_apply (OpUpdate node) r = UpdateNode node r"
| "reg_apply (OpMarkOffline node) r = MarkNodeOffline node r"
| "reg_apply (OpReserve jobID ks cpus) r = snd (ReserveNodes jobID ks cpus r)"
| "reg_apply (OpRelease ks cpus) r = ReleaseNodes ks cpus r"

text \<open>A node once known stays known: no operation deletes one.\<close>

definition reg_later :: "Registry \<Rightarrow> Registry \<Rightarrow> bool" where
  "reg_later r r' \<longleftrightarrow> fmdom' (nodes r) \<subseteq> fmdom' (nodes r')"

lemma reg_later_reap_loop: "reg_later r (snd (reap_loop now timeout ks r))"
proof (induction ks arbitrary: r)
  case (Cons k ks)
  show ?case
    using Cons [of r] Cons [of "r\<lparr>nodes := fmupd k n (nodes r)\<rparr>" for n]
    by (fastforce simp: reg_later_def Let_def split_beta split: option.split)
qed (simp add: reg_later_def)

lemma reg_later_reserve_loop: "reg_later r (reserve_loop jobID ks cpus r)"
proof (induction ks arbitrary: r)
  case (Cons k ks)
  show ?case
    using Cons [of "r\<lparr>nodes := fmupd k n (nodes r)\<rparr>" for n] by (fastforce simp: reg_later_def Let_def)
qed (simp add: reg_later_def)

lemma reg_later_ReleaseNodes: "reg_later r (ReleaseNodes ks cpus r)"
proof (induction ks arbitrary: r)
  case (Cons k ks)
  show ?case
    using Cons [of r] Cons [of "r\<lparr>nodes := fmupd k n (nodes r)\<rparr>" for n]
    by (fastforce simp: reg_later_def split: option.split)
qed (simp add: reg_later_def)

lemma reg_later_op: "reg_later r (reg_apply c r)"
proof (cases c)
  case (OpReap ks now timeout)
  then show ?thesis by (simp add: ReapStale_def reg_later_reap_loop) (simp add: reg_later_def)
next
  case (OpReserve jobID ks cpus)
  have "reg_later r r" by (simp add: reg_later_def)
  with OpReserve show ?thesis
    by (simp add: ReserveNodes_def reg_later_reserve_loop split: option.split)
next
  case (OpRelease ks cpus)
  then show ?thesis by (simp add: reg_later_ReleaseNodes)
qed (auto simp: reg_later_def RegisterNode_def Touch_def UpdateNode_def MarkNodeOffline_def Let_def
    split: option.split)

interpretation reg: forward_component Make_Registry reg_apply reg_inv reg_later
proof
  show "reg_inv Make_Registry" by (rule reg_inv_Make)
next
  show "reg_inv (reg_apply c s)" if "reg_inv s" for s c
    using that by (cases c) (auto intro: inv_intros)
next
  show "reg_later s (reg_apply c s)" for s c by (rule reg_later_op)
qed (auto simp: reg_later_def)

section \<open>Properties\<close>

definition sample_node :: "string \<Rightarrow> int \<Rightarrow> Node" where
  "sample_node k cpus =
     \<lparr>node_ID = k, Hostname = [], Address = [], node_Status = StatusOnline, TotalCPUs = cpus,
      AllocatedCPUs = 0, LastHeartbeat = 1, CurrentJobID = []\<rparr>"

definition sample_registry :: Registry where
  "sample_registry = RegisterNode 1 (sample_node ''n2'' 4) (RegisterNode 1 (sample_node ''n1'' 2) Make_Registry)"

lemma sample_registry_nodes:
  "nodes sample_registry = fmupd ''n2'' (sample_node ''n2'' 4) (fmupd ''n1'' (sample_node ''n1'' 2) fmempty)"
  by (simp add: sample_registry_def RegisterNode_def Make_Registry_def sample_node_def time_IsZero_def Let_def)

lemma sample_registry_ok: "reg_inv sample_registry" "reg_cpus sample_registry"
proof -
  show "reg_inv sample_registry" by (auto simp: reg_inv_def sample_registry_nodes sample_node_def)
  show "reg_cpus sample_registry"
    by (simp add: reg_cpus_def cpus_ok_def in_int64_def sample_registry_nodes sample_node_def)
qed

lemma sample_reserve_ok: "fst (ReserveNodes ''j'' [''n1'', ''n2''] 2 sample_registry) = None"
  by (simp add: ReserveNodes_None_iff sample_registry_nodes sample_node_def free_for_def in_int64_def)

text \<open>C12.  Reservation is all or nothing: it succeeds exactly when it is asked for at least one CPU on
  at least one node for a named job and every node is registered, online, idle and has the CPUs free;
  then exactly the named nodes carry the job and its CPUs, and otherwise nothing changes.\<close>

theorem reservation_is_all_or_nothing:
  assumes "distinct ks" "ReserveNodes jobID ks cpus r = (res, r')"
  shows "(res = None \<longleftrightarrow> jobID \<noteq> [] \<and> 1 \<le> cpus \<and> ks \<noteq> [] \<and>
            (\<forall>k \<in> set ks. \<exists>n. fmlookup (nodes r) k = Some n \<and> free_for cpus n)) \<and>
         (res = None \<longrightarrow> (\<forall>k. fmlookup (nodes r') k =
            (if k \<in> set ks then map_option (reserved jobID cpus) (fmlookup (nodes r) k) else fmlookup (nodes r) k))) \<and>
         (res \<noteq> None \<longrightarrow> r' = r)"
  using ReserveNodes_None_iff [of jobID ks cpus r] ReserveNodes_lookup [OF assms(1), of jobID cpus r]
    ReserveNodes_error [of jobID ks cpus r] assms(2) by auto

theorem reservation_is_all_or_nothing_witness:
  "fmlookup (nodes (snd (ReserveNodes ''j'' [''n1'', ''n2''] 2 sample_registry))) ''n1'' =
     Some (reserved ''j'' 2 (sample_node ''n1'' 2))"
proof -
  have "ReserveNodes ''j'' [''n1'', ''n2''] 2 sample_registry =
      (None, snd (ReserveNodes ''j'' [''n1'', ''n2''] 2 sample_registry))"
    using sample_reserve_ok by (metis prod.collapse)
  from reservation_is_all_or_nothing [OF _ this] show ?thesis by (simp add: sample_registry_nodes)
qed

text \<open>C39.  A reservation never oversubscribes: on the nodes it takes, what is allocated afterwards is
  what was allocated before plus the request, and within the node's total.\<close>

theorem reservation_never_oversubscribes:
  assumes "reg_cpus r" "distinct ks" "ReserveNodes jobID ks cpus r = (None, r')" "k \<in> set ks"
  shows "\<exists>n n'. fmlookup (nodes r) k = Some n \<and> fmlookup (nodes r') k = Some n' \<and>
     CurrentJobID n' = jobID \<and> AllocatedCPUs n' = AllocatedCPUs n + cpus \<and> AllocatedCPUs n' \<le> TotalCPUs n'"
proof -
  from assms(3) have ok: "fst (ReserveNodes jobID ks cpus r) = None" by simp
  with assms(4) obtain n where n: "fmlookup (nodes r) k = Some n" "free_for cpus n" "1 \<le> cpus"
    by (auto simp: ReserveNodes_None_iff)
  from ReserveNodes_lookup [OF assms(2) ok, of k] assms(3,4) n(1)
  have "fmlookup (nodes r') k = Some (reserved jobID cpus n)" by simp
  moreover have "CurrentJobID (reserved jobID cpus n) = jobID" "TotalCPUs (reserved jobID cpus n) = TotalCPUs n"
    by (simp_all add: reserved_def)
  ultimately show ?thesis
    using n(1) reserved_exact [OF reg_cpusD [OF assms(1) n(1)] n(2,3)] by simp
qed

theorem reservation_never_oversubscribes_witness:
  "\<exists>n n'. fmlookup (nodes sample_registry) ''n1'' = Some n \<and>
     fmlookup (nodes (snd (ReserveNodes ''j'' [''n1'', ''n2''] 2 sample_registry))) ''n1'' = Some n' \<and>
     CurrentJobID n' = ''j'' \<and> AllocatedCPUs n' = AllocatedCPUs n + 2 \<and> AllocatedCPUs n' \<le> TotalCPUs n'"
proof -
  have "ReserveNodes ''j'' [''n1'', ''n2''] 2 sample_registry =
      (None, snd (ReserveNodes ''j'' [''n1'', ''n2''] 2 sample_registry))"
    using sample_reserve_ok by (metis prod.collapse)
  from reservation_never_oversubscribes [OF sample_registry_ok(2) _ this, of "''n1''"] show ?thesis by simp
qed

text \<open>Releasing what a successful reservation took gives back the registry as it was.\<close>

theorem release_undoes_reserve:
  assumes "reg_cpus r" "distinct ks" "ReserveNodes jobID ks cpus r = (None, r')"
  shows "ReleaseNodes ks cpus r' = r"
  using Release_after_Reserve [OF assms(1,2), of jobID cpus] assms(3) by simp

theorem release_undoes_reserve_witness:
  "ReleaseNodes [''n1'', ''n2''] 2 (snd (ReserveNodes ''j'' [''n1'', ''n2''] 2 sample_registry)) = sample_registry"
proof -
  have "ReserveNodes ''j'' [''n1'', ''n2''] 2 sample_registry =
      (None, snd (ReserveNodes ''j'' [''n1'', ''n2''] 2 sample_registry))"
    using sample_reserve_ok by (metis prod.collapse)
  from release_undoes_reserve [OF sample_registry_ok(2) _ this] show ?thesis by simp
qed

text \<open>Reaping marks offline exactly the online nodes whose last heartbeat is older than the
  timeout, touches no other node or field, and returns those nodes, each once; the registry it leaves
  does not depend on the order in which the map is visited.\<close>

theorem reaping_is_exact:
  assumes "reg_inv r" "go_range ks (nodes r)" "0 < timeout" "ReapStale ks now timeout r = (dead, r')"
  shows "(\<forall>k. fmlookup (nodes r') k = map_option (mark_stale now timeout) (fmlookup (nodes r) k)) \<and>
         distinct (map node_ID dead) \<and>
         set dead = {n\<lparr>node_Status := StatusOffline\<rparr> |n. fmlookup (nodes r) (node_ID n) = Some n \<and> stale now timeout n}"
proof -
  have "distinct ks" using assms(2) by (simp add: go_range_def)
  note look = reap_loop_lookup [OF this, of now timeout r]
  note dead = reap_loop_dead [OF \<open>distinct ks\<close>, of now timeout r]
  have eq: "reap_loop now timeout ks r = (dead, r')" using assms(3,4) by (simp add: ReapStale_def)
  have "fmlookup (nodes r') k = map_option (mark_stale now timeout) (fmlookup (nodes r) k)" for k
    using look [of k] go_range_mem [OF assms(2), of k] eq by auto
  moreover have "distinct (map node_ID dead)"
    using distinct_go_values [OF assms(1) \<open>distinct ks\<close>] dead eq
    by (simp add: comp_def distinct_map_filter)
  moreover have "set dead = {n\<lparr>node_Status := StatusOffline\<rparr> |n. fmlookup (nodes r) (node_ID n) = Some n \<and> stale now timeout n}"
    using dead eq by (auto simp: go_values_mem [OF assms(2)] dest: reg_invD [OF assms(1)])
  ultimately show ?thesis by blast
qed

theorem reaping_is_exact_witness:
  "\<forall>k. fmlookup (nodes (snd (ReapStale [''n1'', ''n2''] 9 5 sample_registry))) k =
       map_option (mark_stale 9 5) (fmlookup (nodes sample_registry) k)"
proof -
  have range: "go_range [''n1'', ''n2''] (nodes sample_registry)"
    by (auto simp: go_range_def sample_registry_nodes)
  have "ReapStale [''n1'', ''n2''] 9 5 sample_registry =
      (fst (ReapStale [''n1'', ''n2''] 9 5 sample_registry), snd (ReapStale [''n1'', ''n2''] 9 5 sample_registry))"
    by simp
  from reaping_is_exact [OF sample_registry_ok(1) range _ this] show ?thesis by simp
qed

text \<open>A node that registers again keeps its reservation: the job it carries and the CPUs allocated
  to it survive, whatever the registration says, and every other node is untouched.\<close>

theorem reregistration_keeps_reservation:
  assumes "fmlookup (nodes r) (node_ID node) = Some old" "node_ID node \<noteq> []"
  shows "\<exists>n. fmlookup (nodes (RegisterNode now node r)) (node_ID node) = Some n \<and>
     CurrentJobID n = CurrentJobID old \<and> AllocatedCPUs n = AllocatedCPUs old \<and>
     Hostname n = (if Hostname node = [] then Hostname old else Hostname node) \<and>
     TotalCPUs n = (if TotalCPUs node = 0 then TotalCPUs old else TotalCPUs node) \<and>
     (\<forall>k. k \<noteq> node_ID node \<longrightarrow> fmlookup (nodes (RegisterNode now node r)) k = fmlookup (nodes r) k)"
  using assms by (auto simp: RegisterNode_def merge_existing_def Let_def)

theorem reregistration_keeps_reservation_witness:
  "\<exists>n. fmlookup (nodes (RegisterNode 5 (sample_node ''n1'' 8)
         (snd (ReserveNodes ''j'' [''n1'', ''n2''] 2 sample_registry)))) ''n1'' = Some n \<and>
     CurrentJobID n = ''j'' \<and> AllocatedCPUs n = 2 \<and> TotalCPUs n = 8"
proof -
  have "fmlookup (nodes (snd (ReserveNodes ''j'' [''n1'', ''n2''] 2 sample_registry))) (node_ID (sample_node ''n1'' 8)) =
      Some (reserved ''j'' 2 (sample_node ''n1'' 2))"
    using ReserveNodes_lookup [OF _ sample_reserve_ok, of "''n1''"]
    by (simp add: sample_registry_nodes sample_node_def)
  from reregistration_keeps_reservation [OF this, of 5] show ?thesis
    by (auto simp: sample_node_def reserved_def in_int64_def)
qed

text \<open>The node list is the registry's nodes, each once, in ascending order of ID, and does not
  depend on the order in which the map is visited.\<close>

theorem node_list_is_deterministic:
  assumes "reg_inv r" "go_range ks (nodes r)"
  shows "list_nodes_in ks r = ListNodes r \<and> sorted (map node_ID (ListNodes r)) \<and>
     distinct (map node_ID (ListNodes r)) \<and>
     (\<forall>n. n \<in> set (ListNodes r) \<longleftrightarrow> fmlookup (nodes r) (node_ID n) = Some n)"
  using list_nodes_in_order [OF assms] sorted_ListNodes distinct_ListNodes set_ListNodes assms(1) by blast

theorem node_list_is_deterministic_witness:
  "list_nodes_in [''n2'', ''n1''] sample_registry = ListNodes sample_registry"
proof -
  have "go_range [''n2'', ''n1''] (nodes sample_registry)"
    by (auto simp: go_range_def sample_registry_nodes)
  from node_list_is_deterministic [OF sample_registry_ok(1) this] show ?thesis by simp
qed

end
