(* ===== verification/Resources.thy ===== *)
theory Resources
  imports Job Registry
begin

text \<open>
  Gang selection, \<open>src/internal/scheduler/resources.go\<close>: which nodes of a snapshot can host a
  request together.  A nil result is \<open>None\<close>.
\<close>

definition FreeCPUs :: "Node \<Rightarrow> int" where
  "FreeCPUs n = (let free = wrap64 (TotalCPUs n - AllocatedCPUs n) in if free < 0 then 0 else free)"

definition nodeFits :: "Node \<Rightarrow> int \<Rightarrow> bool" where
  "nodeFits n cpusPerNode \<longleftrightarrow>
     node_Status n = StatusOnline \<and> CurrentJobID n = [] \<and> FreeCPUs n \<ge> cpusPerNode"

text \<open>The loop of \<open>SelectGang\<close>, with the IDs collected so far.\<close>

fun select_loop :: "ResourceRequest \<Rightarrow> string list \<Rightarrow> Node list \<Rightarrow> string list option" where
  "select_loop req ids [] = None"
| "select_loop req ids (n # ns) =
     (if \<not> nodeFits n (CPUsPerNode req) then select_loop req ids ns
      else
        let ids' = ids @ [node_ID n]
        in if int (length ids') = NodesRequired req then Some ids' else select_loop req ids' ns)"

definition SelectGang :: "Node list \<Rightarrow> ResourceRequest \<Rightarrow> string list option" where
  "SelectGang ns req =
     (if NodesRequired req < 1 \<or> CPUsPerNode req < 1 then None else select_loop req [] ns)"

definition CanSatisfy :: "Node list \<Rightarrow> ResourceRequest \<Rightarrow> bool" where
  "CanSatisfy ns req \<longleftrightarrow>
     int (length (case SelectGang ns req of None \<Rightarrow> [] | Some ids \<Rightarrow> ids)) = NodesRequired req"

section \<open>Reference definition\<close>

definition fitting :: "int \<Rightarrow> Node list \<Rightarrow> Node list" where
  "fitting cpus ns = filter (\<lambda>n. nodeFits n cpus) ns"

definition gang_spec :: "Node list \<Rightarrow> ResourceRequest \<Rightarrow> string list option" where
  "gang_spec ns req =
     (let fit = fitting (CPUsPerNode req) ns; k = NodesRequired req
      in if 1 \<le> k \<and> 1 \<le> CPUsPerNode req \<and> k \<le> int (length fit)
         then Some (map node_ID (take (nat k) fit)) else None)"

lemma nodeFits_free_for: "1 \<le> cpus \<Longrightarrow> nodeFits n cpus \<longleftrightarrow> free_for cpus n"
  by (auto simp: nodeFits_def free_for_def FreeCPUs_def Let_def)

lemma select_loop_spec:
  assumes "int (length ids) < NodesRequired req"
  shows "select_loop req ids ns =
     (let fit = fitting (CPUsPerNode req) ns; k = nat (NodesRequired req) - length ids
      in if k \<le> length fit then Some (ids @ map node_ID (take k fit)) else None)"
  using assms
proof (induction ns arbitrary: ids)
  case Nil
  then show ?case by (simp add: fitting_def Let_def)
next
  case (Cons n ns)
  show ?case
  proof (cases "nodeFits n (CPUsPerNode req)")
    case False
    with Cons show ?thesis by (simp add: fitting_def)
  next
    case fits: True
    show ?thesis
    proof (cases "int (length (ids @ [node_ID n])) = NodesRequired req")
      case True
      then have "nat (NodesRequired req) - length ids = 1" by simp
      with fits True show ?thesis by (simp add: fitting_def)
    next
      case False
      with Cons.prems have less: "int (length (ids @ [node_ID n])) < NodesRequired req" by simp
      then have "nat (NodesRequired req) - length ids = Suc (nat (NodesRequired req) - length (ids @ [node_ID n]))"
        by simp
      with Cons.IH [OF less] fits False show ?thesis by (simp add: fitting_def Let_def)
    qed
  qed
qed

lemma SelectGang_spec: "SelectGang ns req = gang_spec ns req"
proof (cases "NodesRequired req < 1 \<or> CPUsPerNode req < 1")
  case True
  then show ?thesis by (auto simp: SelectGang_def gang_spec_def Let_def)
next
  case False
  then have "select_loop req [] ns = gang_spec ns req"
    by (subst select_loop_spec) (auto simp: gang_spec_def Let_def nat_le_iff)
  with False show ?thesis by (simp add: SelectGang_def)
qed

text \<open>What a selected gang is: as many distinct fitting nodes as required, in list order.\<close>

lemma SelectGang_Some:
  assumes "SelectGang ns req = Some ids"
  shows "int (length ids) = NodesRequired req" "1 \<le> NodesRequired req" "1 \<le> CPUsPerNode req"
    and "\<exists>gang. ids = map node_ID gang \<and> set gang \<subseteq> set ns \<and> (\<forall>n \<in> set gang. free_for (CPUsPerNode req) n) \<and>
                (distinct (map node_ID ns) \<longrightarrow> distinct ids)"
proof -
  let ?fit = "fitting (CPUsPerNode req) ns" and ?k = "nat (NodesRequired req)"
  from assms have ids: "ids = map node_ID (take ?k ?fit)" and len: "NodesRequired req \<le> int (length ?fit)"
    and ge: "1 \<le> NodesRequired req" "1 \<le> CPUsPerNode req"
    by (auto simp: SelectGang_spec gang_spec_def Let_def split: if_splits)
  then show "int (length ids) = NodesRequired req" "1 \<le> NodesRequired req" "1 \<le> CPUsPerNode req"
    by simp_all
  have "set (take ?k ?fit) \<subseteq> {n \<in> set ns. free_for (CPUsPerNode req) n}"
    using set_take_subset [of ?k ?fit] ge(2) by (auto simp: fitting_def nodeFits_free_for)
  moreover have "distinct (map node_ID (take ?k ?fit))" if "distinct (map node_ID ns)"
    using that by (simp add: fitting_def distinct_map_filter take_map [symmetric])
  ultimately show "\<exists>gang. ids = map node_ID gang \<and> set gang \<subseteq> set ns \<and>
      (\<forall>n \<in> set gang. free_for (CPUsPerNode req) n) \<and> (distinct (map node_ID ns) \<longrightarrow> distinct ids)"
    using ids by (intro exI [of _ "take ?k ?fit"]) auto
qed

section \<open>What the scheduler needs of a pool of nodes\<close>

text \<open>
  The scheduler picks a gang from a snapshot and then asks the registry for it.  The laws: the
  snapshot names each node once; nodes of it that are free can be reserved together; and releasing
  what a successful reservation took restores the pool.
\<close>

locale gang_pool =
  fixes snapshot :: "'r \<Rightarrow> Node list"
    and reserve :: "string \<Rightarrow> string list \<Rightarrow> int \<Rightarrow> 'r \<Rightarrow> go_error option \<times> 'r"
    and release :: "string list \<Rightarrow> int \<Rightarrow> 'r \<Rightarrow> 'r"
    and usable :: "'r \<Rightarrow> bool"
  assumes snapshot_distinct: "usable r \<Longrightarrow> distinct (map node_ID (snapshot r))"
    and reserve_free:
      "usable r \<Longrightarrow> jobID \<noteq> [] \<Longrightarrow> 1 \<le> cpus \<Longrightarrow> gang \<noteq> [] \<Longrightarrow> set gang \<subseteq> set (snapshot r) \<Longrightarrow>
       \<forall>n \<in> set gang. free_for cpus n \<Longrightarrow> fst (reserve jobID (map node_ID gang) cpus r) = None"
    and reserve_refused: "fst (reserve jobID ids cpus r) \<noteq> None \<Longrightarrow> snd (reserve jobID ids cpus r) = r"
    and undo:
      "usable r \<Longrightarrow> distinct ids \<Longrightarrow> fst (reserve jobID ids cpus r) = None \<Longrightarrow>
       release ids cpus (snd (reserve jobID ids cpus r)) = r"
begin

lemma selected_distinct: "usable r \<Longrightarrow> SelectGang (snapshot r) req = Some ids \<Longrightarrow> distinct ids"
  using SelectGang_Some(4) snapshot_distinct by blast

lemma selected_reservable:
  assumes "usable r" "SelectGang (snapshot r) req = Some ids" "jobID \<noteq> []"
  shows "fst (reserve jobID ids (CPUsPerNode req) r) = None"
proof -
  note sel = SelectGang_Some [OF assms(2)]
  from sel(4) obtain gang where gang: "ids = map node_ID gang" "set gang \<subseteq> set (snapshot r)"
      "\<forall>n \<in> set gang. free_for (CPUsPerNode req) n" by blast
  from sel(1,2) gang(1) have "gang \<noteq> []" by auto
  with reserve_free [OF assms(1,3) sel(3) _ gang(2,3)] gang(1) show ?thesis by simp
qed

lemma selected_undo:
  assumes "usable r" "SelectGang (snapshot r) req = Some ids" "jobID \<noteq> []"
  shows "release ids (CPUsPerNode req) (snd (reserve jobID ids (CPUsPerNode req) r)) = r"
  using undo [OF assms(1) selected_distinct [OF assms(1,2)] selected_reservable [OF assms]] .

end

definition reg_usable :: "Registry \<Rightarrow> bool" where
  "reg_usable r \<longleftrightarrow> reg_inv r \<and> reg_cpus r"

interpretation pool: gang_pool ListNodes ReserveNodes ReleaseNodes reg_usable
proof
  show "distinct (map node_ID (ListNodes r))" if "reg_usable r" for r
    using that distinct_ListNodes by (simp add: reg_usable_def)
next
  fix r and jobID :: string and cpus gang
  assume "reg_usable r" "jobID \<noteq> []" "1 \<le> cpus" "gang \<noteq> []" "set gang \<subseteq> set (ListNodes r)"
    and "\<forall>n \<in> set gang. free_for cpus n"
  then show "fst (ReserveNodes jobID (map node_ID gang) cpus r) = None"
    by (auto simp: ReserveNodes_None_iff reg_usable_def subset_iff set_ListNodes)
next
  show "snd (ReserveNodes jobID ids cpus r) = r" if "fst (ReserveNodes jobID ids cpus r) \<noteq> None" for jobID ids cpus r
    using that by (rule ReserveNodes_error)
next
  show "ReleaseNodes ids cpus (snd (ReserveNodes jobID ids cpus r)) = r"
    if "reg_usable r" "distinct ids" "fst (ReserveNodes jobID ids cpus r) = None" for r ids jobID cpus
    using that by (intro Release_after_Reserve) (simp_all add: reg_usable_def)
qed

section \<open>Properties\<close>

text \<open>C40.  Gang selection agrees with its reference: the IDs of the first \<open>NodesRequired\<close> fitting
  nodes when there are that many and the request is at least one node and one CPU, and nothing
  otherwise; it is never a part of a gang.\<close>

theorem select_gang_is_first_fit:
  "SelectGang ns req =
     (if 1 \<le> NodesRequired req \<and> 1 \<le> CPUsPerNode req \<and>
         NodesRequired req \<le> int (length (filter (\<lambda>n. nodeFits n (CPUsPerNode req)) ns))
      then Some (map node_ID (take (nat (NodesRequired req)) (filter (\<lambda>n. nodeFits n (CPUsPerNode req)) ns)))
      else None)"
  by (simp add: SelectGang_spec gang_spec_def fitting_def Let_def)

text \<open>For a request of at least one node, \<open>CanSatisfy\<close> says whether a gang can be selected; for a
  request of no nodes it holds although none can.\<close>

theorem can_satisfy_iff:
  "CanSatisfy ns req \<longleftrightarrow> (\<exists>ids. SelectGang ns req = Some ids) \<or> NodesRequired req = 0"
  using SelectGang_Some(1) [of ns req]
  by (auto simp: CanSatisfy_def SelectGang_def split: option.split)

text \<open>A gang selected from the registry's own list can always be reserved for a named job, and
  releasing it restores the registry.\<close>

theorem selected_gang_can_be_reserved:
  assumes "reg_inv r" "reg_cpus r" "SelectGang (ListNodes r) req = Some ids" "jobID \<noteq> []"
  shows "fst (ReserveNodes jobID ids (CPUsPerNode req) r) = None \<and>
     ReleaseNodes ids (CPUsPerNode req) (snd (ReserveNodes jobID ids (CPUsPerNode req) r)) = r"
  using pool.selected_reservable [OF _ assms(3,4)] pool.selected_undo [OF _ assms(3,4)] assms(1,2)
  by (simp add: reg_usable_def)

lemma sample_list: "ListNodes sample_registry = [sample_node ''n1'' 2, sample_node ''n2'' 4]"
  by (simp add: ListNodes_def list_nodes_in_def sample_registry_nodes sample_node_def)

lemma sample_select:
  "SelectGang (ListNodes sample_registry) \<lparr>NodesRequired = 2, CPUsPerNode = 1, MaxDuration = 0\<rparr> = Some [''n1'', ''n2'']"
  by (simp add: sample_list SelectGang_def nodeFits_def FreeCPUs_def sample_node_def in_int64_def)

theorem selected_gang_can_be_reserved_witness:
  "fst (ReserveNodes ''j'' [''n1'', ''n2''] 1 sample_registry) = None"
  using selected_gang_can_be_reserved [OF sample_registry_ok sample_select, of "''j''"] by simp

end
