(* ===== verification/JobManager.thy ===== *)
theory JobManager
  imports Job Component
begin

text \<open>
  The job manager of \<open>src/internal/job/manager.go\<close>.  Its state is the \<open>JobManager\<close> struct without
  the mutex; every method is one atomic operation on it, and returns what the Go method returns
  together with the state it leaves.  The jobs map holds pointers that only the manager follows
  (\<open>Get\<close>, \<open>List\<close> and \<open>PeekPendingJob\<close> hand out clones), so it is a map to job values.
\<close>

section \<open>State\<close>

record nodeReport =
  nr_failed :: bool
  nr_exitCode :: int
  nr_errMsg :: string

record JobManager =
  pending :: "string list"
  jobs :: "(string, Job) fmap"
  reports :: "(string, (string, nodeReport) fmap) fmap"

definition Make_JobManager :: JobManager where
  "Make_JobManager = \<lparr>pending = [], jobs = fmempty, reports = fmempty\<rparr>"

section \<open>Helpers\<close>

definition cloneJob :: "Job \<Rightarrow> Job" where
  "cloneJob j =
     j\<lparr>job_Spec := (job_Spec j)\<lparr>Args := [] @ Args (job_Spec j),
                                Env := go_copy (go_keys (Env (job_Spec j))) (Env (job_Spec j))\<rparr>,
       AssignedNodeIDs := [] @ AssignedNodeIDs j\<rparr>"

fun node_in :: "string list \<Rightarrow> string \<Rightarrow> bool" where
  "node_in [] nodeID = False"
| "node_in (x # xs) nodeID = (if x = nodeID then True else node_in xs nodeID)"

definition assignedNode :: "Job \<Rightarrow> string \<Rightarrow> bool" where
  "assignedNode j nodeID = node_in (AssignedNodeIDs j) nodeID"

definition peekPendingID :: "JobManager \<Rightarrow> string option" where
  "peekPendingID m = (case pending m of [] \<Rightarrow> None | x # _ \<Rightarrow> Some x)"

text \<open>The loop of \<open>removePending\<close>: at the first index that holds the ID it splices and returns.\<close>

fun removePending_loop :: "string \<Rightarrow> string list \<Rightarrow> nat \<Rightarrow> string list \<Rightarrow> string list" where
  "removePending_loop jobID ps i [] = ps"
| "removePending_loop jobID ps i (x # xs) =
     (if x = jobID then take i ps @ drop (i + 1) ps else removePending_loop jobID ps (i + 1) xs)"

definition removePending :: "string \<Rightarrow> JobManager \<Rightarrow> JobManager" where
  "removePending jobID m = m\<lparr>pending := removePending_loop jobID (pending m) 0 (pending m)\<rparr>"

section \<open>Operations\<close>

text \<open>A nil job is \<open>None\<close>.\<close>

definition Submit :: "Job option \<Rightarrow> JobManager \<Rightarrow> go_error option \<times> JobManager" where
  "Submit job m = (case job of
     None \<Rightarrow> (Some (Errorf ''job must be non-nil''), m)
   | Some j \<Rightarrow>
       if job_Status j \<noteq> StatusPending
       then (Some (Errorf (''submitted job must be pending, got '' @ status_text (job_Status j))), m)
       else if fmlookup (jobs m) (job_ID j) \<noteq> None then (Some ErrJobExists, m)
       else (None, m\<lparr>jobs := fmupd (job_ID j) j (jobs m), pending := pending m @ [job_ID j]\<rparr>))"

definition JM_Get :: "string \<Rightarrow> JobManager \<Rightarrow> go_error + Job" where
  "JM_Get jid m = (case fmlookup (jobs m) jid of
     None \<Rightarrow> Inl ErrJobNotFound
   | Some j \<Rightarrow> Inr (cloneJob j))"

text \<open>\<open>ks\<close> is the order in which \<open>range m.jobs\<close> visits the keys.\<close>

definition JM_List :: "string list \<Rightarrow> Status list \<Rightarrow> JobManager \<Rightarrow> Job list" where
  "JM_List ks statuses m =
     map cloneJob (filter (\<lambda>j. statuses = [] \<or> job_Status j \<in> set statuses) (go_values ks (jobs m)))"

definition PeekPending :: "JobManager \<Rightarrow> string option" where
  "PeekPending m = peekPendingID m"

definition PeekPendingJob :: "JobManager \<Rightarrow> Job option" where
  "PeekPendingJob m = (case peekPendingID m of
     None \<Rightarrow> None
   | Some jid \<Rightarrow> (case fmlookup (jobs m) jid of None \<Rightarrow> None | Some j \<Rightarrow> Some (cloneJob j)))"

definition JM_MarkRunning ::
  "instant \<Rightarrow> string \<Rightarrow> string list \<Rightarrow> JobManager \<Rightarrow> go_error option \<times> JobManager" where
  "JM_MarkRunning now jid nodeIDs m = (case fmlookup (jobs m) jid of
     None \<Rightarrow> (Some ErrJobNotFound, m)
   | Some j \<Rightarrow> (case Job_MarkRunning now nodeIDs j of
       Inl err \<Rightarrow> (Some err, m)
     | Inr j' \<Rightarrow>
         let m1 = removePending jid (m\<lparr>jobs := fmupd jid j' (jobs m)\<rparr>)
         in (None, m1\<lparr>reports := fmupd jid fmempty (reports m1)\<rparr>)))"

definition JM_MarkCompleted ::
  "instant \<Rightarrow> string \<Rightarrow> int \<Rightarrow> JobManager \<Rightarrow> go_error option \<times> JobManager" where
  "JM_MarkCompleted now jid exitCode m = (case fmlookup (jobs m) jid of
     None \<Rightarrow> (Some ErrJobNotFound, m)
   | Some j \<Rightarrow> (case Job_MarkCompleted now exitCode j of
       Inl err \<Rightarrow> (Some err, m)
     | Inr j' \<Rightarrow> (None, m\<lparr>jobs := fmupd jid j' (jobs m), reports := fmdrop jid (reports m)\<rparr>)))"

definition JM_MarkFailed ::
  "instant \<Rightarrow> string \<Rightarrow> int \<Rightarrow> string \<Rightarrow> JobManager \<Rightarrow> go_error option \<times> JobManager" where
  "JM_MarkFailed now jid exitCode errMsg m = (case fmlookup (jobs m) jid of
     None \<Rightarrow> (Some ErrJobNotFound, m)
   | Some j \<Rightarrow> (case Job_MarkFailed now exitCode errMsg j of
       Inl err \<Rightarrow> (Some err, m)
     | Inr j' \<Rightarrow> (None, m\<lparr>jobs := fmupd jid j' (jobs m), reports := fmdrop jid (reports m)\<rparr>)))"

text \<open>The result is \<open>None\<close> where the Go method returns \<open>nil, 0, false\<close>.\<close>

definition FailRunningJob ::
  "instant \<Rightarrow> string \<Rightarrow> string \<Rightarrow> JobManager \<Rightarrow> (string list \<times> int) option \<times> JobManager" where
  "FailRunningJob now jid reason m = (case fmlookup (jobs m) jid of
     None \<Rightarrow> (None, m)
   | Some j \<Rightarrow>
       if job_Status j \<noteq> StatusRunning then (None, m)
       else (case Job_MarkFailed now 1 reason j of
         Inl err \<Rightarrow> (None, m)
       | Inr j' \<Rightarrow>
           (Some (AssignedNodeIDs j', CPUsPerNode (Resources (job_Spec j'))),
            m\<lparr>jobs := fmupd jid j' (jobs m), reports := fmdrop jid (reports m)\<rparr>)))"

definition JM_Cancel :: "instant \<Rightarrow> string \<Rightarrow> JobManager \<Rightarrow> (go_error + bool) \<times> JobManager" where
  "JM_Cancel now jid m = (case fmlookup (jobs m) jid of
     None \<Rightarrow> (Inl ErrJobNotFound, m)
   | Some j \<Rightarrow> (case job_Status j of
       StatusPending \<Rightarrow>
         let m1 = removePending jid m
         in (case Job_MarkCancelled now j of
               Inl err \<Rightarrow> (Inl err, m1)
             | Inr j' \<Rightarrow> (Inr False, m1\<lparr>jobs := fmupd jid j' (jobs m1)\<rparr>))
     | StatusRunning \<Rightarrow>
         (case Job_MarkCancelled now j of
            Inl err \<Rightarrow> (Inl err, m)
          | Inr j' \<Rightarrow> (Inr True, m\<lparr>jobs := fmupd jid j' (jobs m), reports := fmdrop jid (reports m)\<rparr>))
     | _ \<Rightarrow> (Inl (Errorf (''cannot cancel job '' @ jid @ '' in status '' @ status_text (job_Status j))), m)))"

text \<open>The loop over the reports that finds the greatest exit code, starting from 0.\<close>

definition max_exit :: "string list \<Rightarrow> (string, nodeReport) fmap \<Rightarrow> int" where
  "max_exit ks rs = fold (\<lambda>r acc. if nr_exitCode r > acc then nr_exitCode r else acc) (go_values ks rs) 0"

definition ReportNodeEvent ::
  "instant \<Rightarrow> string \<Rightarrow> string \<Rightarrow> bool \<Rightarrow> int \<Rightarrow> string \<Rightarrow> JobManager \<Rightarrow> go_error option \<times> JobManager" where
  "ReportNodeEvent now jobID nodeID failed exitCode errMsg m = (case fmlookup (jobs m) jobID of
     None \<Rightarrow> (Some ErrJobNotFound, m)
   | Some j \<Rightarrow>
       if job_Status j \<noteq> StatusRunning then (None, m)
       else if \<not> assignedNode j nodeID
       then (Some (Errorf (''node '' @ nodeID @ '' is not assigned to job '' @ jobID)), m)
       else
         let rs = (case fmlookup (reports m) jobID of None \<Rightarrow> fmempty | Some r \<Rightarrow> r)
         in if fmlookup rs nodeID \<noteq> None then (None, m)
            else
              let rs' = fmupd nodeID \<lparr>nr_failed = failed, nr_exitCode = exitCode, nr_errMsg = errMsg\<rparr> rs;
                  m1 = m\<lparr>reports := fmupd jobID rs' (reports m)\<rparr>
              in if failed
                 then (case Job_MarkFailed now exitCode errMsg j of
                     Inl err \<Rightarrow> (Some err, m1)
                   | Inr j' \<Rightarrow> (None, m1\<lparr>jobs := fmupd jobID j' (jobs m1), reports := fmdrop jobID (reports m1)\<rparr>))
                 else if go_len rs' < length (AssignedNodeIDs j) then (None, m1)
                 else (case Job_MarkCompleted now (max_exit (go_keys rs') rs') j of
                     Inl err \<Rightarrow> (Some err, m1)
                   | Inr j' \<Rightarrow> (None, m1\<lparr>jobs := fmupd jobID j' (jobs m1), reports := fmdrop jobID (reports m1)\<rparr>)))"

section \<open>Facts about the helpers\<close>

lemma cloneJob_id [simp]: "cloneJob j = j"
  by (simp add: cloneJob_def go_copy_eq)

lemma node_in_iff [simp]: "node_in xs n \<longleftrightarrow> n \<in> set xs"
  by (induction xs) auto

lemma assignedNode_iff [simp]: "assignedNode j n \<longleftrightarrow> n \<in> set (AssignedNodeIDs j)"
  by (simp add: assignedNode_def)

lemma removePending_loop_append:
  "removePending_loop jobID (ps @ xs) (length ps) xs = ps @ remove1 jobID xs"
proof (induction xs arbitrary: ps)
  case (Cons x xs)
  then show ?case using Cons.IH [of "ps @ [x]"] by simp
qed simp

lemma removePending_eq [simp]: "removePending jobID m = m\<lparr>pending := remove1 jobID (pending m)\<rparr>"
  using removePending_loop_append [of jobID "[]" "pending m"] by (simp add: removePending_def)

lemma fold_max_exit:
  "fold (\<lambda>r acc. if nr_exitCode r > acc then nr_exitCode r else acc) rs a =
     Max (insert a (nr_exitCode ` set rs))"
proof (induction rs arbitrary: a)
  case (Cons r rs)
  have "Max (insert (max a (nr_exitCode r)) (nr_exitCode ` set rs)) =
        Max (insert a (insert (nr_exitCode r) (nr_exitCode ` set rs)))"
    by (simp add: Max_insert2 max.assoc [symmetric] max.commute Max.insert_not_elem
        del: Max_insert) (cases "rs = []"; simp add: max.assoc)
  with Cons show ?case by (simp add: max_def split: if_splits)
qed simp

text \<open>The exit code does not depend on the order in which the map is visited.\<close>

lemma max_exit_order: "go_range ks rs \<Longrightarrow> max_exit ks rs = max_exit (go_keys rs) rs"
proof -
  assume ks: "go_range ks rs"
  then have "set (go_values ks rs) = set (go_values (go_keys rs) rs)"
    by (auto simp: go_values_mem [OF ks] go_values_mem [OF go_range_keys])
  then show ?thesis by (simp add: max_exit_def fold_max_exit)
qed


text \<open>
  The operations case by case: the error branches of the inner transitions cannot be taken, since
  each is guarded by the status the transition needs.
\<close>

lemma JM_Cancel_eq:
  "JM_Cancel now jid m = (case fmlookup (jobs m) jid of
     None \<Rightarrow> (Inl ErrJobNotFound, m)
   | Some j \<Rightarrow>
       let j' = j\<lparr>job_Status := StatusCancelled, FinishedAt := now\<rparr>
       in if job_Status j = StatusPending
          then (Inr False, m\<lparr>pending := remove1 jid (pending m), jobs := fmupd jid j' (jobs m)\<rparr>)
          else if job_Status j = StatusRunning
          then (Inr True, m\<lparr>jobs := fmupd jid j' (jobs m), reports := fmdrop jid (reports m)\<rparr>)
          else (Inl (Errorf (''cannot cancel job '' @ jid @ '' in status '' @ status_text (job_Status j))), m))"
  by (auto simp: JM_Cancel_def Job_MarkCancelled_active Let_def split: option.split Status.split)

lemma FailRunningJob_eq:
  "FailRunningJob now jid reason m = (case fmlookup (jobs m) jid of
     None \<Rightarrow> (None, m)
   | Some j \<Rightarrow>
       if job_Status j = StatusRunning
       then (Some (AssignedNodeIDs j, CPUsPerNode (Resources (job_Spec j))),
             m\<lparr>jobs := fmupd jid (j\<lparr>job_Status := StatusFailed, FinishedAt := now, ExitCode := 1,
                                        ErrorMessage := reason\<rparr>) (jobs m),
               reports := fmdrop jid (reports m)\<rparr>)
       else (None, m))"
  by (auto simp: FailRunningJob_def Job_MarkFailed_running split: option.split)

lemma fmdrop_fmupd_same [simp]: "fmdrop k (fmupd k v m) = fmdrop k m"
  by (rule fmap_ext) simp

definition reports_of :: "JobManager \<Rightarrow> string \<Rightarrow> (string, nodeReport) fmap" where
  "reports_of m jid = (case fmlookup (reports m) jid of None \<Rightarrow> fmempty | Some rs \<Rightarrow> rs)"

lemma ReportNodeEvent_eq:
  "ReportNodeEvent now jid n failed c msg m = (case fmlookup (jobs m) jid of
     None \<Rightarrow> (Some ErrJobNotFound, m)
   | Some j \<Rightarrow>
       let rs' = fmupd n \<lparr>nr_failed = failed, nr_exitCode = c, nr_errMsg = msg\<rparr> (reports_of m jid)
       in if job_Status j \<noteq> StatusRunning then (None, m)
          else if n \<notin> set (AssignedNodeIDs j)
          then (Some (Errorf (''node '' @ n @ '' is not assigned to job '' @ jid)), m)
          else if fmlookup (reports_of m jid) n \<noteq> None then (None, m)
          else if failed
          then (None, m\<lparr>jobs := fmupd jid (j\<lparr>job_Status := StatusFailed, FinishedAt := now,
                             ExitCode := c, ErrorMessage := msg\<rparr>) (jobs m),
                       reports := fmdrop jid (reports m)\<rparr>)
          else if go_len rs' < length (AssignedNodeIDs j)
          then (None, m\<lparr>reports := fmupd jid rs' (reports m)\<rparr>)
          else (None, m\<lparr>jobs := fmupd jid (j\<lparr>job_Status := StatusCompleted, FinishedAt := now,
                             ExitCode := max_exit (go_keys rs') rs'\<rparr>) (jobs m),
                       reports := fmdrop jid (reports m)\<rparr>))"
  by (auto simp: ReportNodeEvent_def reports_of_def Job_MarkFailed_running Job_MarkCompleted_running
      Let_def split: option.split)

section \<open>The invariant\<close>

text \<open>
  The jobs map is keyed by job ID; the pending queue holds exactly the pending jobs, once each; a
  report map exists exactly for the running jobs, holds successes of assigned nodes only, and is
  never complete (a complete one has ended the job).
\<close>

definition reports_ok :: "Job \<Rightarrow> (string, nodeReport) fmap \<Rightarrow> bool" where
  "reports_ok j rs \<longleftrightarrow>
     fmdom' rs \<subseteq> set (AssignedNodeIDs j) \<and>
     (\<forall>n r. fmlookup rs n = Some r \<longrightarrow> \<not> nr_failed r) \<and>
     (rs = fmempty \<or> go_len rs < length (AssignedNodeIDs j))"

definition is_job :: "JobManager \<Rightarrow> string \<Rightarrow> Status \<Rightarrow> bool" where
  "is_job m jid st \<longleftrightarrow> (\<exists>j. fmlookup (jobs m) jid = Some j \<and> job_Status j = st)"

definition jm_inv :: "JobManager \<Rightarrow> bool" where
  "jm_inv m \<longleftrightarrow>
     (\<forall>jid j. fmlookup (jobs m) jid = Some j \<longrightarrow> job_ID j = jid \<and> Valid (job_Status j)) \<and>
     distinct (pending m) \<and>
     (\<forall>jid. jid \<in> set (pending m) \<longleftrightarrow> is_job m jid StatusPending) \<and>
     (\<forall>jid. fmlookup (reports m) jid \<noteq> None \<longleftrightarrow> is_job m jid StatusRunning) \<and>
     (\<forall>jid rs j. fmlookup (reports m) jid = Some rs \<longrightarrow> fmlookup (jobs m) jid = Some j \<longrightarrow> reports_ok j rs)"

lemma jm_inv_job: "jm_inv m \<Longrightarrow> fmlookup (jobs m) jid = Some j \<Longrightarrow> job_ID j = jid"
  by (simp add: jm_inv_def)

lemma jm_inv_pending: "jm_inv m \<Longrightarrow> jid \<in> set (pending m) \<longleftrightarrow> is_job m jid StatusPending"
  by (simp add: jm_inv_def)

lemma jm_inv_reports: "jm_inv m \<Longrightarrow> fmlookup (reports m) jid \<noteq> None \<longleftrightarrow> is_job m jid StatusRunning"
  by (simp add: jm_inv_def)

text \<open>
  Two shapes of change keep the invariant: a job joins the map and the queue, or one job moves
  along its state machine, leaving the queue and the reports in step.
\<close>

lemma jm_inv_add:
  assumes "jm_inv m" "fmlookup (jobs m) (job_ID j) = None" "job_Status j = StatusPending"
  shows "jm_inv (m\<lparr>jobs := fmupd (job_ID j) j (jobs m), pending := pending m @ [job_ID j]\<rparr>)"
  using assms unfolding jm_inv_def is_job_def
  by (simp add: Valid_def) (metis Status.distinct(1) option.distinct(1))

lemma jm_inv_start:
  assumes "jm_inv m" "fmlookup (jobs m) jid = Some j" "job_ID j' = job_ID j"
    and "job_Status j' = StatusRunning"
  shows "jm_inv (m\<lparr>jobs := fmupd jid j' (jobs m), pending := remove1 jid (pending m),
                   reports := fmupd jid fmempty (reports m)\<rparr>)"
  using assms unfolding jm_inv_def is_job_def
  by (auto simp: Valid_def reports_ok_def)

lemma jm_inv_end:
  assumes "jm_inv m" "fmlookup (jobs m) jid = Some j" "job_ID j' = job_ID j" "Terminal (job_Status j')"
  shows "jm_inv (m\<lparr>jobs := fmupd jid j' (jobs m), pending := remove1 jid (pending m),
                   reports := fmdrop jid (reports m)\<rparr>)"
  using assms unfolding jm_inv_def is_job_def
  by (auto simp: Terminal_Valid)

lemma jm_inv_report:
  assumes "jm_inv m" "fmlookup (jobs m) jid = Some j" "job_Status j = StatusRunning" "reports_ok j rs"
  shows "jm_inv (m\<lparr>reports := fmupd jid rs (reports m)\<rparr>)"
  using assms unfolding jm_inv_def is_job_def by auto

lemma not_pending_remove1:
  "jm_inv m \<Longrightarrow> fmlookup (jobs m) jid = Some j \<Longrightarrow> job_Status j \<noteq> StatusPending \<Longrightarrow>
   remove1 jid (pending m) = pending m"
  by (intro remove1_idem) (auto simp: jm_inv_pending is_job_def)

lemma not_running_fmdrop:
  "jm_inv m \<Longrightarrow> fmlookup (jobs m) jid = Some j \<Longrightarrow> job_Status j \<noteq> StatusRunning \<Longrightarrow>
   fmdrop jid (reports m) = reports m"
  using jm_inv_reports [of m jid] by (intro fmap_ext) (auto simp: is_job_def)

lemma jm_inv_end_running:
  assumes "jm_inv m" "fmlookup (jobs m) jid = Some j" "job_Status j = StatusRunning"
    and "job_ID j' = job_ID j" "Terminal (job_Status j')"
  shows "jm_inv (m\<lparr>jobs := fmupd jid j' (jobs m), reports := fmdrop jid (reports m)\<rparr>)"
  using jm_inv_end [OF assms(1,2,4,5)] not_pending_remove1 [OF assms(1,2)] assms(3)
  by simp

lemma jm_inv_end_pending:
  assumes "jm_inv m" "fmlookup (jobs m) jid = Some j" "job_Status j = StatusPending"
    and "job_ID j' = job_ID j" "Terminal (job_Status j')"
  shows "jm_inv (m\<lparr>pending := remove1 jid (pending m), jobs := fmupd jid j' (jobs m)\<rparr>)"
proof -
  have "m\<lparr>jobs := fmupd jid j' (jobs m), pending := remove1 jid (pending m),
          reports := fmdrop jid (reports m)\<rparr> =
        m\<lparr>pending := remove1 jid (pending m), jobs := fmupd jid j' (jobs m)\<rparr>"
    using not_running_fmdrop [OF assms(1,2)] assms(3) by (intro JobManager.equality) simp_all
  with jm_inv_end [OF assms(1,2,4,5)] show ?thesis by simp
qed

subsection \<open>Every operation keeps it\<close>

lemma jm_inv_Make [inv_intros]: "jm_inv Make_JobManager"
  by (simp add: jm_inv_def Make_JobManager_def is_job_def)

lemma jm_inv_Submit [inv_intros]: "jm_inv m \<Longrightarrow> jm_inv (snd (Submit job m))"
  by (auto simp: Submit_def intro: jm_inv_add split: option.split)

lemma jm_inv_MarkRunning [inv_intros]: "jm_inv m \<Longrightarrow> jm_inv (snd (JM_MarkRunning now jid ids m))"
  by (auto simp: JM_MarkRunning_def Let_def dest!: Job_MarkRunning_InrD intro!: jm_inv_start
      split: option.split sum.split)

lemma jm_inv_MarkCompleted [inv_intros]: "jm_inv m \<Longrightarrow> jm_inv (snd (JM_MarkCompleted now jid c m))"
  by (auto simp: JM_MarkCompleted_def dest!: Job_MarkCompleted_InrD intro!: jm_inv_end_running
      split: option.split sum.split)

lemma jm_inv_MarkFailed [inv_intros]: "jm_inv m \<Longrightarrow> jm_inv (snd (JM_MarkFailed now jid c msg m))"
  by (auto simp: JM_MarkFailed_def dest!: Job_MarkFailed_InrD intro!: jm_inv_end_running
      split: option.split sum.split)

lemma jm_inv_FailRunningJob [inv_intros]: "jm_inv m \<Longrightarrow> jm_inv (snd (FailRunningJob now jid reason m))"
  by (auto simp: FailRunningJob_eq intro!: jm_inv_end_running split: option.split)

lemma jm_inv_Cancel [inv_intros]: "jm_inv m \<Longrightarrow> jm_inv (snd (JM_Cancel now jid m))"
  by (auto simp: JM_Cancel_eq Let_def intro!: jm_inv_end_running jm_inv_end_pending split: option.split)

lemma reports_ok_of:
  "jm_inv m \<Longrightarrow> fmlookup (jobs m) jid = Some j \<Longrightarrow> reports_ok j (reports_of m jid)"
  by (auto simp: jm_inv_def reports_of_def reports_ok_def split: option.split)

lemma reports_ok_upd:
  "reports_ok j rs \<Longrightarrow> n \<in> set (AssignedNodeIDs j) \<Longrightarrow> \<not> nr_failed r \<Longrightarrow>
   go_len (fmupd n r rs) < length (AssignedNodeIDs j) \<Longrightarrow> reports_ok j (fmupd n r rs)"
  by (auto simp: reports_ok_def fmdom'_alt_def split: if_splits)

lemma jm_inv_ReportNodeEvent [inv_intros]:
  assumes "jm_inv m"
  shows "jm_inv (snd (ReportNodeEvent now jid n failed c msg m))"
proof (cases "fmlookup (jobs m) jid")
  case None
  with assms show ?thesis by (simp add: ReportNodeEvent_eq)
next
  case (Some j)
  note ok = reports_ok_of [OF assms Some]
  show ?thesis
    using assms Some
    by (auto simp: ReportNodeEvent_eq Let_def intro!: jm_inv_end_running jm_inv_report
        reports_ok_upd [OF ok] simp del: go_len_fmupd)
qed

section \<open>Runs of the manager\<close>

text \<open>Every call that may change the manager, with its arguments.\<close>

datatype jm_op =
    OpSubmit "Job option"
  | OpMarkRunning instant string "string list"
  | OpMarkCompleted instant string int
  | OpMarkFailed instant string int string
  | OpFailRunning instant string string
  | OpCancel instant string
  | OpReport instant string string bool int string

fun jm_apply :: "jm_op \<Rightarrow> JobManager \<Rightarrow> JobManager" where
  "jm_apply (OpSubmit j) m = snd (Submit j m)"
| "jm_apply (OpMarkRunning now jid ids) m = snd (JM_MarkRunning now jid ids m)"
| "jm_apply (OpMarkCompleted now jid c) m = snd (JM_MarkCompleted now jid c m)"
| "jm_apply (OpMarkFailed now jid c msg) m = snd (JM_MarkFailed now jid c msg m)"
| "jm_apply (OpFailRunning now jid reason) m = snd (FailRunningJob now jid reason m)"
| "jm_apply (OpCancel now jid) m = snd (JM_Cancel now jid m)"
| "jm_apply (OpReport now jid n failed c msg) m = snd (ReportNodeEvent now jid n failed c msg m)"

text \<open>
  What an operation does to the jobs and the queue: no job is lost, each job only moves along its
  state machine, and the queue keeps its order, losing entries and gaining new jobs at its end.
\<close>

definition jobs_later :: "JobManager \<Rightarrow> JobManager \<Rightarrow> bool" where
  "jobs_later m m' \<longleftrightarrow>
     (\<forall>jid j. fmlookup (jobs m) jid = Some j \<longrightarrow>
        (\<exists>j'. fmlookup (jobs m') jid = Some j' \<and> job_step\<^sup>*\<^sup>* j j'))"

definition queue_later :: "JobManager \<Rightarrow> JobManager \<Rightarrow> bool" where
  "queue_later m m' \<longleftrightarrow>
     (\<exists>new. pending m' = filter (\<lambda>x. x \<in> set (pending m')) (pending m) @ new \<and>
            (\<forall>x \<in> set new. fmlookup (jobs m) x = None))"

definition jm_later :: "JobManager \<Rightarrow> JobManager \<Rightarrow> bool" where
  "jm_later m m' \<longleftrightarrow> jobs_later m m' \<and> queue_later m m'"

lemma jobs_later_refl: "jobs_later m m"
  by (auto simp: jobs_later_def)

lemma jobs_later_trans: "jobs_later m m' \<Longrightarrow> jobs_later m' m'' \<Longrightarrow> jobs_later m m''"
  unfolding jobs_later_def by (meson rtranclp_trans)

lemma jobs_later_None: "jobs_later m m' \<Longrightarrow> fmlookup (jobs m') x = None \<Longrightarrow> fmlookup (jobs m) x = None"
  unfolding jobs_later_def by (metis not_None_eq option.distinct(1))

lemma jobs_later_upd:
  "fmlookup (jobs m) jid = Some j \<Longrightarrow> job_step j j' \<Longrightarrow> jobs m' = fmupd jid j' (jobs m) \<Longrightarrow> jobs_later m m'"
  by (auto simp: jobs_later_def)

lemma queue_later_refl: "queue_later m m"
  unfolding queue_later_def by (rule exI [of _ "[]"]) simp

lemma queue_later_same: "pending m' = pending m \<Longrightarrow> queue_later m m'"
  unfolding queue_later_def by (rule exI [of _ "[]"]) simp

lemma queue_later_remove1:
  "distinct (pending m) \<Longrightarrow> pending m' = remove1 x (pending m) \<Longrightarrow> queue_later m m'"
  unfolding queue_later_def
  by (rule exI [of _ "[]"]) (simp add: distinct_remove1_removeAll removeAll_filter_not_eq cong: filter_cong)

lemma jm_inv_pending_known: "jm_inv m \<Longrightarrow> x \<in> set (pending m) \<Longrightarrow> fmlookup (jobs m) x \<noteq> None"
  by (auto simp: jm_inv_pending is_job_def)

lemma queue_later_trans:
  assumes "jm_inv m" "jm_later m m'" "queue_later m' m''"
  shows "queue_later m m''"
proof -
  from assms(2) obtain n1 where n1: "pending m' = filter (\<lambda>x. x \<in> set (pending m')) (pending m) @ n1"
      "\<forall>x \<in> set n1. fmlookup (jobs m) x = None" and jl: "jobs_later m m'"
    by (auto simp: jm_later_def queue_later_def)
  from assms(3) obtain n2 where n2: "pending m'' = filter (\<lambda>x. x \<in> set (pending m'')) (pending m') @ n2"
      "\<forall>x \<in> set n2. fmlookup (jobs m') x = None"
    by (auto simp: queue_later_def)
  let ?stay = "\<lambda>x. x \<in> set (pending m'')"
  have stays: "x \<in> set (pending m')" if "x \<in> set (pending m)" and "?stay x" for x
  proof (rule ccontr)
    assume "x \<notin> set (pending m')"
    moreover from that(2) n2(1) have "x \<in> set (filter ?stay (pending m') @ n2)" by simp
    ultimately have "x \<in> set n2" by auto
    with n2(2) have "fmlookup (jobs m) x = None" by (blast intro: jobs_later_None [OF jl])
    with jm_inv_pending_known [OF assms(1) that(1)] show False by simp
  qed
  have "filter ?stay (pending m') = filter ?stay (filter (\<lambda>x. x \<in> set (pending m')) (pending m)) @ filter ?stay n1"
    by (subst n1(1)) simp
  also have "filter ?stay (filter (\<lambda>x. x \<in> set (pending m')) (pending m)) = filter ?stay (pending m)"
    by (auto simp: stays intro!: filter_cong)
  finally have "pending m'' = filter ?stay (pending m) @ filter ?stay n1 @ n2"
    using n2(1) by simp
  moreover have "\<forall>x \<in> set (filter ?stay n1 @ n2). fmlookup (jobs m) x = None"
    using n1(2) n2(2) jobs_later_None [OF jl] by auto
  ultimately show ?thesis unfolding queue_later_def by blast
qed


lemma jm_later_refl: "jm_later m m"
  by (simp add: jm_later_def jobs_later_refl queue_later_refl)

lemma jm_later_trans: "jm_inv m \<Longrightarrow> jm_later m m' \<Longrightarrow> jm_later m' m'' \<Longrightarrow> jm_later m m''"
  by (meson jm_later_def jobs_later_trans queue_later_trans)

text \<open>One job steps, and the queue stays or loses that job.\<close>

lemma jm_later_step:
  assumes "fmlookup (jobs m) jid = Some j" "job_step j j'" "jobs m' = fmupd jid j' (jobs m)"
    and "pending m' = pending m \<or> distinct (pending m) \<and> pending m' = remove1 jid (pending m)"
  shows "jm_later m m'"
  unfolding jm_later_def
  using jobs_later_upd [OF assms(1-3)] assms(4) queue_later_same queue_later_remove1 by blast

lemma jm_inv_distinct: "jm_inv m \<Longrightarrow> distinct (pending m)"
  by (simp add: jm_inv_def)

lemma job_step_fail_running:
  "job_Status j = StatusRunning \<Longrightarrow>
   job_step j (j\<lparr>job_Status := StatusFailed, FinishedAt := now, ExitCode := c, ErrorMessage := msg\<rparr>)"
  by (rule job_step.fail) (rule Job_MarkFailed_running)

lemma job_step_complete_running:
  "job_Status j = StatusRunning \<Longrightarrow>
   job_step j (j\<lparr>job_Status := StatusCompleted, FinishedAt := now, ExitCode := c\<rparr>)"
  by (rule job_step.complete) (rule Job_MarkCompleted_running)

lemma job_step_cancel_active:
  "job_Status j = StatusPending \<or> job_Status j = StatusRunning \<Longrightarrow>
   job_step j (j\<lparr>job_Status := StatusCancelled, FinishedAt := now\<rparr>)"
  by (rule job_step.cancel) (rule Job_MarkCancelled_active)

lemmas job_steps_of = job_step_fail_running job_step_complete_running job_step_cancel_active

lemma jm_later_Submit: "jm_later m (snd (Submit job m))"
proof (cases "snd (Submit job m) = m")
  case True
  then show ?thesis by (simp add: jm_later_refl)
next
  case False
  then obtain j where j: "fmlookup (jobs m) (job_ID j) = None"
      "snd (Submit job m) = m\<lparr>jobs := fmupd (job_ID j) j (jobs m), pending := pending m @ [job_ID j]\<rparr>"
    by (auto simp: Submit_def split: option.splits if_splits)
  let ?m' = "m\<lparr>jobs := fmupd (job_ID j) j (jobs m), pending := pending m @ [job_ID j]\<rparr>"
  have "jobs_later m ?m'" using j(1) by (auto simp: jobs_later_def)
  moreover have "pending ?m' = filter (\<lambda>x. x \<in> set (pending ?m')) (pending m) @ [job_ID j]"
    by (auto simp: filter_id_conv)
  with j(1) have "queue_later m ?m'"
    unfolding queue_later_def by (intro exI [of _ "[job_ID j]"]) simp
  ultimately show ?thesis by (simp add: jm_later_def j(2))
qed

lemma jm_later_MarkRunning: "jm_inv m \<Longrightarrow> jm_later m (snd (JM_MarkRunning now jid ids m))"
  by (auto simp: JM_MarkRunning_def Let_def jm_later_refl jm_inv_distinct
      intro: jm_later_step job_step.run split: option.split sum.split)

lemma jm_later_MarkCompleted: "jm_later m (snd (JM_MarkCompleted now jid c m))"
  by (auto simp: JM_MarkCompleted_def jm_later_refl intro: jm_later_step job_step.complete
      split: option.split sum.split)

lemma jm_later_MarkFailed: "jm_later m (snd (JM_MarkFailed now jid c msg m))"
  by (auto simp: JM_MarkFailed_def jm_later_refl intro: jm_later_step job_step.fail
      split: option.split sum.split)

lemma jm_later_FailRunningJob: "jm_later m (snd (FailRunningJob now jid reason m))"
  by (auto simp: FailRunningJob_eq jm_later_refl intro!: jm_later_step [OF _ job_step_fail_running]
      split: option.split)

lemma jm_later_Cancel: "jm_inv m \<Longrightarrow> jm_later m (snd (JM_Cancel now jid m))"
  by (auto simp: JM_Cancel_eq Let_def jm_later_refl jm_inv_distinct
      intro!: jm_later_step [OF _ job_step_cancel_active] split: option.split)

lemma jm_later_reports: "jm_later m (m\<lparr>reports := rs\<rparr>)"
  by (simp add: jm_later_def jobs_later_def queue_later_same)

lemma jm_later_ReportNodeEvent: "jm_later m (snd (ReportNodeEvent now jid n failed c msg m))"
proof (cases failed)
  case True
  then show ?thesis
    by (auto simp: ReportNodeEvent_eq Let_def jm_later_refl
        intro!: jm_later_step [OF _ job_step_fail_running] split: option.split)
next
  case False
  then show ?thesis
    by (auto simp: ReportNodeEvent_eq Let_def jm_later_refl jm_later_reports
        intro!: jm_later_step [OF _ job_step_complete_running] split: option.split)
qed

interpretation jm: forward_component Make_JobManager jm_apply jm_inv jm_later
proof
  show "jm_inv Make_JobManager" by (rule jm_inv_Make)
next
  show "jm_inv (jm_apply c s)" if "jm_inv s" for s c
    using that by (cases c) (auto intro: inv_intros)
next
  show "jm_later s s" for s by (rule jm_later_refl)
next
  show "jm_later s u" if "jm_inv s" "jm_inv t" "jm_later s t" "jm_later t u" for s t u
    using that by (blast intro: jm_later_trans)
next
  show "jm_later s (jm_apply c s)" if "jm_inv s" for s c
    using that
    by (cases c) (simp_all add: jm_later_Submit jm_later_MarkRunning jm_later_MarkCompleted
        jm_later_MarkFailed jm_later_FailRunningJob jm_later_Cancel jm_later_ReportNodeEvent)
qed

definition submit_accepts :: "Job \<Rightarrow> JobManager \<Rightarrow> bool" where
  "submit_accepts j m \<longleftrightarrow> job_Status j = StatusPending \<and> fmlookup (jobs m) (job_ID j) = None"

interpretation jm_fifo:
  fifo_queue "\<lambda>j m. snd (Submit (Some j) m)" PeekPending job_ID pending submit_accepts
  by unfold_locales
    (auto simp: Submit_def submit_accepts_def PeekPending_def peekPendingID_def split: list.split)

text \<open>A terminal job never changes again.\<close>

lemma job_steps_terminal: "job_step\<^sup>*\<^sup>* j j' \<Longrightarrow> Terminal (job_Status j) \<Longrightarrow> j' = j"
  by (erule converse_rtranclpE) (auto dest: job_step_active)

section \<open>Properties\<close>

abbreviation jm_run :: "jm_op list \<Rightarrow> JobManager" where
  "jm_run cs \<equiv> fold jm_apply cs Make_JobManager"

text \<open>Under every sequence of calls from any callers, the pending queue holds each pending job
  exactly once and nothing else, and report maps exist exactly for the running jobs.\<close>

theorem queue_holds_pending_jobs:
  "distinct (pending (jm_run cs)) \<and>
   set (pending (jm_run cs)) = {jid. is_job (jm_run cs) jid StatusPending} \<and>
   fmdom' (reports (jm_run cs)) = {jid. is_job (jm_run cs) jid StatusRunning}"
  using jm.inv_run [of cs] by (auto simp: jm_inv_def mem_fmdom' simp del: not_None_eq)

text \<open>C28.  Whatever is called later, the queue keeps its order: what remains of it stays as it stood,
  and only jobs the manager had not seen join, behind it.\<close>

theorem queue_is_fifo:
  "\<exists>new. pending (jm_run (cs @ ds)) =
           filter (\<lambda>x. x \<in> set (pending (jm_run (cs @ ds)))) (pending (jm_run cs)) @ new \<and>
         (\<forall>x \<in> set new. fmlookup (jobs (jm_run cs)) x = None)"
  using jm.later_run [of cs ds] by (simp add: jm_later_def queue_later_def)

theorem queue_is_fifo_witness:
  "\<exists>new. pending (jm_run ([OpSubmit (Some (sample_job ''a'' 1))] @ [OpSubmit (Some (sample_job ''b'' 1))])) =
     filter (\<lambda>x. x \<in> set (pending (jm_run ([OpSubmit (Some (sample_job ''a'' 1))] @ [OpSubmit (Some (sample_job ''b'' 1))]))))
       (pending (jm_run [OpSubmit (Some (sample_job ''a'' 1))])) @ new"
  using queue_is_fifo [of "[OpSubmit (Some (sample_job ''a'' 1))]" "[OpSubmit (Some (sample_job ''b'' 1))]"] by blast

text \<open>A job that has completed, failed or been cancelled is never changed again, by any later
  sequence of calls.\<close>

theorem terminal_jobs_are_final:
  assumes "fmlookup (jobs (jm_run cs)) jid = Some j" "Terminal (job_Status j)"
  shows "fmlookup (jobs (jm_run (cs @ ds))) jid = Some j"
proof -
  from jm.later_run [of cs ds] assms(1) obtain j'
    where "fmlookup (jobs (jm_run (cs @ ds))) jid = Some j'" "job_step\<^sup>*\<^sup>* j j'"
    by (auto simp: jm_later_def jobs_later_def)
  with job_steps_terminal [OF _ assms(2)] show ?thesis by blast
qed

theorem terminal_jobs_are_final_witness:
  "fmlookup (jobs (jm_run ([OpSubmit (Some (sample_job ''a'' 1)), OpCancel 7 ''a''] @ [OpReport 9 ''a'' ''n'' True 1 ''x''])))
     ''a'' = Some ((sample_job ''a'' 1)\<lparr>job_Status := StatusCancelled, FinishedAt := 7\<rparr>)"
  by (rule terminal_jobs_are_final)
    (simp_all add: Submit_def JM_Cancel_eq Make_JobManager_def)

text \<open>A report about an unknown job, a job that is not running, a node that is not assigned, or
  a node that has already reported changes nothing; only the first and the third are errors.\<close>

theorem rejected_reports_change_nothing:
  assumes "(case fmlookup (jobs m) jid of None \<Rightarrow> True
      | Some j \<Rightarrow> job_Status j \<noteq> StatusRunning \<or> n \<notin> set (AssignedNodeIDs j) \<or>
                 fmlookup (reports_of m jid) n \<noteq> None)"
  shows "ReportNodeEvent now jid n failed c msg m =
     ((case fmlookup (jobs m) jid of
         None \<Rightarrow> Some ErrJobNotFound
       | Some j \<Rightarrow> if job_Status j = StatusRunning \<and> n \<notin> set (AssignedNodeIDs j)
                  then Some (Errorf (''node '' @ n @ '' is not assigned to job '' @ jid)) else None), m)"
  using assms by (auto simp: ReportNodeEvent_eq Let_def split: option.splits)

theorem rejected_reports_change_nothing_witness:
  "ReportNodeEvent 3 ''a'' ''n'' True 1 ''x'' Make_JobManager = (Some ErrJobNotFound, Make_JobManager)"
proof -
  have none: "fmlookup (jobs Make_JobManager) ''a'' = None" by (simp add: Make_JobManager_def)
  show ?thesis
    using none rejected_reports_change_nothing [where m = Make_JobManager and jid = "''a''" and n = "''n''"]
    by simp
qed

text \<open>Cancelling takes a pending job out of the queue and asks for no signal, takes a running one
  out of the reports and asks the caller to signal its nodes, and refuses a job that is neither.\<close>

theorem cancel_outcomes:
  assumes "jm_inv m" "fmlookup (jobs m) jid = Some j"
  shows "case JM_Cancel now jid m of (res, m') \<Rightarrow>
     (job_Status j = StatusPending \<longrightarrow> res = Inr False) \<and>
     (job_Status j = StatusRunning \<longrightarrow> res = Inr True) \<and>
     (Terminal (job_Status j) \<longrightarrow> m' = m \<and> (\<exists>err. res = Inl err)) \<and>
     (\<not> Terminal (job_Status j) \<longrightarrow> is_job m' jid StatusCancelled \<and>
        pending m' = remove1 jid (pending m) \<and> reports m' = fmdrop jid (reports m))"
proof -
  have "Valid (job_Status j)" using assms by (simp add: jm_inv_def)
  then consider "job_Status j = StatusPending" | "job_Status j = StatusRunning" | "Terminal (job_Status j)"
    by (cases "job_Status j") (auto simp: Valid_def)
  then show ?thesis
    using assms(2) not_pending_remove1 [OF assms] not_running_fmdrop [OF assms]
    by cases (auto simp: JM_Cancel_eq is_job_def Terminal_def)
qed

theorem cancel_outcomes_witness:
  "case JM_Cancel 7 ''a'' (jm_run [OpSubmit (Some (sample_job ''a'' 1))]) of (res, m') \<Rightarrow>
     is_job m' ''a'' StatusCancelled \<and> pending m' = remove1 ''a'' (pending (jm_run [OpSubmit (Some (sample_job ''a'' 1))]))"
proof -
  have "fmlookup (jobs (jm_run [OpSubmit (Some (sample_job ''a'' 1))])) ''a'' = Some (sample_job ''a'' 1)"
    by (simp add: Submit_def Make_JobManager_def)
  from cancel_outcomes [OF jm.inv_run this, of 7] show ?thesis by (simp add: split_beta)
qed

text \<open>Listing returns each matching job exactly once, in whatever order the map is visited; an
  empty filter matches all.\<close>

theorem list_returns_matching_jobs:
  assumes "jm_inv m" "go_range ks (jobs m)"
  shows "distinct (map job_ID (JM_List ks sts m)) \<and>
     (\<forall>j. j \<in> set (JM_List ks sts m) \<longleftrightarrow>
        fmlookup (jobs m) (job_ID j) = Some j \<and> (sts = [] \<or> job_Status j \<in> set sts))"
proof -
  have look: "fmlookup (jobs m) k = Some j \<Longrightarrow> job_ID j = k" for k j
    using jm_inv_job [OF assms(1)] .
  have IDs: "distinct (map job_ID (go_values xs (jobs m))) \<and> job_ID ` set (go_values xs (jobs m)) \<subseteq> set xs"
    if "distinct xs" for xs
    using that by (induction xs) (auto split: option.split dest: look)
  have "distinct ks" using assms(2) by (simp add: go_range_def)
  with IDs have "distinct (map job_ID (JM_List ks sts m))"
    by (simp add: JM_List_def distinct_map_filter comp_def)
  then show ?thesis
    by (auto simp: JM_List_def go_values_mem [OF assms(2)] dest: look)
qed

theorem list_returns_matching_jobs_witness:
  "distinct (map job_ID (JM_List [] [StatusPending] Make_JobManager)) \<and>
   (\<forall>j. j \<in> set (JM_List [] [StatusPending] Make_JobManager) \<longleftrightarrow>
      fmlookup (jobs Make_JobManager) (job_ID j) = Some j \<and> ([StatusPending] = [] \<or> job_Status j \<in> set [StatusPending]))"
  by (rule list_returns_matching_jobs [OF jm_inv_Make]) (simp add: Make_JobManager_def go_range_def)

end
