(* ===== verification/Scheduler.thy ===== *)
theory Scheduler
  imports Resources JobManager
begin

text \<open>
  The gang scheduler, \<open>src/internal/scheduler/scheduler.go\<close>.  The \<open>Dispatcher\<close> interface is an
  argument: a function that delivers an assignment to a node over some dispatcher state \<open>'d\<close>, absent
  (\<open>None\<close>) where the Go field is nil.  \<open>trySchedule\<close> holds the scheduler's own mutex; it calls the
  job manager and the registry in the order of the source.
\<close>

section \<open>Assignments\<close>

record Assignment =
  as_JobID :: string
  as_Command :: string
  as_Args :: "string list"
  as_Env :: "(string, string) fmap"
  as_MaxDuration :: duration
  as_NodeRank :: int
  as_NNodes :: int
  as_CPUsPerNode :: int

type_synonym 'd dispatch_fn = "string \<Rightarrow> Assignment \<Rightarrow> 'd \<Rightarrow> go_error option \<times> 'd"

definition assignmentEnv :: "Job \<Rightarrow> int \<Rightarrow> int \<Rightarrow> (string, string) fmap" where
  "assignmentEnv j rank nnodes =
     (let env = go_copy (go_keys (Env (job_Spec j))) (Env (job_Spec j));
          env = fmupd ''SLURMLITE_JOB_ID'' (job_ID j) env;
          env = fmupd ''SLURMLITE_NODE_RANK'' (itoa rank) env;
          env = fmupd ''SLURMLITE_NNODES'' (itoa nnodes) env
      in fmupd ''SLURMLITE_CPUS_PER_NODE'' (itoa (CPUsPerNode (Resources (job_Spec j)))) env)"

definition assignment_for :: "Job \<Rightarrow> int \<Rightarrow> int \<Rightarrow> Assignment" where
  "assignment_for j rank nnodes =
     \<lparr>as_JobID = job_ID j,
      as_Command = Command (job_Spec j),
      as_Args = [] @ Args (job_Spec j),
      as_Env = assignmentEnv j rank nnodes,
      as_MaxDuration = MaxDuration (Resources (job_Spec j)),
      as_NodeRank = rank,
      as_NNodes = nnodes,
      as_CPUsPerNode = CPUsPerNode (Resources (job_Spec j))\<rparr>"

text \<open>The loop of \<open>dispatchWork\<close>: it stops at the first error.\<close>

fun dispatch_loop ::
  "'d dispatch_fn \<Rightarrow> Job \<Rightarrow> int \<Rightarrow> int \<Rightarrow> string list \<Rightarrow> 'd \<Rightarrow> go_error option \<times> 'd" where
  "dispatch_loop disp j nnodes rank [] d = (None, d)"
| "dispatch_loop disp j nnodes rank (nodeID # ids) d =
     (case disp nodeID (assignment_for j rank nnodes) d of
        (Some err, d') \<Rightarrow> (Some err, d')
      | (None, d') \<Rightarrow> dispatch_loop disp j nnodes (rank + 1) ids d')"

definition dispatchWork ::
  "'d dispatch_fn option \<Rightarrow> Job \<Rightarrow> string list \<Rightarrow> 'd \<Rightarrow> go_error option \<times> 'd" where
  "dispatchWork dispo j nodeIDs d = (case dispo of
     None \<Rightarrow> (None, d)
   | Some disp \<Rightarrow> dispatch_loop disp j (int (length nodeIDs)) 0 nodeIDs d)"

section \<open>The scheduler\<close>

text \<open>\<open>kick\<close> is the number of tokens in the channel of capacity 1.\<close>

record 'd Scheduler =
  jobManager :: JobManager
  registry :: Registry
  dispatch :: 'd
  kick :: nat

definition Make_Scheduler :: "JobManager option \<Rightarrow> Registry option \<Rightarrow> 'd \<Rightarrow> 'd Scheduler" where
  "Make_Scheduler js reg d =
     \<lparr>jobManager = (case js of None \<Rightarrow> Make_JobManager | Some m \<Rightarrow> m),
      registry = (case reg of None \<Rightarrow> Make_Registry | Some r \<Rightarrow> r),
      dispatch = d, kick = 0\<rparr>"

definition Kick :: "'d Scheduler \<Rightarrow> 'd Scheduler" where
  "Kick s = (if kick s < 1 then s\<lparr>kick := kick s + 1\<rparr> else s)"

text \<open>
  \<open>t1\<close> and \<open>t2\<close> are the clock readings of \<open>MarkRunning\<close> and of \<open>MarkFailed\<close>.
\<close>

definition trySchedule ::
  "'d dispatch_fn option \<Rightarrow> instant \<Rightarrow> instant \<Rightarrow> 'd Scheduler \<Rightarrow> bool \<times> 'd Scheduler" where
  "trySchedule dispo t1 t2 s =
     (case PeekPendingJob (jobManager s) of
        None \<Rightarrow> (False, s)
      | Some j \<Rightarrow>
          let req = Resources (job_Spec j)
          in case SelectGang (ListNodes (registry s)) req of
               None \<Rightarrow> (False, s)
             | Some nodeIDs \<Rightarrow>
                 (case ReserveNodes (job_ID j) nodeIDs (CPUsPerNode req) (registry s) of
                    (Some err, r1) \<Rightarrow> (False, s\<lparr>registry := r1\<rparr>)
                  | (None, r1) \<Rightarrow>
                      (case JM_MarkRunning t1 (job_ID j) nodeIDs (jobManager s) of
                         (Some err, m1) \<Rightarrow>
                           (False, s\<lparr>registry := ReleaseNodes nodeIDs (CPUsPerNode req) r1, jobManager := m1\<rparr>)
                       | (None, m1) \<Rightarrow>
                           (case dispatchWork dispo j nodeIDs (dispatch s) of
                              (Some err, d1) \<Rightarrow>
                                (False, s\<lparr>registry := ReleaseNodes nodeIDs (CPUsPerNode req) r1,
                                          jobManager := snd (JM_MarkFailed t2 (job_ID j) 1 (error_text err) m1),
                                          dispatch := d1\<rparr>)
                            | (None, d1) \<Rightarrow>
                                (True, s\<lparr>registry := r1, jobManager := m1, dispatch := d1\<rparr>)))))"

section \<open>The scheduling loop ends\<close>

text \<open>
  \<open>Run\<close> repeats \<open>trySchedule\<close> until it returns false, before it waits for a tick or a kick.  Each
  success turns a pending job into a running one, so the number of pending jobs bounds the loop.
\<close>

definition pending_jobs :: "JobManager \<Rightarrow> string set" where
  "pending_jobs m = {jid. is_job m jid StatusPending}"

lemma finite_pending_jobs [simp]: "finite (pending_jobs m)"
proof (rule finite_subset)
  show "pending_jobs m \<subseteq> fmdom' (jobs m)" by (auto simp: pending_jobs_def is_job_def mem_fmdom')
qed simp

lemma MarkRunning_pending_jobs:
  assumes "JM_MarkRunning now jid ids m = (None, m')"
  shows "jid \<in> pending_jobs m" "pending_jobs m' = pending_jobs m - {jid}"
  using assms
  by (auto simp: JM_MarkRunning_def pending_jobs_def is_job_def Let_def
      dest!: Job_MarkRunning_InrD split: option.splits sum.splits if_splits)

lemma trySchedule_True:
  assumes "trySchedule dispo t1 t2 s = (True, s')"
  obtains j ids where
    "PeekPendingJob (jobManager s) = Some j"
    "SelectGang (ListNodes (registry s)) (Resources (job_Spec j)) = Some ids"
    "ReserveNodes (job_ID j) ids (CPUsPerNode (Resources (job_Spec j))) (registry s) = (None, registry s')"
    "JM_MarkRunning t1 (job_ID j) ids (jobManager s) = (None, jobManager s')"
    "dispatchWork dispo j ids (dispatch s) = (None, dispatch s')"
    "kick s' = kick s"
  using assms by (auto simp: trySchedule_def Let_def split: option.splits prod.splits)

lemma trySchedule_decreases:
  assumes "trySchedule dispo t1 t2 s = (True, s')"
  shows "card (pending_jobs (jobManager s')) < card (pending_jobs (jobManager s))"
proof -
  obtain j :: Job and ids where "JM_MarkRunning t1 (job_ID j) ids (jobManager s) = (None, jobManager s')"
    by (rule trySchedule_True [OF assms]) (rule that)
  from MarkRunning_pending_jobs [OF this] show ?thesis
    by (metis card_Diff1_less finite_pending_jobs)
qed

text \<open>\<open>clk i\<close> gives the clock readings of the \<open>i\<close>-th attempt.\<close>

function schedule_all ::
  "'d dispatch_fn option \<Rightarrow> (nat \<Rightarrow> instant \<times> instant) \<Rightarrow> nat \<Rightarrow> 'd Scheduler \<Rightarrow> 'd Scheduler" where
  "schedule_all dispo clk i s =
     (case trySchedule dispo (fst (clk i)) (snd (clk i)) s of
        (True, s') \<Rightarrow> schedule_all dispo clk (Suc i) s'
      | (False, s') \<Rightarrow> s')"
  by pat_completeness auto
termination
  by (relation "measure (\<lambda>(dispo, clk, i, s). card (pending_jobs (jobManager s)))")
    (auto dest: trySchedule_decreases [OF sym])

declare schedule_all.simps [simp del]


section \<open>The loop of Run\<close>

definition SCHEDULER_INTERVAL :: duration where
  "SCHEDULER_INTERVAL = 1 * Second"

text \<open>
  After the scheduling loop, \<open>Run\<close> waits for one of three things: the context is done (and it returns),
  a token on the kick channel, or the ticker.  \<open>wake_ready\<close> says when a case of the \<open>select\<close> can be
  taken whatever the timers and the context do.  Other goroutines act while it waits.
\<close>

datatype wake = WakeDone | WakeKick | WakeTick

definition wake_ready :: "'d Scheduler \<Rightarrow> bool" where
  "wake_ready s \<longleftrightarrow> kick s > 0"

definition wake_up :: "wake \<Rightarrow> 'd Scheduler \<Rightarrow> 'd Scheduler option" where
  "wake_up w s = (case w of
     WakeDone \<Rightarrow> None
   | WakeKick \<Rightarrow> if kick s > 0 then Some (s\<lparr>kick := kick s - 1\<rparr>) else None
   | WakeTick \<Rightarrow> Some s)"

text \<open>One round of \<open>Run\<close> while others act: what they do while it waits is \<open>others\<close>.\<close>

definition run_round ::
  "'d dispatch_fn option \<Rightarrow> (nat \<Rightarrow> instant \<times> instant) \<Rightarrow> ('d Scheduler \<Rightarrow> 'd Scheduler) \<Rightarrow> wake \<Rightarrow> 'd Scheduler \<Rightarrow>
   'd Scheduler option" where
  "run_round dispo clk others w s = wake_up w (others (schedule_all dispo clk 0 s))"

section \<open>What the scheduler needs of a dispatcher\<close>

text \<open>
  Delivering to a named node succeeds, puts the assignment (in the form \<open>wire\<close> the dispatcher gives
  it) into that node's mailbox, and leaves the other mailboxes alone, as long as the dispatcher's own
  invariant holds, which delivery keeps.
\<close>

locale dispatcher =
  fixes disp :: "string \<Rightarrow> Assignment \<Rightarrow> 'd \<Rightarrow> go_error option \<times> 'd"
    and mailbox :: "'d \<Rightarrow> string \<Rightarrow> 'm list"
    and wire :: "Assignment \<Rightarrow> 'm"
    and ready :: "'d \<Rightarrow> bool"
  assumes disp_ok: "n \<noteq> [] \<Longrightarrow> fst (disp n a d) = None"
    and disp_ready: "ready d \<Longrightarrow> ready (snd (disp n a d))"
    and disp_delivers: "ready d \<Longrightarrow> n \<noteq> [] \<Longrightarrow> wire a \<in> set (mailbox (snd (disp n a d)) n)"
    and disp_frame: "ready d \<Longrightarrow> n' \<noteq> n \<Longrightarrow> mailbox (snd (disp n a d)) n' = mailbox d n'"
begin

lemma disp_None: "n \<noteq> [] \<Longrightarrow> disp n a d = (None, snd (disp n a d))"
  by (metis disp_ok prod.collapse)

lemma dispatch_loop_Cons:
  "[] \<noteq> n \<Longrightarrow> dispatch_loop disp j nnodes rank (n # ids) d =
     dispatch_loop disp j nnodes (rank + 1) ids (snd (disp n (assignment_for j rank nnodes) d))"
  by (subst dispatch_loop.simps, subst disp_None) auto

lemma loop_ok: "[] \<notin> set ids \<Longrightarrow> fst (dispatch_loop disp j nnodes rank ids d) = None"
  by (induction ids arbitrary: rank d) (simp_all add: dispatch_loop_Cons del: dispatch_loop.simps(2))

lemma loop_ready: "[] \<notin> set ids \<Longrightarrow> ready d \<Longrightarrow> ready (snd (dispatch_loop disp j nnodes rank ids d))"
  by (induction ids arbitrary: rank d)
    (simp_all add: dispatch_loop_Cons disp_ready del: dispatch_loop.simps(2))

lemma loop_frame:
  "[] \<notin> set ids \<Longrightarrow> ready d \<Longrightarrow> n \<notin> set ids \<Longrightarrow>
   mailbox (snd (dispatch_loop disp j nnodes rank ids d)) n = mailbox d n"
  by (induction ids arbitrary: rank d)
    (simp_all add: dispatch_loop_Cons disp_frame disp_ready del: dispatch_loop.simps(2))

lemma loop_delivers:
  "[] \<notin> set ids \<Longrightarrow> ready d \<Longrightarrow> distinct ids \<Longrightarrow> i < length ids \<Longrightarrow>
   wire (assignment_for j (rank + int i) nnodes)
     \<in> set (mailbox (snd (dispatch_loop disp j nnodes rank ids d)) (ids ! i))"
proof (induction ids arbitrary: rank d i)
  case (Cons n ids)
  then have n: "[] \<noteq> n" "n \<noteq> []" by auto
  show ?case
  proof (cases i)
    case 0
    with Cons.prems n show ?thesis
      by (simp add: dispatch_loop_Cons loop_frame disp_delivers disp_ready del: dispatch_loop.simps(2))
  next
    case (Suc k)
    with Cons.prems Cons.IH [of _ k "rank + 1"] n show ?thesis
      by (simp add: dispatch_loop_Cons disp_ready algebra_simps del: dispatch_loop.simps(2))
  qed
qed simp

lemma work_ok: "[] \<notin> set ids \<Longrightarrow> fst (dispatchWork (Some disp) j ids d) = None"
  by (simp add: dispatchWork_def loop_ok)

lemma work_ready: "[] \<notin> set ids \<Longrightarrow> ready d \<Longrightarrow> ready (snd (dispatchWork (Some disp) j ids d))"
  by (simp add: dispatchWork_def loop_ready)

lemma work_delivers:
  "[] \<notin> set ids \<Longrightarrow> ready d \<Longrightarrow> distinct ids \<Longrightarrow> i < length ids \<Longrightarrow>
   wire (assignment_for j (int i) (int (length ids)))
     \<in> set (mailbox (snd (dispatchWork (Some disp) j ids d)) (ids ! i))"
  using loop_delivers [of ids d i j 0] by (simp add: dispatchWork_def)

lemma work_frame:
  "[] \<notin> set ids \<Longrightarrow> ready d \<Longrightarrow> n \<notin> set ids \<Longrightarrow>
   mailbox (snd (dispatchWork (Some disp) j ids d)) n = mailbox d n"
  by (simp add: dispatchWork_def loop_frame)

end

section \<open>One attempt\<close>

definition sched_inv :: "'d Scheduler \<Rightarrow> bool" where
  "sched_inv s \<longleftrightarrow>
     jm_inv (jobManager s) \<and> fmlookup (jobs (jobManager s)) [] = None \<and> reg_usable (registry s)"

lemma peek_head:
  assumes "jm_inv m" "PeekPendingJob m = Some j"
  shows "fmlookup (jobs m) (job_ID j) = Some j" "job_Status j = StatusPending"
    and "pending m = job_ID j # tl (pending m)"
proof -
  from assms(2) obtain jid rest where p: "pending m = jid # rest" and j: "fmlookup (jobs m) jid = Some j"
    by (auto simp: PeekPendingJob_def peekPendingID_def split: list.splits option.splits)
  have "job_ID j = jid" using jm_inv_job [OF assms(1) j] .
  moreover have "is_job m jid StatusPending"
    using jm_inv_pending [OF assms(1), of jid] p by simp
  ultimately show "fmlookup (jobs m) (job_ID j) = Some j" "job_Status j = StatusPending"
    "pending m = job_ID j # tl (pending m)"
    using p j by (auto simp: is_job_def)
qed

lemma MarkRunning_pending:
  assumes "fmlookup (jobs m) jid = Some j" "job_Status j = StatusPending"
  shows "JM_MarkRunning now jid ids m =
     (None, m\<lparr>jobs := fmupd jid (j\<lparr>job_Status := StatusRunning, AssignedNodeIDs := ids, StartedAt := now\<rparr>) (jobs m),
              pending := remove1 jid (pending m), reports := fmupd jid fmempty (reports m)\<rparr>)"
  using assms by (simp add: JM_MarkRunning_def Job_MarkRunning_pending Let_def)

text \<open>
  The attempt in one equation, under the invariant: reservation and \<open>MarkRunning\<close> cannot fail once a
  gang is selected, so only the dispatcher can make it back out, and then the registry is as before.
\<close>

lemma trySchedule_eq:
  fixes t1 t2 :: instant
  assumes inv: "sched_inv s" and peek: "PeekPendingJob (jobManager s) = Some j"
    and sel: "SelectGang (ListNodes (registry s)) (Resources (job_Spec j)) = Some ids"
  defines "c \<equiv> CPUsPerNode (Resources (job_Spec j))" and "m1 \<equiv> snd (JM_MarkRunning t1 (job_ID j) ids (jobManager s))"
  shows "trySchedule dispo t1 t2 s =
     (case dispatchWork dispo j ids (dispatch s) of
        (None, d1) \<Rightarrow>
          (True, s\<lparr>registry := snd (ReserveNodes (job_ID j) ids c (registry s)), jobManager := m1, dispatch := d1\<rparr>)
      | (Some err, d1) \<Rightarrow>
          (False, s\<lparr>jobManager := snd (JM_MarkFailed t2 (job_ID j) 1 (error_text err) m1), dispatch := d1\<rparr>))"
proof -
  from inv have jm: "jm_inv (jobManager s)" and use: "reg_usable (registry s)"
    and none: "fmlookup (jobs (jobManager s)) [] = None" by (simp_all add: sched_inv_def)
  note head = peek_head [OF jm peek]
  with none have ne: "job_ID j \<noteq> []" by auto
  from pool.selected_reservable [OF use sel ne] obtain r1
    where res: "ReserveNodes (job_ID j) ids c (registry s) = (None, r1)"
    by (cases "ReserveNodes (job_ID j) ids c (registry s)") (auto simp: c_def)
  with pool.selected_undo [OF use sel ne] have undo: "ReleaseNodes ids c r1 = registry s"
    by (simp add: c_def)
  have mark: "JM_MarkRunning t1 (job_ID j) ids (jobManager s) = (None, m1)"
    using MarkRunning_pending [OF head(1,2)] by (simp add: m1_def)
  show ?thesis
    using peek sel res undo mark
    by (auto simp: trySchedule_def c_def [symmetric] Let_def split: prod.split option.split)
qed

lemma trySchedule_idle:
  assumes "PeekPendingJob (jobManager s) = None \<or>
     (\<exists>j. PeekPendingJob (jobManager s) = Some j \<and> SelectGang (ListNodes (registry s)) (Resources (job_Spec j)) = None)"
  shows "trySchedule dispo t1 t2 s = (False, s)"
  using assms by (auto simp: trySchedule_def Let_def)

lemma trySchedule_decides:
  assumes "sched_inv s"
  shows "(PeekPendingJob (jobManager s) = None \<and> trySchedule dispo t1 t2 s = (False, s)) \<or>
     (\<exists>j. PeekPendingJob (jobManager s) = Some j \<and>
        SelectGang (ListNodes (registry s)) (Resources (job_Spec j)) = None \<and> trySchedule dispo t1 t2 s = (False, s)) \<or>
     (\<exists>j ids. PeekPendingJob (jobManager s) = Some j \<and>
        SelectGang (ListNodes (registry s)) (Resources (job_Spec j)) = Some ids)"
  using trySchedule_idle [of s dispo t1 t2]
  by (cases "PeekPendingJob (jobManager s)"; cases "SelectGang (ListNodes (registry s)) (Resources (job_Spec (the (PeekPendingJob (jobManager s)))))")
    auto

lemma sched_selected_nonempty:
  assumes "sched_inv s" "SelectGang (ListNodes (registry s)) req = Some ids"
  shows "[] \<notin> set ids"
proof -
  from assms(1) have inv: "reg_inv (registry s)" by (simp add: sched_inv_def reg_usable_def)
  from SelectGang_Some(4) [OF assms(2)] obtain gang
    where "ids = map node_ID gang" "set gang \<subseteq> set (ListNodes (registry s))" by blast
  then show ?thesis using set_ListNodes [OF inv] reg_invD [OF inv] by fastforce
qed

text \<open>The scheduler keeps its invariant.\<close>

lemma MarkRunning_None_key: "fmlookup (jobs m) [] = None \<Longrightarrow> fmlookup (jobs (snd (JM_MarkRunning t jid ids m))) [] = None"
  by (auto simp: JM_MarkRunning_def Let_def split: option.split sum.split)

lemma MarkFailed_None_key: "fmlookup (jobs m) [] = None \<Longrightarrow> fmlookup (jobs (snd (JM_MarkFailed t jid c msg m))) [] = None"
  by (auto simp: JM_MarkFailed_def split: option.split sum.split)

lemma sched_inv_trySchedule [inv_intros]:
  assumes "sched_inv s"
  shows "sched_inv (snd (trySchedule dispo t1 t2 s))"
  using trySchedule_decides [OF assms, of dispo t1 t2]
proof (elim disjE exE conjE)
  fix j ids
  assume peek: "PeekPendingJob (jobManager s) = Some j"
    and sel: "SelectGang (ListNodes (registry s)) (Resources (job_Spec j)) = Some ids"
  from assms have use: "reg_usable (registry s)" and jm: "jm_inv (jobManager s)"
    and key: "fmlookup (jobs (jobManager s)) [] = None" by (simp_all add: sched_inv_def)
  have "distinct ids" using pool.selected_distinct [OF use sel] .
  then have "reg_usable (snd (ReserveNodes jid ids c (registry s)))" for jid c
    using use by (simp add: reg_usable_def reg_inv_ReserveNodes reg_cpus_ReserveNodes)
  with use jm key show ?thesis
    by (simp add: trySchedule_eq [OF assms peek sel] sched_inv_def jm_inv_MarkRunning jm_inv_MarkFailed
        MarkRunning_None_key MarkFailed_None_key split: prod.split option.split)
qed (use assms in simp_all)

section \<open>Properties\<close>

text \<open>C3.  Gang scheduling commits whole gangs: a successful attempt takes the job at the head of the
  queue, reserves for it exactly as many distinct nodes as it requires, each of them online, idle and
  with the CPUs to spare, marks it running on those nodes, and changes no other node and no other
  job.\<close>

theorem attempt_commits_whole_gang:
  assumes "sched_inv s" "trySchedule dispo t1 t2 s = (True, s')"
  shows "\<exists>j ids. pending (jobManager s) = job_ID j # pending (jobManager s') \<and>
     jobs (jobManager s') = fmupd (job_ID j)
       (j\<lparr>job_Status := StatusRunning, AssignedNodeIDs := ids, StartedAt := t1\<rparr>) (jobs (jobManager s)) \<and>
     fmlookup (jobs (jobManager s)) (job_ID j) = Some j \<and>
     distinct ids \<and> int (length ids) = NodesRequired (Resources (job_Spec j)) \<and>
     (\<forall>k \<in> set ids. \<exists>n. fmlookup (nodes (registry s)) k = Some n \<and> free_for (CPUsPerNode (Resources (job_Spec j))) n) \<and>
     (\<forall>k. fmlookup (nodes (registry s')) k =
        (if k \<in> set ids then map_option (reserved (job_ID j) (CPUsPerNode (Resources (job_Spec j)))) (fmlookup (nodes (registry s)) k)
         else fmlookup (nodes (registry s)) k))"
proof -
  obtain j :: Job and ids where peek: "PeekPendingJob (jobManager s) = Some j"
    and sel: "SelectGang (ListNodes (registry s)) (Resources (job_Spec j)) = Some ids"
    and res: "ReserveNodes (job_ID j) ids (CPUsPerNode (Resources (job_Spec j))) (registry s) = (None, registry s')"
    and mark: "JM_MarkRunning t1 (job_ID j) ids (jobManager s) = (None, jobManager s')"
    by (rule trySchedule_True [OF assms(2)]) (rule that)
  from assms(1) have jm: "jm_inv (jobManager s)" and use: "reg_usable (registry s)" by (simp_all add: sched_inv_def)
  note head = peek_head [OF jm peek]
  have "remove1 (job_ID j) (pending (jobManager s)) = tl (pending (jobManager s))"
    by (subst (1) head(3)) simp
  moreover from mark have "jobManager s' = snd (JM_MarkRunning t1 (job_ID j) ids (jobManager s))" by simp
  ultimately have "pending (jobManager s) = job_ID j # pending (jobManager s')"
    "jobs (jobManager s') = fmupd (job_ID j)
       (j\<lparr>job_Status := StatusRunning, AssignedNodeIDs := ids, StartedAt := t1\<rparr>) (jobs (jobManager s))"
    using head(3) by (simp_all add: MarkRunning_pending [OF head(1,2)])
  moreover have "distinct ids" using pool.selected_distinct [OF use sel] .
  ultimately show ?thesis
    using head(1) SelectGang_Some(1) [OF sel] ReserveNodes_None_iff [of "job_ID j" ids "CPUsPerNode (Resources (job_Spec j))" "registry s"]
      ReserveNodes_lookup [of ids "job_ID j" "CPUsPerNode (Resources (job_Spec j))" "registry s"] res
    by (intro exI [of _ j] exI [of _ ids]) simp
qed

definition sample_scheduler :: "unit Scheduler" where
  "sample_scheduler = Make_Scheduler
     (Some (jm_run [OpSubmit (Some (sample_job ''a'' 2)), OpSubmit (Some (sample_job ''b'' 1))]))
     (Some sample_registry) ()"

lemma sample_scheduler_inv: "sched_inv sample_scheduler"
proof -
  have "fmlookup (jobs (jm_run [OpSubmit (Some (sample_job ''a'' 2)), OpSubmit (Some (sample_job ''b'' 1))])) [] = None"
    by (simp add: Submit_def Make_JobManager_def)
  then show ?thesis
    using jm.inv_run [of "[OpSubmit (Some (sample_job ''a'' 2)), OpSubmit (Some (sample_job ''b'' 1))]"] sample_registry_ok
    by (simp add: sched_inv_def sample_scheduler_def Make_Scheduler_def reg_usable_def del: fold_simps)
qed

lemma sample_peek: "PeekPendingJob (jobManager sample_scheduler) = Some (sample_job ''a'' 2)"
  by (simp add: sample_scheduler_def Make_Scheduler_def PeekPendingJob_def peekPendingID_def
      Submit_def Make_JobManager_def)

lemma sample_gang:
  "SelectGang (ListNodes (registry sample_scheduler)) (Resources (job_Spec (sample_job ''a'' 2))) = Some [''n1'', ''n2'']"
  using sample_select by (simp add: sample_scheduler_def Make_Scheduler_def sample_spec_def)

lemma sample_attempt:
  "trySchedule None 5 6 sample_scheduler = (True, snd (trySchedule None 5 6 sample_scheduler))"
  by (simp add: trySchedule_eq [OF sample_scheduler_inv sample_peek sample_gang] dispatchWork_def)

theorem attempt_commits_whole_gang_witness:
  "\<exists>j ids. pending (jobManager sample_scheduler) =
       job_ID j # pending (jobManager (snd (trySchedule None 5 6 sample_scheduler))) \<and>
     distinct (ids :: string list) \<and> int (length ids) = NodesRequired (Resources (job_Spec (j :: Job)))"
  using attempt_commits_whole_gang [OF sample_scheduler_inv sample_attempt] 
  by blast

text \<open>C4.  An unsuccessful attempt leaves the registry untouched: no node stays reserved, even when the
  dispatcher fails half-way.  The jobs are untouched too, or the head job is failed with the
  dispatcher's error.\<close>

theorem failed_attempt_backs_out:
  assumes "sched_inv s" "trySchedule dispo t1 t2 s = (False, s')"
  shows "registry s' = registry s \<and>
     (jobManager s' = jobManager s \<or>
      (\<exists>j ids err d. PeekPendingJob (jobManager s) = Some j \<and>
         dispatchWork dispo j ids (dispatch s) = (Some err, d) \<and>
         pending (jobManager s) = job_ID j # pending (jobManager s') \<and>
         jobs (jobManager s') = fmupd (job_ID j)
           (j\<lparr>AssignedNodeIDs := ids, StartedAt := t1, job_Status := StatusFailed, FinishedAt := t2,
              ExitCode := 1, ErrorMessage := error_text err\<rparr>) (jobs (jobManager s))))"
  using trySchedule_decides [OF assms(1), of dispo t1 t2]
proof (elim disjE exE conjE)
  fix j ids
  assume peek: "PeekPendingJob (jobManager s) = Some j"
    and sel: "SelectGang (ListNodes (registry s)) (Resources (job_Spec j)) = Some ids"
  from assms(1) have jm: "jm_inv (jobManager s)" by (simp add: sched_inv_def)
  note head = peek_head [OF jm peek]
  from assms(2) obtain err d where d: "dispatchWork dispo j ids (dispatch s) = (Some err, d)"
    by (auto simp: trySchedule_eq [OF assms(1) peek sel] split: prod.splits option.splits)
  let ?m1 = "snd (JM_MarkRunning t1 (job_ID j) ids (jobManager s))"
  from assms(2) d have s': "registry s' = registry s"
    "jobManager s' = snd (JM_MarkFailed t2 (job_ID j) 1 (error_text err) ?m1)"
    by (auto simp: trySchedule_eq [OF assms(1) peek sel])
  have "remove1 (job_ID j) (pending (jobManager s)) = tl (pending (jobManager s))"
    by (subst (1) head(3)) simp
  then have "pending (jobManager s') = tl (pending (jobManager s))"
    "jobs (jobManager s') = fmupd (job_ID j)
       (j\<lparr>AssignedNodeIDs := ids, StartedAt := t1, job_Status := StatusFailed, FinishedAt := t2,
          ExitCode := 1, ErrorMessage := error_text err\<rparr>) (jobs (jobManager s))"
    by (simp_all add: s' MarkRunning_pending [OF head(1,2)] JM_MarkFailed_def Job_MarkFailed_running fmupd_idem2)
  with s'(1) peek d head(3) show ?thesis by metis
qed (use assms(2) in auto)

theorem failed_attempt_backs_out_witness:
  "registry (snd (trySchedule (Some (\<lambda>n a d. (Some (Errorf ''down''), d))) 5 6 sample_scheduler)) = registry sample_scheduler"
proof -
  let ?disp = "Some (\<lambda>n a d. (Some (Errorf ''down''), d))"
  have "trySchedule ?disp 5 6 sample_scheduler = (False, snd (trySchedule ?disp 5 6 sample_scheduler))"
    by (simp add: trySchedule_eq [OF sample_scheduler_inv sample_peek sample_gang] dispatchWork_def)
  from failed_attempt_backs_out [OF sample_scheduler_inv this] show ?thesis by simp
qed

text \<open>With no dispatcher, or one that always delivers, an attempt succeeds exactly when there is a
  job at the head of the queue and enough fitting nodes for it; a job behind the head is never
  considered.\<close>

theorem attempt_succeeds_iff_head_fits:
  assumes "sched_inv s" "\<And>j ids d. [] \<notin> set ids \<Longrightarrow> fst (dispatchWork dispo j ids d) = None"
  shows "fst (trySchedule dispo t1 t2 s) \<longleftrightarrow>
     (\<exists>jid rest j. pending (jobManager s) = jid # rest \<and> fmlookup (jobs (jobManager s)) jid = Some j \<and>
        CanSatisfy (ListNodes (registry s)) (Resources (job_Spec j)) \<and>
        NodesRequired (Resources (job_Spec j)) \<noteq> 0)"
proof -
  have can: "CanSatisfy ns req \<and> NodesRequired req \<noteq> 0 \<longleftrightarrow> SelectGang ns req \<noteq> None" for ns req
    using SelectGang_Some(1,2) [of ns req] by (auto simp: CanSatisfy_def SelectGang_def split: option.split)
  have peek: "(\<exists>jid rest. pending (jobManager s) = jid # rest \<and> fmlookup (jobs (jobManager s)) jid = Some j)
      \<longleftrightarrow> PeekPendingJob (jobManager s) = Some j" for j
    by (auto simp: PeekPendingJob_def peekPendingID_def split: list.split option.split)
  have "fst (trySchedule dispo t1 t2 s) \<longleftrightarrow>
      (\<exists>j. PeekPendingJob (jobManager s) = Some j \<and> SelectGang (ListNodes (registry s)) (Resources (job_Spec j)) \<noteq> None)"
    using trySchedule_decides [OF assms(1), of dispo t1 t2]
  proof (elim disjE exE conjE)
    fix j ids
    assume p: "PeekPendingJob (jobManager s) = Some j"
      and sel: "SelectGang (ListNodes (registry s)) (Resources (job_Spec j)) = Some ids"
    from assms(2) [OF sched_selected_nonempty [OF assms(1) sel]] p sel show ?thesis
      by (auto simp: trySchedule_eq [OF assms(1) p sel] split: prod.split option.split)
        (metis fst_conv option.distinct(1))
  qed auto
  then show ?thesis unfolding can [symmetric] peek [symmetric] by blast
qed

theorem attempt_succeeds_iff_head_fits_witness:
  "fst (trySchedule None 5 6 sample_scheduler) \<longleftrightarrow>
     (\<exists>jid rest j. pending (jobManager sample_scheduler) = jid # rest \<and>
        fmlookup (jobs (jobManager sample_scheduler)) jid = Some j \<and>
        CanSatisfy (ListNodes (registry sample_scheduler)) (Resources (job_Spec j)) \<and>
        NodesRequired (Resources (job_Spec j)) \<noteq> 0)"
  by (rule attempt_succeeds_iff_head_fits [OF sample_scheduler_inv]) (simp add: dispatchWork_def)

text \<open>The scheduling loop always ends, in a state where a further attempt at the same clock fails:
  the head of the queue, if any, does not fit.\<close>

theorem scheduling_loop_saturates:
  assumes "sched_inv s" "\<And>j ids d. [] \<notin> set ids \<Longrightarrow> fst (dispatchWork dispo j ids d) = None"
  shows "sched_inv (schedule_all dispo clk i s) \<and> \<not> fst (trySchedule dispo t1 t2 (schedule_all dispo clk i s))"
  using assms
proof (induction dispo clk i s rule: schedule_all.induct)
  case (1 dispo clk i s)
  obtain ok s' where attempt: "trySchedule dispo (fst (clk i)) (snd (clk i)) s = (ok, s')" by fastforce
  have inv': "sched_inv s'"
    using sched_inv_trySchedule [OF "1.prems"(1), of dispo "fst (clk i)" "snd (clk i)"] attempt by simp
  show ?case
  proof (cases ok)
    case True
    with "1.IH" [OF attempt [symmetric] _ inv' "1.prems"(2)] attempt show ?thesis
      by (simp add: schedule_all.simps [of dispo clk i s])
  next
    case False
    have "\<not> fst (trySchedule dispo t1 t2 s')"
      using trySchedule_decides [OF "1.prems"(1), of dispo "fst (clk i)" "snd (clk i)"]
    proof (elim disjE exE conjE)
      fix j ids
      assume p: "PeekPendingJob (jobManager s) = Some j"
        and sel: "SelectGang (ListNodes (registry s)) (Resources (job_Spec j)) = Some ids"
      from "1.prems"(2) [OF sched_selected_nonempty [OF "1.prems"(1) sel], of j "dispatch s"] attempt False
      show ?thesis by (auto simp: trySchedule_eq [OF "1.prems"(1) p sel] split: prod.splits option.splits)
    qed (use attempt in \<open>auto simp: trySchedule_idle\<close>)
    with inv' attempt False show ?thesis by (simp add: schedule_all.simps [of dispo clk i s])
  qed
qed

theorem scheduling_loop_saturates_witness:
  "sched_inv (schedule_all None (\<lambda>i. (5, 6)) 0 sample_scheduler) \<and>
   \<not> fst (trySchedule None 7 8 (schedule_all None (\<lambda>i. (5, 6)) 0 sample_scheduler))"
  by (rule scheduling_loop_saturates [OF sample_scheduler_inv]) (simp add: dispatchWork_def)

end
