(* ===== verification/Proto.thy ===== *)
theory Proto
  imports Prelude "HOL-Library.Word"
begin

text \<open>
  The messages of the controller's gRPC service, as the generated Go package
  \<open>src/api/proto/v1/scheduler.pb.go\<close> declares them: one record per message struct (its exported
  fields), one getter per \<open>Get\<close> method, and the three enumerations.  A message pointer is an option,
  and every getter answers a nil receiver with the zero value.  An enumeration is open: a number
  without a name is kept.  The well-known types \<open>Duration\<close> and \<open>Timestamp\<close> come from a package that is
  not part of the repository, so they are the type parameters \<open>'dur\<close> and \<open>'ts\<close>.  Serialisation,
  reflection and descriptors are the protobuf runtime's and are not modelled.
\<close>

type_synonym int32 = "32 word"

section \<open>Enumerations\<close>

datatype pb_JobStatus =
    JOB_STATUS_UNSPECIFIED
  | JOB_STATUS_PENDING
  | JOB_STATUS_RUNNING
  | JOB_STATUS_COMPLETED
  | JOB_STATUS_FAILED
  | JOB_STATUS_CANCELLED
  | JobStatus_unnamed int32

definition JobStatus_number :: "pb_JobStatus \<Rightarrow> int32" where
  "JobStatus_number e = (case e of
     JOB_STATUS_UNSPECIFIED \<Rightarrow> 0
   | JOB_STATUS_PENDING \<Rightarrow> 1
   | JOB_STATUS_RUNNING \<Rightarrow> 2
   | JOB_STATUS_COMPLETED \<Rightarrow> 3
   | JOB_STATUS_FAILED \<Rightarrow> 4
   | JOB_STATUS_CANCELLED \<Rightarrow> 5
   | JobStatus_unnamed n \<Rightarrow> n)"

definition JobStatus_of_number :: "int32 \<Rightarrow> pb_JobStatus" where
  "JobStatus_of_number n =
     (if n = 0 then JOB_STATUS_UNSPECIFIED
      else if n = 1 then JOB_STATUS_PENDING
      else if n = 2 then JOB_STATUS_RUNNING
      else if n = 3 then JOB_STATUS_COMPLETED
      else if n = 4 then JOB_STATUS_FAILED
      else if n = 5 then JOB_STATUS_CANCELLED
      else JobStatus_unnamed n)"

definition JobStatus_name :: "int32 \<Rightarrow> string option" where
  "JobStatus_name n =
     (if n = 0 then Some ''JOB_STATUS_UNSPECIFIED''
      else if n = 1 then Some ''JOB_STATUS_PENDING''
      else if n = 2 then Some ''JOB_STATUS_RUNNING''
      else if n = 3 then Some ''JOB_STATUS_COMPLETED''
      else if n = 4 then Some ''JOB_STATUS_FAILED''
      else if n = 5 then Some ''JOB_STATUS_CANCELLED''
      else None)"

definition JobStatus_value :: "string \<Rightarrow> int32 option" where
  "JobStatus_value s =
     (if s = ''JOB_STATUS_UNSPECIFIED'' then Some 0
      else if s = ''JOB_STATUS_PENDING'' then Some 1
      else if s = ''JOB_STATUS_RUNNING'' then Some 2
      else if s = ''JOB_STATUS_COMPLETED'' then Some 3
      else if s = ''JOB_STATUS_FAILED'' then Some 4
      else if s = ''JOB_STATUS_CANCELLED'' then Some 5
      else None)"

datatype pb_NodeStatus =
    NODE_STATUS_UNSPECIFIED
  | NODE_STATUS_ONLINE
  | NODE_STATUS_OFFLINE
  | NODE_STATUS_BUSY
  | NodeStatus_unnamed int32

definition NodeStatus_number :: "pb_NodeStatus \<Rightarrow> int32" where
  "NodeStatus_number e = (case e of
     NODE_STATUS_UNSPECIFIED \<Rightarrow> 0
   | NODE_STATUS_ONLINE \<Rightarrow> 1
   | NODE_STATUS_OFFLINE \<Rightarrow> 2
   | NODE_STATUS_BUSY \<Rightarrow> 3
   | NodeStatus_unnamed n \<Rightarrow> n)"

definition NodeStatus_of_number :: "int32 \<Rightarrow> pb_NodeStatus" where
  "NodeStatus_of_number n =
     (if n = 0 then NODE_STATUS_UNSPECIFIED
      else if n = 1 then NODE_STATUS_ONLINE
      else if n = 2 then NODE_STATUS_OFFLINE
      else if n = 3 then NODE_STATUS_BUSY
      else NodeStatus_unnamed n)"

definition NodeStatus_name :: "int32 \<Rightarrow> string option" where
  "NodeStatus_name n =
     (if n = 0 then Some ''NODE_STATUS_UNSPECIFIED''
      else if n = 1 then Some ''NODE_STATUS_ONLINE''
      else if n = 2 then Some ''NODE_STATUS_OFFLINE''
      else if n = 3 then Some ''NODE_STATUS_BUSY''
      else None)"

definition NodeStatus_value :: "string \<Rightarrow> int32 option" where
  "NodeStatus_value s =
     (if s = ''NODE_STATUS_UNSPECIFIED'' then Some 0
      else if s = ''NODE_STATUS_ONLINE'' then Some 1
      else if s = ''NODE_STATUS_OFFLINE'' then Some 2
      else if s = ''NODE_STATUS_BUSY'' then Some 3
      else None)"

datatype pb_JobEvent =
    JOB_EVENT_UNSPECIFIED
  | JOB_EVENT_STARTED
  | JOB_EVENT_COMPLETED
  | JOB_EVENT_FAILED
  | JOB_EVENT_CANCELLED
  | JobEvent_unnamed int32

definition JobEvent_number :: "pb_JobEvent \<Rightarrow> int32" where
  "JobEvent_number e = (case e of
     JOB_EVENT_UNSPECIFIED \<Rightarrow> 0
   | JOB_EVENT_STARTED \<Rightarrow> 1
   | JOB_EVENT_COMPLETED \<Rightarrow> 2
   | JOB_EVENT_FAILED \<Rightarrow> 3
   | JOB_EVENT_CANCELLED \<Rightarrow> 4
   | JobEvent_unnamed n \<Rightarrow> n)"

definition JobEvent_of_number :: "int32 \<Rightarrow> pb_JobEvent" where
  "JobEvent_of_number n =
     (if n = 0 then JOB_EVENT_UNSPECIFIED
      else if n = 1 then JOB_EVENT_STARTED
      else if n = 2 then JOB_EVENT_COMPLETED
      else if n = 3 then JOB_EVENT_FAILED
      else if n = 4 then JOB_EVENT_CANCELLED
      else JobEvent_unnamed n)"

definition JobEvent_name :: "int32 \<Rightarrow> string option" where
  "JobEvent_name n =
     (if n = 0 then Some ''JOB_EVENT_UNSPECIFIED''
      else if n = 1 then Some ''JOB_EVENT_STARTED''
      else if n = 2 then Some ''JOB_EVENT_COMPLETED''
      else if n = 3 then Some ''JOB_EVENT_FAILED''
      else if n = 4 then Some ''JOB_EVENT_CANCELLED''
      else None)"

definition JobEvent_value :: "string \<Rightarrow> int32 option" where
  "JobEvent_value s =
     (if s = ''JOB_EVENT_UNSPECIFIED'' then Some 0
      else if s = ''JOB_EVENT_STARTED'' then Some 1
      else if s = ''JOB_EVENT_COMPLETED'' then Some 2
      else if s = ''JOB_EVENT_FAILED'' then Some 3
      else if s = ''JOB_EVENT_CANCELLED'' then Some 4
      else None)"

section \<open>Messages and getters\<close>

record 'dur pb_ResourceRequest =
  ResourceRequest_NodesRequired :: "int32"
  ResourceRequest_CpusPerNode :: "int32"
  ResourceRequest_MaxDuration :: "'dur option"

definition ResourceRequest_GetNodesRequired :: "'dur pb_ResourceRequest option \<Rightarrow> int32" where
  "ResourceRequest_GetNodesRequired x = (case x of None \<Rightarrow> 0 | Some v \<Rightarrow> ResourceRequest_NodesRequired v)"

definition ResourceRequest_GetCpusPerNode :: "'dur pb_ResourceRequest option \<Rightarrow> int32" where
  "ResourceRequest_GetCpusPerNode x = (case x of None \<Rightarrow> 0 | Some v \<Rightarrow> ResourceRequest_CpusPerNode v)"

definition ResourceRequest_GetMaxDuration :: "'dur pb_ResourceRequest option \<Rightarrow> 'dur option" where
  "ResourceRequest_GetMaxDuration x = (case x of None \<Rightarrow> None | Some v \<Rightarrow> ResourceRequest_MaxDuration v)"

record 'dur pb_JobSpec =
  JobSpec_Resources :: "'dur pb_ResourceRequest option"
  JobSpec_Command :: "string"
  JobSpec_Args :: "string list"
  JobSpec_Env :: "(string, string) fmap"

definition JobSpec_GetResources :: "'dur pb_JobSpec option \<Rightarrow> 'dur pb_ResourceRequest option" where
  "JobSpec_GetResources x = (case x of None \<Rightarrow> None | Some v \<Rightarrow> JobSpec_Resources v)"

definition JobSpec_GetCommand :: "'dur pb_JobSpec option \<Rightarrow> string" where
  "JobSpec_GetCommand x = (case x of None \<Rightarrow> [] | Some v \<Rightarrow> JobSpec_Command v)"

definition JobSpec_GetArgs :: "'dur pb_JobSpec option \<Rightarrow> string list" where
  "JobSpec_GetArgs x = (case x of None \<Rightarrow> [] | Some v \<Rightarrow> JobSpec_Args v)"

definition JobSpec_GetEnv :: "'dur pb_JobSpec option \<Rightarrow> (string, string) fmap" where
  "JobSpec_GetEnv x = (case x of None \<Rightarrow> fmempty | Some v \<Rightarrow> JobSpec_Env v)"

record ('dur, 'ts) pb_Job =
  Job_Id :: "string"
  Job_Status :: "pb_JobStatus"
  Job_Spec :: "'dur pb_JobSpec option"
  Job_AssignedNodeIds :: "string list"
  Job_SubmittedAt :: "'ts option"
  Job_StartedAt :: "'ts option"
  Job_FinishedAt :: "'ts option"
  Job_ExitCode :: "int32"
  Job_ErrorMessage :: "string"

definition Job_GetId :: "('dur, 'ts) pb_Job option \<Rightarrow> string" where
  "Job_GetId x = (case x of None \<Rightarrow> [] | Some v \<Rightarrow> Job_Id v)"

definition Job_GetStatus :: "('dur, 'ts) pb_Job option \<Rightarrow> pb_JobStatus" where
  "Job_GetStatus x = (case x of None \<Rightarrow> JOB_STATUS_UNSPECIFIED | Some v \<Rightarrow> Job_Status v)"

definition Job_GetSpec :: "('dur, 'ts) pb_Job option \<Rightarrow> 'dur pb_JobSpec option" where
  "Job_GetSpec x = (case x of None \<Rightarrow> None | Some v \<Rightarrow> Job_Spec v)"

definition Job_GetAssignedNodeIds :: "('dur, 'ts) pb_Job option \<Rightarrow> string list" where
  "Job_GetAssignedNodeIds x = (case x of None \<Rightarrow> [] | Some v \<Rightarrow> Job_AssignedNodeIds v)"

definition Job_GetSubmittedAt :: "('dur, 'ts) pb_Job option \<Rightarrow> 'ts option" where
  "Job_GetSubmittedAt x = (case x of None \<Rightarrow> None | Some v \<Rightarrow> Job_SubmittedAt v)"

definition Job_GetStartedAt :: "('dur, 'ts) pb_Job option \<Rightarrow> 'ts option" where
  "Job_GetStartedAt x = (case x of None \<Rightarrow> None | Some v \<Rightarrow> Job_StartedAt v)"

definition Job_GetFinishedAt :: "('dur, 'ts) pb_Job option \<Rightarrow> 'ts option" where
  "Job_GetFinishedAt x = (case x of None \<Rightarrow> None | Some v \<Rightarrow> Job_FinishedAt v)"

definition Job_GetExitCode :: "('dur, 'ts) pb_Job option \<Rightarrow> int32" where
  "Job_GetExitCode x = (case x of None \<Rightarrow> 0 | Some v \<Rightarrow> Job_ExitCode v)"

definition Job_GetErrorMessage :: "('dur, 'ts) pb_Job option \<Rightarrow> string" where
  "Job_GetErrorMessage x = (case x of None \<Rightarrow> [] | Some v \<Rightarrow> Job_ErrorMessage v)"

record pb_NodeSpec =
  NodeSpec_Id :: "string"
  NodeSpec_Hostname :: "string"
  NodeSpec_Address :: "string"
  NodeSpec_TotalCpus :: "int32"

definition NodeSpec_GetId :: "pb_NodeSpec option \<Rightarrow> string" where
  "NodeSpec_GetId x = (case x of None \<Rightarrow> [] | Some v \<Rightarrow> NodeSpec_Id v)"

definition NodeSpec_GetHostname :: "pb_NodeSpec option \<Rightarrow> string" where
  "NodeSpec_GetHostname x = (case x of None \<Rightarrow> [] | Some v \<Rightarrow> NodeSpec_Hostname v)"

definition NodeSpec_GetAddress :: "pb_NodeSpec option \<Rightarrow> string" where
  "NodeSpec_GetAddress x = (case x of None \<Rightarrow> [] | Some v \<Rightarrow> NodeSpec_Address v)"

definition NodeSpec_GetTotalCpus :: "pb_NodeSpec option \<Rightarrow> int32" where
  "NodeSpec_GetTotalCpus x = (case x of None \<Rightarrow> 0 | Some v \<Rightarrow> NodeSpec_TotalCpus v)"

record 'ts pb_Node =
  Node_Id :: "string"
  Node_Hostname :: "string"
  Node_Address :: "string"
  Node_Status :: "pb_NodeStatus"
  Node_TotalCpus :: "int32"
  Node_AllocatedCpus :: "int32"
  Node_LastHeartbeat :: "'ts option"
  Node_CurrentJobId :: "string"

definition Node_GetId :: "'ts pb_Node option \<Rightarrow> string" where
  "Node_GetId x = (case x of None \<Rightarrow> [] | Some v \<Rightarrow> Node_Id v)"

definition Node_GetHostname :: "'ts pb_Node option \<Rightarrow> string" where
  "Node_GetHostname x = (case x of None \<Rightarrow> [] | Some v \<Rightarrow> Node_Hostname v)"

definition Node_GetAddress :: "'ts pb_Node option \<Rightarrow> string" where
  "Node_GetAddress x = (case x of None \<Rightarrow> [] | Some v \<Rightarrow> Node_Address v)"

definition Node_GetStatus :: "'ts pb_Node option \<Rightarrow> pb_NodeStatus" where
  "Node_GetStatus x = (case x of None \<Rightarrow> NODE_STATUS_UNSPECIFIED | Some v \<Rightarrow> Node_Status v)"

definition Node_GetTotalCpus :: "'ts pb_Node option \<Rightarrow> int32" where
  "Node_GetTotalCpus x = (case x of None \<Rightarrow> 0 | Some v \<Rightarrow> Node_TotalCpus v)"

definition Node_GetAllocatedCpus :: "'ts pb_Node option \<Rightarrow> int32" where
  "Node_GetAllocatedCpus x = (case x of None \<Rightarrow> 0 | Some v \<Rightarrow> Node_AllocatedCpus v)"

definition Node_GetLastHeartbeat :: "'ts pb_Node option \<Rightarrow> 'ts option" where
  "Node_GetLastHeartbeat x = (case x of None \<Rightarrow> None | Some v \<Rightarrow> Node_LastHeartbeat v)"

definition Node_GetCurrentJobId :: "'ts pb_Node option \<Rightarrow> string" where
  "Node_GetCurrentJobId x = (case x of None \<Rightarrow> [] | Some v \<Rightarrow> Node_CurrentJobId v)"

record 'dur pb_WorkAssignment =
  WorkAssignment_JobId :: "string"
  WorkAssignment_Command :: "string"
  WorkAssignment_Args :: "string list"
  WorkAssignment_Env :: "(string, string) fmap"
  WorkAssignment_MaxDuration :: "'dur option"
  WorkAssignment_NodeRank :: "int32"
  WorkAssignment_Nnodes :: "int32"
  WorkAssignment_CpusPerNode :: "int32"

definition WorkAssignment_GetJobId :: "'dur pb_WorkAssignment option \<Rightarrow> string" where
  "WorkAssignment_GetJobId x = (case x of None \<Rightarrow> [] | Some v \<Rightarrow> WorkAssignment_JobId v)"

definition WorkAssignment_GetCommand :: "'dur pb_WorkAssignment option \<Rightarrow> string" where
  "WorkAssignment_GetCommand x = (case x of None \<Rightarrow> [] | Some v \<Rightarrow> WorkAssignment_Command v)"

definition WorkAssignment_GetArgs :: "'dur pb_WorkAssignment option \<Rightarrow> string list" where
  "WorkAssignment_GetArgs x = (case x of None \<Rightarrow> [] | Some v \<Rightarrow> WorkAssignment_Args v)"

definition WorkAssignment_GetEnv :: "'dur pb_WorkAssignment option \<Rightarrow> (string, string) fmap" where
  "WorkAssignment_GetEnv x = (case x of None \<Rightarrow> fmempty | Some v \<Rightarrow> WorkAssignment_Env v)"

definition WorkAssignment_GetMaxDuration :: "'dur pb_WorkAssignment option \<Rightarrow> 'dur option" where
  "WorkAssignment_GetMaxDuration x = (case x of None \<Rightarrow> None | Some v \<Rightarrow> WorkAssignment_MaxDuration v)"

definition WorkAssignment_GetNodeRank :: "'dur pb_WorkAssignment option \<Rightarrow> int32" where
  "WorkAssignment_GetNodeRank x = (case x of None \<Rightarrow> 0 | Some v \<Rightarrow> WorkAssignment_NodeRank v)"

definition WorkAssignment_GetNnodes :: "'dur pb_WorkAssignment option \<Rightarrow> int32" where
  "WorkAssignment_GetNnodes x = (case x of None \<Rightarrow> 0 | Some v \<Rightarrow> WorkAssignment_Nnodes v)"

definition WorkAssignment_GetCpusPerNode :: "'dur pb_WorkAssignment option \<Rightarrow> int32" where
  "WorkAssignment_GetCpusPerNode x = (case x of None \<Rightarrow> 0 | Some v \<Rightarrow> WorkAssignment_CpusPerNode v)"

record pb_CancelWork =
  CancelWork_JobId :: "string"

definition CancelWork_GetJobId :: "pb_CancelWork option \<Rightarrow> string" where
  "CancelWork_GetJobId x = (case x of None \<Rightarrow> [] | Some v \<Rightarrow> CancelWork_JobId v)"

record 'dur pb_SubmitJobRequest =
  SubmitJobRequest_Spec :: "'dur pb_JobSpec option"

definition SubmitJobRequest_GetSpec :: "'dur pb_SubmitJobRequest option \<Rightarrow> 'dur pb_JobSpec option" where
  "SubmitJobRequest_GetSpec x = (case x of None \<Rightarrow> None | Some v \<Rightarrow> SubmitJobRequest_Spec v)"

record ('dur, 'ts) pb_SubmitJobResponse =
  SubmitJobResponse_Job :: "('dur, 'ts) pb_Job option"

definition SubmitJobResponse_GetJob :: "('dur, 'ts) pb_SubmitJobResponse option \<Rightarrow> ('dur, 'ts) pb_Job option" where
  "SubmitJobResponse_GetJob x = (case x of None \<Rightarrow> None | Some v \<Rightarrow> SubmitJobResponse_Job v)"

record pb_ListJobsRequest =
  ListJobsRequest_Statuses :: "pb_JobStatus list"

definition ListJobsRequest_GetStatuses :: "pb_ListJobsRequest option \<Rightarrow> pb_JobStatus list" where
  "ListJobsRequest_GetStatuses x = (case x of None \<Rightarrow> [] | Some v \<Rightarrow> ListJobsRequest_Statuses v)"

record ('dur, 'ts) pb_ListJobsResponse =
  ListJobsResponse_Jobs :: "('dur, 'ts) pb_Job list"

definition ListJobsResponse_GetJobs :: "('dur, 'ts) pb_ListJobsResponse option \<Rightarrow> ('dur, 'ts) pb_Job list" where
  "ListJobsResponse_GetJobs x = (case x of None \<Rightarrow> [] | Some v \<Rightarrow> ListJobsResponse_Jobs v)"

record pb_CancelJobRequest =
  CancelJobRequest_JobId :: "string"

definition CancelJobRequest_GetJobId :: "pb_CancelJobRequest option \<Rightarrow> string" where
  "CancelJobRequest_GetJobId x = (case x of None \<Rightarrow> [] | Some v \<Rightarrow> CancelJobRequest_JobId v)"

record ('dur, 'ts) pb_CancelJobResponse =
  CancelJobResponse_Job :: "('dur, 'ts) pb_Job option"

definition CancelJobResponse_GetJob :: "('dur, 'ts) pb_CancelJobResponse option \<Rightarrow> ('dur, 'ts) pb_Job option" where
  "CancelJobResponse_GetJob x = (case x of None \<Rightarrow> None | Some v \<Rightarrow> CancelJobResponse_Job v)"

datatype pb_ListNodesRequest = ListNodesRequest

record 'ts pb_ListNodesResponse =
  ListNodesResponse_Nodes :: "'ts pb_Node list"

definition ListNodesResponse_GetNodes :: "'ts pb_ListNodesResponse option \<Rightarrow> 'ts pb_Node list" where
  "ListNodesResponse_GetNodes x = (case x of None \<Rightarrow> [] | Some v \<Rightarrow> ListNodesResponse_Nodes v)"

record pb_RegisterNodeRequest =
  RegisterNodeRequest_Spec :: "pb_NodeSpec option"

definition RegisterNodeRequest_GetSpec :: "pb_RegisterNodeRequest option \<Rightarrow> pb_NodeSpec option" where
  "RegisterNodeRequest_GetSpec x = (case x of None \<Rightarrow> None | Some v \<Rightarrow> RegisterNodeRequest_Spec v)"

record pb_RegisterNodeResponse =
  RegisterNodeResponse_NodeId :: "string"

definition RegisterNodeResponse_GetNodeId :: "pb_RegisterNodeResponse option \<Rightarrow> string" where
  "RegisterNodeResponse_GetNodeId x = (case x of None \<Rightarrow> [] | Some v \<Rightarrow> RegisterNodeResponse_NodeId v)"

record pb_HeartbeatRequest =
  HeartbeatRequest_NodeId :: "string"
  HeartbeatRequest_AllocatedCpus :: "int32"
  HeartbeatRequest_CurrentJobId :: "string"

definition HeartbeatRequest_GetNodeId :: "pb_HeartbeatRequest option \<Rightarrow> string" where
  "HeartbeatRequest_GetNodeId x = (case x of None \<Rightarrow> [] | Some v \<Rightarrow> HeartbeatRequest_NodeId v)"

definition HeartbeatRequest_GetAllocatedCpus :: "pb_HeartbeatRequest option \<Rightarrow> int32" where
  "HeartbeatRequest_GetAllocatedCpus x = (case x of None \<Rightarrow> 0 | Some v \<Rightarrow> HeartbeatRequest_AllocatedCpus v)"

definition HeartbeatRequest_GetCurrentJobId :: "pb_HeartbeatRequest option \<Rightarrow> string" where
  "HeartbeatRequest_GetCurrentJobId x = (case x of None \<Rightarrow> [] | Some v \<Rightarrow> HeartbeatRequest_CurrentJobId v)"

record pb_HeartbeatResponse =
  HeartbeatResponse_Acknowledged :: "bool"
  HeartbeatResponse_CancelJobId :: "string"

definition HeartbeatResponse_GetAcknowledged :: "pb_HeartbeatResponse option \<Rightarrow> bool" where
  "HeartbeatResponse_GetAcknowledged x = (case x of None \<Rightarrow> False | Some v \<Rightarrow> HeartbeatResponse_Acknowledged v)"

definition HeartbeatResponse_GetCancelJobId :: "pb_HeartbeatResponse option \<Rightarrow> string" where
  "HeartbeatResponse_GetCancelJobId x = (case x of None \<Rightarrow> [] | Some v \<Rightarrow> HeartbeatResponse_CancelJobId v)"

record pb_ReportJobStatusRequest =
  ReportJobStatusRequest_NodeId :: "string"
  ReportJobStatusRequest_JobId :: "string"
  ReportJobStatusRequest_Event :: "pb_JobEvent"
  ReportJobStatusRequest_ExitCode :: "int32"
  ReportJobStatusRequest_ErrorMessage :: "string"

definition ReportJobStatusRequest_GetNodeId :: "pb_ReportJobStatusRequest option \<Rightarrow> string" where
  "ReportJobStatusRequest_GetNodeId x = (case x of None \<Rightarrow> [] | Some v \<Rightarrow> ReportJobStatusRequest_NodeId v)"

definition ReportJobStatusRequest_GetJobId :: "pb_ReportJobStatusRequest option \<Rightarrow> string" where
  "ReportJobStatusRequest_GetJobId x = (case x of None \<Rightarrow> [] | Some v \<Rightarrow> ReportJobStatusRequest_JobId v)"

definition ReportJobStatusRequest_GetEvent :: "pb_ReportJobStatusRequest option \<Rightarrow> pb_JobEvent" where
  "ReportJobStatusRequest_GetEvent x = (case x of None \<Rightarrow> JOB_EVENT_UNSPECIFIED | Some v \<Rightarrow> ReportJobStatusRequest_Event v)"

definition ReportJobStatusRequest_GetExitCode :: "pb_ReportJobStatusRequest option \<Rightarrow> int32" where
  "ReportJobStatusRequest_GetExitCode x = (case x of None \<Rightarrow> 0 | Some v \<Rightarrow> ReportJobStatusRequest_ExitCode v)"

definition ReportJobStatusRequest_GetErrorMessage :: "pb_ReportJobStatusRequest option \<Rightarrow> string" where
  "ReportJobStatusRequest_GetErrorMessage x = (case x of None \<Rightarrow> [] | Some v \<Rightarrow> ReportJobStatusRequest_ErrorMessage v)"

record pb_ReportJobStatusResponse =
  ReportJobStatusResponse_Acknowledged :: "bool"

definition ReportJobStatusResponse_GetAcknowledged :: "pb_ReportJobStatusResponse option \<Rightarrow> bool" where
  "ReportJobStatusResponse_GetAcknowledged x = (case x of None \<Rightarrow> False | Some v \<Rightarrow> ReportJobStatusResponse_Acknowledged v)"

record pb_WatchWorkRequest =
  WatchWorkRequest_NodeId :: "string"

definition WatchWorkRequest_GetNodeId :: "pb_WatchWorkRequest option \<Rightarrow> string" where
  "WatchWorkRequest_GetNodeId x = (case x of None \<Rightarrow> [] | Some v \<Rightarrow> WatchWorkRequest_NodeId v)"

datatype 'dur WatchWorkResponse_payload =
    WatchWorkResponse_Assignment "'dur pb_WorkAssignment option"
  | WatchWorkResponse_Cancel "pb_CancelWork option"

record 'dur pb_WatchWorkResponse =
  WatchWorkResponse_Payload :: "'dur WatchWorkResponse_payload option"

definition WatchWorkResponse_GetPayload ::
  "'dur pb_WatchWorkResponse option \<Rightarrow> 'dur WatchWorkResponse_payload option" where
  "WatchWorkResponse_GetPayload x = (case x of None \<Rightarrow> None | Some v \<Rightarrow> WatchWorkResponse_Payload v)"

definition WatchWorkResponse_GetAssignment :: "'dur pb_WatchWorkResponse option \<Rightarrow> 'dur pb_WorkAssignment option" where
  "WatchWorkResponse_GetAssignment x = (case x of
     None \<Rightarrow> None
   | Some v \<Rightarrow> (case WatchWorkResponse_Payload v of
       Some (WatchWorkResponse_Assignment a) \<Rightarrow> a
     | _ \<Rightarrow> None))"

definition WatchWorkResponse_GetCancel :: "'dur pb_WatchWorkResponse option \<Rightarrow> pb_CancelWork option" where
  "WatchWorkResponse_GetCancel x = (case x of
     None \<Rightarrow> None
   | Some v \<Rightarrow> (case WatchWorkResponse_Payload v of
       Some (WatchWorkResponse_Cancel c) \<Rightarrow> c
     | _ \<Rightarrow> None))"

text \<open>All getters, for the handlers that read requests through them.\<close>

lemmas pb_getters =
  ResourceRequest_GetNodesRequired_def
  ResourceRequest_GetCpusPerNode_def
  ResourceRequest_GetMaxDuration_def
  JobSpec_GetResources_def
  JobSpec_GetCommand_def
  JobSpec_GetArgs_def
  JobSpec_GetEnv_def
  Job_GetId_def
  Job_GetStatus_def
  Job_GetSpec_def
  Job_GetAssignedNodeIds_def
  Job_GetSubmittedAt_def
  Job_GetStartedAt_def
  Job_GetFinishedAt_def
  Job_GetExitCode_def
  Job_GetErrorMessage_def
  NodeSpec_GetId_def
  NodeSpec_GetHostname_def
  NodeSpec_GetAddress_def
  NodeSpec_GetTotalCpus_def
  Node_GetId_def
  Node_GetHostname_def
  Node_GetAddress_def
  Node_GetStatus_def
  Node_GetTotalCpus_def
  Node_GetAllocatedCpus_def
  Node_GetLastHeartbeat_def
  Node_GetCurrentJobId_def
  WorkAssignment_GetJobId_def
  WorkAssignment_GetCommand_def
  WorkAssignment_GetArgs_def
  WorkAssignment_GetEnv_def
  WorkAssignment_GetMaxDuration_def
  WorkAssignment_GetNodeRank_def
  WorkAssignment_GetNnodes_def
  WorkAssignment_GetCpusPerNode_def
  CancelWork_GetJobId_def
  SubmitJobRequest_GetSpec_def
  SubmitJobResponse_GetJob_def
  ListJobsRequest_GetStatuses_def
  ListJobsResponse_GetJobs_def
  CancelJobRequest_GetJobId_def
  CancelJobResponse_GetJob_def
  ListNodesResponse_GetNodes_def
  RegisterNodeRequest_GetSpec_def
  RegisterNodeResponse_GetNodeId_def
  HeartbeatRequest_GetNodeId_def
  HeartbeatRequest_GetAllocatedCpus_def
  HeartbeatRequest_GetCurrentJobId_def
  HeartbeatResponse_GetAcknowledged_def
  HeartbeatResponse_GetCancelJobId_def
  ReportJobStatusRequest_GetNodeId_def
  ReportJobStatusRequest_GetJobId_def
  ReportJobStatusRequest_GetEvent_def
  ReportJobStatusRequest_GetExitCode_def
  ReportJobStatusRequest_GetErrorMessage_def
  ReportJobStatusResponse_GetAcknowledged_def
  WatchWorkRequest_GetNodeId_def
  WatchWorkResponse_GetPayload_def
  WatchWorkResponse_GetAssignment_def
  WatchWorkResponse_GetCancel_def

lemmas pb_enums =
  JobStatus_number_def JobStatus_of_number_def JobStatus_name_def JobStatus_value_def
  NodeStatus_number_def NodeStatus_of_number_def NodeStatus_name_def NodeStatus_value_def
  JobEvent_number_def JobEvent_of_number_def JobEvent_name_def JobEvent_value_def

end
