(* ===== verification/Hub.thy ===== *)
theory Hub
  imports Scheduler Proto
begin

text \<open>
  The hub of \<open>src/internal/controller/hub.go\<close>: a mailbox per node between the scheduler and the
  node's \<open>WatchWork\<close> stream.  A Go channel is a heap object: \<open>hub_chans\<close> holds the channels made so
  far by their address, with their buffer, capacity and closed flag.  \<open>dNew\<close> is \<open>durationpb.New\<close>.
\<close>

section \<open>State\<close>

type_synonym 'dur message = "'dur pb_WatchWorkResponse"

record 'dur Chan =
  ch_buf :: "'dur message list"
  ch_cap :: nat
  ch_closed :: bool

record 'dur Hub =
  hub_sub :: "(string, nat) fmap"
  hub_queue :: "(string, 'dur message list) fmap"
  hub_cancel :: "(string, string) fmap"
  hub_chans :: "(nat, 'dur Chan) fmap"
  hub_next :: nat

definition workBuf :: nat where "workBuf = 16"
definition maxQueue :: nat where "maxQueue = 32"

definition NewHub :: "'dur Hub" where
  "NewHub = \<lparr>hub_sub = fmempty, hub_queue = fmempty, hub_cancel = fmempty, hub_chans = fmempty, hub_next = 0\<rparr>"

text \<open>Indexing the maps: nil and the empty string where the key is absent.\<close>

definition queue_of :: "'dur Hub \<Rightarrow> string \<Rightarrow> 'dur message list" where
  "queue_of h nodeID = (case fmlookup (hub_queue h) nodeID of None \<Rightarrow> [] | Some q \<Rightarrow> q)"

definition cancel_of :: "'dur Hub \<Rightarrow> string \<Rightarrow> string" where
  "cancel_of h nodeID = (case fmlookup (hub_cancel h) nodeID of None \<Rightarrow> [] | Some j \<Rightarrow> j)"

section \<open>Operations\<close>

definition close_chan :: "nat \<Rightarrow> 'dur Hub \<Rightarrow> 'dur Hub" where
  "close_chan ch h = (case fmlookup (hub_chans h) ch of
     None \<Rightarrow> h
   | Some c \<Rightarrow> h\<lparr>hub_chans := fmupd ch (c\<lparr>ch_closed := True\<rparr>) (hub_chans h)\<rparr>)"

text \<open>The capacity leaves room for every queued message, so the sends to the new channel never block.\<close>

definition Subscribe :: "string \<Rightarrow> 'dur Hub \<Rightarrow> nat \<times> 'dur Hub" where
  "Subscribe nodeID h =
     (let h1 = (case fmlookup (hub_sub h) nodeID of
                  None \<Rightarrow> h
                | Some old \<Rightarrow> close_chan old (h\<lparr>hub_sub := fmdrop nodeID (hub_sub h)\<rparr>));
          queued = queue_of h1 nodeID;
          ch = hub_next h1
      in (ch, h1\<lparr>hub_sub := fmupd nodeID ch (hub_sub h1),
                 hub_queue := fmupd nodeID [] (hub_queue h1),
                 hub_chans := fmupd ch \<lparr>ch_buf = queued, ch_cap = workBuf + length queued, ch_closed = False\<rparr> (hub_chans h1),
                 hub_next := hub_next h1 + 1\<rparr>))"

definition Unsubscribe :: "string \<Rightarrow> nat \<Rightarrow> 'dur Hub \<Rightarrow> 'dur Hub" where
  "Unsubscribe nodeID ch h =
     (if fmlookup (hub_sub h) nodeID = Some ch then h\<lparr>hub_sub := fmdrop nodeID (hub_sub h)\<rparr> else h)"

definition enqueue :: "string \<Rightarrow> 'dur message \<Rightarrow> 'dur Hub \<Rightarrow> 'dur Hub" where
  "enqueue nodeID msg h =
     (let q = queue_of h nodeID @ [msg];
          q = (if length q > maxQueue then drop (length q - maxQueue) q else q)
      in h\<lparr>hub_queue := fmupd nodeID q (hub_queue h)\<rparr>)"

text \<open>The non-blocking send: into the subscriber's buffer if there is room, else onto the queue.\<close>

definition send :: "string \<Rightarrow> 'dur message \<Rightarrow> 'dur Hub \<Rightarrow> 'dur Hub" where
  "send nodeID msg h = (case fmlookup (hub_sub h) nodeID of
     None \<Rightarrow> enqueue nodeID msg h
   | Some ch \<Rightarrow> (case fmlookup (hub_chans h) ch of
       None \<Rightarrow> enqueue nodeID msg h
     | Some c \<Rightarrow>
         if length (ch_buf c) < ch_cap c
         then h\<lparr>hub_chans := fmupd ch (c\<lparr>ch_buf := ch_buf c @ [msg]\<rparr>) (hub_chans h)\<rparr>
         else enqueue nodeID msg h))"

definition assignmentToProto :: "(duration \<Rightarrow> 'dur) \<Rightarrow> Assignment \<Rightarrow> 'dur pb_WorkAssignment" where
  "assignmentToProto dNew a =
     \<lparr>WorkAssignment_JobId = as_JobID a,
      WorkAssignment_Command = as_Command a,
      WorkAssignment_Args = as_Args a,
      WorkAssignment_Env = as_Env a,
      WorkAssignment_MaxDuration = (if as_MaxDuration a > 0 then Some (dNew (as_MaxDuration a)) else None),
      WorkAssignment_NodeRank = word_of_int (as_NodeRank a),
      WorkAssignment_Nnodes = word_of_int (as_NNodes a),
      WorkAssignment_CpusPerNode = word_of_int (as_CPUsPerNode a)\<rparr>"

definition assignment_msg :: "(duration \<Rightarrow> 'dur) \<Rightarrow> Assignment \<Rightarrow> 'dur message" where
  "assignment_msg dNew a =
     \<lparr>WatchWorkResponse_Payload = Some (WatchWorkResponse_Assignment (Some (assignmentToProto dNew a)))\<rparr>"

definition cancel_msg :: "string \<Rightarrow> 'dur message" where
  "cancel_msg jobID =
     \<lparr>WatchWorkResponse_Payload = Some (WatchWorkResponse_Cancel (Some \<lparr>CancelWork_JobId = jobID\<rparr>))\<rparr>"

definition Dispatch ::
  "(duration \<Rightarrow> 'dur) \<Rightarrow> string \<Rightarrow> Assignment \<Rightarrow> 'dur Hub \<Rightarrow> go_error option \<times> 'dur Hub" where
  "Dispatch dNew nodeID a h =
     (if nodeID = [] then (Some (Errorf ''node id is empty''), h)
      else (None, send nodeID (assignment_msg dNew a) (h\<lparr>hub_cancel := fmdrop nodeID (hub_cancel h)\<rparr>)))"

fun notify_loop :: "string \<Rightarrow> string list \<Rightarrow> 'dur Hub \<Rightarrow> 'dur Hub" where
  "notify_loop jobID [] h = h"
| "notify_loop jobID (n # ns) h =
     (if n = [] then notify_loop jobID ns h
      else notify_loop jobID ns (send n (cancel_msg jobID) (h\<lparr>hub_cancel := fmupd n jobID (hub_cancel h)\<rparr>)))"

definition NotifyCancel :: "string list \<Rightarrow> string \<Rightarrow> 'dur Hub \<Rightarrow> 'dur Hub" where
  "NotifyCancel nodeIDs jobID h = (if jobID = [] then h else notify_loop jobID nodeIDs h)"

definition PendingCancel :: "string \<Rightarrow> 'dur Hub \<Rightarrow> string" where
  "PendingCancel nodeID h = cancel_of h nodeID"

definition ClearCancel :: "string \<Rightarrow> string \<Rightarrow> 'dur Hub \<Rightarrow> 'dur Hub" where
  "ClearCancel nodeID jobID h =
     (if cancel_of h nodeID = jobID then h\<lparr>hub_cancel := fmdrop nodeID (hub_cancel h)\<rparr> else h)"

text \<open>
  The other end of a channel: what \<open>msg, ok := <-ch\<close> does in the \<open>WatchWork\<close> handler.
\<close>

datatype 'dur recv = Received "'dur message" | ChanClosed | Blocked

definition receive :: "nat \<Rightarrow> 'dur Hub \<Rightarrow> 'dur recv \<times> 'dur Hub" where
  "receive ch h = (case fmlookup (hub_chans h) ch of
     None \<Rightarrow> (Blocked, h)
   | Some c \<Rightarrow> (case ch_buf c of
       msg # rest \<Rightarrow> (Received msg, h\<lparr>hub_chans := fmupd ch (c\<lparr>ch_buf := rest\<rparr>) (hub_chans h)\<rparr>)
     | [] \<Rightarrow> (if ch_closed c then ChanClosed else Blocked, h)))"

text \<open>\<open>Failer\<close>: the job-failure interface of the monitor, over the job manager and the hub.\<close>

definition Failer_FailRunningJob ::
  "instant \<Rightarrow> string \<Rightarrow> string \<Rightarrow> JobManager option \<times> 'dur Hub option \<Rightarrow>
   (string list \<times> int) option \<times> (JobManager option \<times> 'dur Hub option)" where
  "Failer_FailRunningJob now jid reason f = (case f of
     (None, h) \<Rightarrow> (None, (None, h))
   | (Some m, h) \<Rightarrow>
       (case FailRunningJob now jid reason m of
          (None, m') \<Rightarrow> (None, (Some m', h))
        | (Some (ids, cpus), m') \<Rightarrow> (Some (ids, cpus), (Some m', map_option (NotifyCancel ids jid) h))))"

section \<open>The invariant\<close>

text \<open>
  A subscriber's channel is one that was made, is open, and belongs to no other node; buffers are
  within capacity and queues within \<open>maxQueue\<close>.
\<close>

definition hub_inv :: "'dur Hub \<Rightarrow> bool" where
  "hub_inv h \<longleftrightarrow>
     (\<forall>n ch. fmlookup (hub_sub h) n = Some ch \<longrightarrow> ch < hub_next h \<and>
        (\<exists>c. fmlookup (hub_chans h) ch = Some c \<and> \<not> ch_closed c)) \<and>
     (\<forall>n n' ch. fmlookup (hub_sub h) n = Some ch \<longrightarrow> fmlookup (hub_sub h) n' = Some ch \<longrightarrow> n = n') \<and>
     (\<forall>ch c. fmlookup (hub_chans h) ch = Some c \<longrightarrow> length (ch_buf c) \<le> ch_cap c) \<and>
     (\<forall>n. length (queue_of h n) \<le> maxQueue)"

lemma queue_of_upd: "queue_of (h\<lparr>hub_queue := fmupd n q (hub_queue h)\<rparr>) n' = (if n' = n then q else queue_of h n')"
  by (simp add: queue_of_def)

lemma queue_of_others [simp]:
  "queue_of (h\<lparr>hub_sub := a\<rparr>) n = queue_of h n" "queue_of (h\<lparr>hub_cancel := b\<rparr>) n = queue_of h n"
  "queue_of (h\<lparr>hub_chans := c\<rparr>) n = queue_of h n" "queue_of (h\<lparr>hub_next := d\<rparr>) n = queue_of h n"
  by (simp_all add: queue_of_def)

lemma hub_inv_cancel [simp]: "hub_inv (h\<lparr>hub_cancel := x\<rparr>) = hub_inv h"
  by (simp add: hub_inv_def)

lemma hub_inv_NewHub [inv_intros]: "hub_inv NewHub"
  by (simp add: hub_inv_def NewHub_def queue_of_def)

lemma hub_inv_unsub: "hub_inv h \<Longrightarrow> hub_inv (h\<lparr>hub_sub := fmdrop n (hub_sub h)\<rparr>)"
  by (simp add: hub_inv_def)

lemma hub_inv_Unsubscribe [inv_intros]: "hub_inv h \<Longrightarrow> hub_inv (Unsubscribe n ch h)"
  by (simp add: Unsubscribe_def hub_inv_unsub)

lemma hub_inv_enqueue [inv_intros]: "hub_inv h \<Longrightarrow> hub_inv (enqueue n msg h)"
  by (auto simp: hub_inv_def enqueue_def Let_def queue_of_upd)

lemma hub_inv_buf:
  assumes "hub_inv h" "fmlookup (hub_chans h) ch = Some c" "length b \<le> ch_cap c"
  shows "hub_inv (h\<lparr>hub_chans := fmupd ch (c\<lparr>ch_buf := b\<rparr>) (hub_chans h)\<rparr>)"
  using assms unfolding hub_inv_def by (auto simp: ) (metis option.inject)+

lemma hub_inv_send [inv_intros]: "hub_inv h \<Longrightarrow> hub_inv (send n msg h)"
  by (auto simp: send_def hub_inv_enqueue intro!: hub_inv_buf split: option.split)

lemma hub_inv_close:
  assumes "hub_inv h" "fmlookup (hub_sub h) n = Some old"
  shows "hub_inv (close_chan old (h\<lparr>hub_sub := fmdrop n (hub_sub h)\<rparr>))"
  using assms unfolding hub_inv_def close_chan_def by (auto split: option.splits)

lemma hub_inv_open:
  assumes "hub_inv h" "length q \<le> k"
  shows "hub_inv (h\<lparr>hub_sub := fmupd n (hub_next h) (hub_sub h), hub_queue := fmupd n [] (hub_queue h),
    hub_chans := fmupd (hub_next h) \<lparr>ch_buf = q, ch_cap = k, ch_closed = False\<rparr> (hub_chans h),
    hub_next := Suc (hub_next h)\<rparr>)"
  using assms unfolding hub_inv_def
  by (auto simp: queue_of_def less_Suc_eq split: if_splits)

lemma hub_inv_Subscribe [inv_intros]:
  assumes "hub_inv h"
  shows "hub_inv (snd (Subscribe n h))"
  using assms by (auto simp: Subscribe_def Let_def intro!: hub_inv_open hub_inv_close split: option.split)

lemma hub_inv_ClearCancel [inv_intros]: "hub_inv h \<Longrightarrow> hub_inv (ClearCancel n j h)"
  by (simp add: ClearCancel_def)

lemma hub_inv_receive [inv_intros]: "hub_inv h \<Longrightarrow> hub_inv (snd (receive ch h))"
  by (fastforce simp: receive_def hub_inv_def intro!: hub_inv_buf split: option.split list.split)

lemma hub_inv_Dispatch [inv_intros]: "hub_inv h \<Longrightarrow> hub_inv (snd (Dispatch dNew n a h))"
  by (simp add: Dispatch_def hub_inv_send)

section \<open>Every sequence of locked sections\<close>

text \<open>
  \<open>Dispatch\<close> and \<open>NotifyCancel\<close> take the hub's mutex more than once, so other callers can get in
  between; the operations of the component are the locked sections, and the receive of a stream.
\<close>

datatype 'dur hub_op =
    SubscribeOp string
  | UnsubscribeOp string nat
  | DropCancelOp string
  | SetCancelOp string string
  | SendOp string "'dur message"
  | ClearCancelOp string string
  | ReceiveOp nat

fun hub_apply :: "'dur hub_op \<Rightarrow> 'dur Hub \<Rightarrow> 'dur Hub" where
  "hub_apply (SubscribeOp n) h = snd (Subscribe n h)"
| "hub_apply (UnsubscribeOp n ch) h = Unsubscribe n ch h"
| "hub_apply (DropCancelOp n) h = h\<lparr>hub_cancel := fmdrop n (hub_cancel h)\<rparr>"
| "hub_apply (SetCancelOp n j) h = h\<lparr>hub_cancel := fmupd n j (hub_cancel h)\<rparr>"
| "hub_apply (SendOp n msg) h = send n msg h"
| "hub_apply (ClearCancelOp n j) h = ClearCancel n j h"
| "hub_apply (ReceiveOp ch) h = snd (receive ch h)"

lemma Dispatch_sections:
  "n \<noteq> [] \<Longrightarrow> snd (Dispatch dNew n a h) = fold hub_apply [DropCancelOp n, SendOp n (assignment_msg dNew a)] h"
  by (simp add: Dispatch_def)

lemma notify_loop_sections:
  "notify_loop j ns h = fold hub_apply (concat (map (\<lambda>n. [SetCancelOp n j, SendOp n (cancel_msg j)]) (filter (\<lambda>n. n \<noteq> []) ns))) h"
  by (induction j ns h rule: notify_loop.induct) simp_all

lemma hub_inv_apply [inv_intros]: "hub_inv h \<Longrightarrow> hub_inv (hub_apply c h)"
  by (cases c) (simp_all add: inv_intros)

interpretation hub: guarded_component NewHub hub_apply hub_inv
  by unfold_locales (simp_all add: inv_intros)

lemma hub_inv_NotifyCancel [inv_intros]: "hub_inv h \<Longrightarrow> hub_inv (NotifyCancel ns j h)"
  by (simp add: NotifyCancel_def notify_loop_sections hub.inv_from)

abbreviation hub_run :: "'dur hub_op list \<Rightarrow> 'dur Hub" where
  "hub_run cs \<equiv> fold hub_apply cs NewHub"

section \<open>The hub as the scheduler's dispatcher\<close>

text \<open>What will still reach a node: the buffer of its current stream, then its queue.\<close>

definition stream_buf :: "'dur Hub \<Rightarrow> string \<Rightarrow> 'dur message list" where
  "stream_buf h n = (case fmlookup (hub_sub h) n of None \<Rightarrow> []
     | Some ch \<Rightarrow> (case fmlookup (hub_chans h) ch of None \<Rightarrow> [] | Some c \<Rightarrow> ch_buf c))"

definition mailbox :: "'dur Hub \<Rightarrow> string \<Rightarrow> 'dur message list" where
  "mailbox h n = stream_buf h n @ queue_of h n"

lemma mailbox_cancel [simp]: "mailbox (h\<lparr>hub_cancel := x\<rparr>) n = mailbox h n"
  by (simp add: mailbox_def stream_buf_def split: option.splits)

lemma stream_buf_enqueue [simp]: "stream_buf (enqueue n msg h) n' = stream_buf h n'"
  by (simp add: stream_buf_def enqueue_def Let_def split: option.splits)

lemma queue_of_enqueue:
  "queue_of (enqueue n msg h) n' =
     (if n' = n then drop (length (queue_of h n) + 1 - maxQueue) (queue_of h n @ [msg]) else queue_of h n')"
  by (simp add: enqueue_def Let_def queue_of_upd)

lemma enqueue_delivers: "msg \<in> set (queue_of (enqueue n msg h) n)"
  by (simp add: queue_of_enqueue maxQueue_def)

text \<open>The stream has room for another message.\<close>

definition room :: "'dur Hub \<Rightarrow> string \<Rightarrow> bool" where
  "room h n = (case fmlookup (hub_sub h) n of None \<Rightarrow> False
     | Some ch \<Rightarrow> (case fmlookup (hub_chans h) ch of None \<Rightarrow> False | Some c \<Rightarrow> length (ch_buf c) < ch_cap c))"

lemma send_no_room: "\<not> room h n \<Longrightarrow> send n msg h = enqueue n msg h"
  by (auto simp: send_def room_def split: option.splits)

lemma send_room:
  assumes "hub_inv h" "room h n"
  shows "stream_buf (send n msg h) n' = stream_buf h n' @ (if n' = n then [msg] else [])"
    "queue_of (send n msg h) n' = queue_of h n'"
  using assms by (auto simp: send_def room_def stream_buf_def hub_inv_def split: option.splits)

lemma send_delivers: "hub_inv h \<Longrightarrow> msg \<in> set (mailbox (send n msg h) n)"
  by (cases "room h n") (simp_all add: mailbox_def send_room send_no_room enqueue_delivers)

lemma send_frame: "hub_inv h \<Longrightarrow> n' \<noteq> n \<Longrightarrow> mailbox (send n msg h) n' = mailbox h n'"
  by (cases "room h n") (simp_all add: mailbox_def send_room send_no_room queue_of_enqueue)

interpretation hub_disp: dispatcher "Dispatch dNew" mailbox "assignment_msg dNew" hub_inv
  by unfold_locales (simp_all add: Dispatch_def send_delivers send_frame hub_inv_send)

text \<open>
  Sends to a mailbox in which order is kept: either the stream takes the message and nothing waits
  behind it, or there is no room and the queue takes it without losing its oldest entry.
\<close>

definition in_order :: "string \<Rightarrow> 'dur message \<Rightarrow> 'dur Hub \<Rightarrow> bool" where
  "in_order n msg h \<longleftrightarrow> hub_inv h \<and> (if room h n then queue_of h n = [] else length (queue_of h n) < maxQueue)"

lemma mailbox_send: "in_order n msg h \<Longrightarrow> mailbox (send n msg h) n = mailbox h n @ [msg]"
  by (cases "room h n")
    (simp_all add: in_order_def mailbox_def send_room send_no_room queue_of_enqueue)

definition next_message :: "string \<Rightarrow> 'dur Hub \<Rightarrow> 'dur message option" where
  "next_message n h = (case mailbox h n of [] \<Rightarrow> None | msg # _ \<Rightarrow> Some msg)"

interpretation hub_fifo: fifo_queue "send n" "next_message n" "\<lambda>msg. msg" "\<lambda>h. mailbox h n" "in_order n"
  by unfold_locales (simp_all add: mailbox_send next_message_def)

section \<open>Properties\<close>

text \<open>C29.  When scheduling succeeds over the hub, every node of the gang has in its mailbox an assignment
  of the job with its own rank and the size of the gang, and no other mailbox is touched.\<close>

theorem gang_assignments_reach_nodes:
  assumes "sched_inv s" "hub_inv (dispatch s)" "trySchedule (Some (Dispatch dNew)) t1 t2 s = (True, s')"
  shows "hub_inv (dispatch s') \<and>
     (\<exists>j ids. fmlookup (jobs (jobManager s')) (job_ID j) = Some j \<and> job_Status j = StatusRunning \<and>
        AssignedNodeIDs j = ids \<and> PeekPendingJob (jobManager s) \<noteq> None \<and>
        (\<forall>i < length ids. assignment_msg dNew (assignment_for j (int i) (int (length ids)))
                            \<in> set (mailbox (dispatch s') (ids ! i))) \<and>
        (\<forall>n. n \<notin> set ids \<longrightarrow> mailbox (dispatch s') n = mailbox (dispatch s) n))"
proof -
  obtain j :: Job and ids where peek: "PeekPendingJob (jobManager s) = Some j"
    and sel: "SelectGang (ListNodes (registry s)) (Resources (job_Spec j)) = Some ids"
    and mark: "JM_MarkRunning t1 (job_ID j) ids (jobManager s) = (None, jobManager s')"
    and work: "dispatchWork (Some (Dispatch dNew)) j ids (dispatch s) = (None, dispatch s')"
    by (rule trySchedule_True [OF assms(3)]) (rule that)
  from assms(1) have jm: "jm_inv (jobManager s)" and use: "reg_usable (registry s)" by (simp_all add: sched_inv_def)
  let ?j = "j\<lparr>job_Status := StatusRunning, AssignedNodeIDs := ids, StartedAt := t1\<rparr>"
  have same: "assignment_for ?j = assignment_for j"
    by (simp add: assignment_for_def assignmentEnv_def fun_eq_iff)
  have "jobManager s' = snd (JM_MarkRunning t1 (job_ID j) ids (jobManager s))" using mark by simp
  then have job: "fmlookup (jobs (jobManager s')) (job_ID ?j) = Some ?j"
    by (simp add: MarkRunning_pending [OF peek_head(1,2) [OF jm peek]])
  note ne = sched_selected_nonempty [OF assms(1) sel]
  have d: "dispatch s' = snd (dispatchWork (Some (Dispatch dNew)) j ids (dispatch s))" using work by simp
  have "hub_inv (dispatch s')" unfolding d by (rule hub_disp.work_ready [OF ne assms(2)])
  moreover have "\<forall>i < length ids. assignment_msg dNew (assignment_for ?j (int i) (int (length ids)))
      \<in> set (mailbox (dispatch s') (ids ! i))"
    unfolding d same using hub_disp.work_delivers [OF ne assms(2) pool.selected_distinct [OF use sel]] by blast
  moreover have "\<forall>n. n \<notin> set ids \<longrightarrow> mailbox (dispatch s') n = mailbox (dispatch s) n"
    unfolding d using hub_disp.work_frame [OF ne assms(2)] by blast
  ultimately show ?thesis using job peek by (intro conjI exI [of _ ?j] exI [of _ ids]) simp_all
qed

definition sample_hub_scheduler :: "int Hub Scheduler" where
  "sample_hub_scheduler = Make_Scheduler (Some (jobManager sample_scheduler)) (Some sample_registry) NewHub"

lemma sample_hub_scheduler_inv: "sched_inv sample_hub_scheduler"
  using sample_scheduler_inv
  by (simp add: sched_inv_def sample_hub_scheduler_def Make_Scheduler_def sample_scheduler_def)

lemma sample_hub_attempt:
  "trySchedule (Some (Dispatch (\<lambda>d. d))) 5 6 sample_hub_scheduler =
     (True, snd (trySchedule (Some (Dispatch (\<lambda>d. d))) 5 6 sample_hub_scheduler))"
proof -
  have p: "PeekPendingJob (jobManager sample_hub_scheduler) = Some (sample_job ''a'' 2)"
    using sample_peek by (simp add: sample_hub_scheduler_def Make_Scheduler_def)
  have g: "SelectGang (ListNodes (registry sample_hub_scheduler)) (Resources (job_Spec (sample_job ''a'' 2))) =
      Some [''n1'', ''n2'']"
    using sample_gang by (simp add: sample_hub_scheduler_def Make_Scheduler_def sample_scheduler_def)
  show ?thesis
    using hub_disp.work_ok [of "[''n1'', ''n2'']" "\<lambda>d. d" "sample_job ''a'' 2" "dispatch sample_hub_scheduler"]
    by (auto simp: trySchedule_eq [OF sample_hub_scheduler_inv p g] split: prod.split option.split)
qed

theorem gang_assignments_reach_nodes_witness:
  "hub_inv (dispatch (snd (trySchedule (Some (Dispatch (\<lambda>d. d))) 5 6 sample_hub_scheduler)))"
proof -
  have "hub_inv (dispatch sample_hub_scheduler)"
    by (simp add: sample_hub_scheduler_def Make_Scheduler_def hub_inv_NewHub)
  from gang_assignments_reach_nodes [OF sample_hub_scheduler_inv this sample_hub_attempt] show ?thesis by simp
qed

text \<open>C30.  Under every interleaving of the hub's callers and streams each queue holds at most
  \<open>maxQueue\<close> messages, each channel at most its capacity, and the channel a message is sent to is open
  and serves one node, so a send never panics.\<close>

theorem hub_is_bounded_and_never_sends_on_closed:
  "length (queue_of (hub_run cs) n) \<le> maxQueue \<and>
   (\<forall>ch c. fmlookup (hub_chans (hub_run cs)) ch = Some c \<longrightarrow> length (ch_buf c) \<le> ch_cap c) \<and>
   (\<forall>ch. fmlookup (hub_sub (hub_run cs)) n = Some ch \<longrightarrow>
      (\<exists>c. fmlookup (hub_chans (hub_run cs)) ch = Some c \<and> \<not> ch_closed c) \<and>
      (\<forall>n'. fmlookup (hub_sub (hub_run cs)) n' = Some ch \<longrightarrow> n' = n))"
  using hub.inv_run [of cs] unfolding hub_inv_def by blast

theorem hub_is_bounded_and_never_sends_on_closed_witness:
  "length (queue_of (hub_run [SendOp ''n'' (cancel_msg ''j'')]) ''n'') \<le> maxQueue"
  using hub_is_bounded_and_never_sends_on_closed [of "[SendOp ''n'' (cancel_msg ''j'')]" "''n''"] by (rule conjunct1)

text \<open>Messages for a node without a stream.\<close>

lemma send_offline:
  assumes "fmlookup (hub_sub h) n = None"
  shows "queue_of (send n msg h) n = keep_last maxQueue (queue_of h n @ [msg])"
    "hub_sub (send n msg h) = hub_sub h"
  using assms by (simp_all add: send_def queue_of_enqueue keep_last_def, simp_all add: enqueue_def Let_def)

lemma send_all_offline:
  assumes "fmlookup (hub_sub h) n = None" "length (queue_of h n) \<le> maxQueue"
  shows "queue_of (fold (send n) msgs h) n = keep_last maxQueue (queue_of h n @ msgs) \<and>
    hub_sub (fold (send n) msgs h) = hub_sub h"
  using assms
proof (induction msgs arbitrary: h)
  case (Cons m ms)
  have "fmlookup (hub_sub (send n m h)) n = None" using Cons.prems by (simp add: send_offline)
  moreover have "length (queue_of (send n m h) n) \<le> maxQueue"
    using Cons.prems by (simp add: send_offline keep_last_def)
  ultimately show ?case using Cons.IH [of "send n m h"] Cons.prems by (simp add: send_offline)
qed simp

lemma Subscribe_mailbox:
  shows "stream_buf (snd (Subscribe n h)) n = queue_of h n" "queue_of (snd (Subscribe n h)) n = []"
    and "fmlookup (hub_sub (snd (Subscribe n h))) n = Some (fst (Subscribe n h))"
    and "mailbox (snd (Subscribe n h)) n = queue_of h n"
  by (auto simp: Subscribe_def Let_def stream_buf_def queue_of_def close_chan_def mailbox_def split: option.split)

lemma stream_buf_close:
  "fmlookup (hub_sub h) n' \<noteq> Some ch \<Longrightarrow> stream_buf (close_chan ch h) n' = stream_buf h n'"
  by (auto simp: stream_buf_def close_chan_def split: option.split)

lemma mailbox_open:
  assumes "n' \<noteq> n" "fmlookup (hub_sub h) n' \<noteq> Some ch" "fmlookup m n' = fmlookup (hub_sub h) n'"
  shows "mailbox (h\<lparr>hub_sub := fmupd n x m, hub_queue := fmupd n q (hub_queue h),
    hub_chans := fmupd ch c (hub_chans h), hub_next := d\<rparr>) n' = mailbox h n'"
  using assms by (auto simp: mailbox_def stream_buf_def queue_of_def split: option.split)

lemma close_chan_simps [simp]:
  "hub_sub (close_chan ch h) = hub_sub h" "hub_next (close_chan ch h) = hub_next h"
  "queue_of (close_chan ch h) n = queue_of h n"
  by (simp_all add: close_chan_def split: option.split)

lemma mailbox_close:
  "fmlookup (hub_sub h) n' \<noteq> Some ch \<Longrightarrow> mailbox (close_chan ch h) n' = mailbox h n'"
  by (simp add: mailbox_def stream_buf_close)

lemma mailbox_drop_sub [simp]: "n' \<noteq> n \<Longrightarrow> mailbox (h\<lparr>hub_sub := fmdrop n (hub_sub h)\<rparr>) n' = mailbox h n'"
  by (simp add: mailbox_def stream_buf_def split: option.split)

lemma Subscribe_frame:
  assumes "hub_inv h" "n' \<noteq> n"
  shows "mailbox (snd (Subscribe n h)) n' = mailbox h n'"
proof -
  have new: "fmlookup (hub_sub h) n' \<noteq> Some (hub_next h)"
    using assms(1) unfolding hub_inv_def by blast
  have old: "fmlookup (hub_sub h) n' \<noteq> Some ch" if "fmlookup (hub_sub h) n = Some ch" for ch
    using assms that unfolding hub_inv_def by blast
  show ?thesis
  proof (cases "fmlookup (hub_sub h) n")
    case None
    with new assms(2) show ?thesis by (simp add: Subscribe_def Let_def mailbox_open)
  next
    case (Some ch)
    have "mailbox (close_chan ch (h\<lparr>hub_sub := fmdrop n (hub_sub h)\<rparr>)) n' = mailbox h n'"
      using old [OF Some] assms(2)
      by (simp add: mailbox_close)
    with Some new assms(2) show ?thesis by (simp add: Subscribe_def Let_def mailbox_open)
  qed
qed

text \<open>C31.  Messages sent while a node has no stream wait in its queue: when it subscribes, its new
  stream starts with the last \<open>maxQueue\<close> of them in the order they were sent, nothing stays queued,
  and the other nodes' mailboxes are as before.\<close>

theorem offline_messages_reach_next_stream:
  assumes "hub_inv h" "fmlookup (hub_sub h) n = None"
  shows "mailbox (snd (Subscribe n (fold (send n) msgs h))) n = keep_last maxQueue (queue_of h n @ msgs) \<and>
     stream_buf (snd (Subscribe n (fold (send n) msgs h))) n = keep_last maxQueue (queue_of h n @ msgs) \<and>
     (\<forall>n'. n' \<noteq> n \<longrightarrow> mailbox (snd (Subscribe n (fold (send n) msgs h))) n' = mailbox h n')"
proof -
  have run: "hub_inv (fold (send n) msgs h) \<and> (\<forall>n'. n' \<noteq> n \<longrightarrow> mailbox (fold (send n) msgs h) n' = mailbox h n')"
    using assms(1) by (induction msgs arbitrary: h) (simp_all add: hub_inv_send send_frame)
  have "length (queue_of h n) \<le> maxQueue" using assms(1) by (simp add: hub_inv_def)
  from send_all_offline [OF assms(2) this] run show ?thesis
    by (simp add: Subscribe_mailbox Subscribe_frame)
qed

lemma sample_queue: "queue_of NewHub n = []"
  by (simp add: queue_of_def NewHub_def)

theorem offline_messages_reach_next_stream_witness:
  "stream_buf (snd (Subscribe ''n'' (fold (send ''n'') [cancel_msg ''a'', cancel_msg ''b''] (NewHub :: int Hub)))) ''n'' =
     [cancel_msg ''a'', cancel_msg ''b'']"
proof -
  have "fmlookup (hub_sub (NewHub :: int Hub)) ''n'' = None" by (simp add: NewHub_def)
  from offline_messages_reach_next_stream [OF hub_inv_NewHub this, of "[cancel_msg ''a'', cancel_msg ''b'']"]
  show ?thesis by (simp add: sample_queue maxQueue_def)
qed

text \<open>A stream that has room for them all delivers messages in the order they were sent, after those
  it already holds.\<close>

theorem stream_keeps_order:
  assumes "hub_inv h" "fmlookup (hub_sub h) n = Some ch" "fmlookup (hub_chans h) ch = Some c"
    and "queue_of h n = []" "length (ch_buf c) + length msgs \<le> ch_cap c"
  shows "mailbox (fold (send n) msgs h) n = ch_buf c @ msgs \<and>
     fmlookup (hub_chans (fold (send n) msgs h)) ch = Some (c\<lparr>ch_buf := ch_buf c @ msgs\<rparr>)"
  using assms
proof (induction msgs arbitrary: h c)
  case Nil
  then show ?case by (simp add: mailbox_def stream_buf_def)
next
  case (Cons m ms)
  let ?c = "c\<lparr>ch_buf := ch_buf c @ [m]\<rparr>"
  have "send n m h = h\<lparr>hub_chans := fmupd ch ?c (hub_chans h)\<rparr>"
    using Cons.prems by (simp add: send_def)
  then show ?case
    using Cons.IH [of "send n m h" ?c] Cons.prems hub_inv_send [OF Cons.prems(1), of n m] by simp
qed

theorem stream_keeps_order_witness:
  "mailbox (fold (send ''n'') [cancel_msg ''a'', cancel_msg ''b''] (snd (Subscribe ''n'' (NewHub :: int Hub)))) ''n'' =
     [cancel_msg ''a'', cancel_msg ''b'']"
proof -
  let ?h = "snd (Subscribe ''n'' (NewHub :: int Hub))"
  have "fmlookup (hub_sub ?h) ''n'' = Some 0"
    "fmlookup (hub_chans ?h) 0 = Some \<lparr>ch_buf = [], ch_cap = 16, ch_closed = False\<rparr>" "queue_of ?h ''n'' = []"
    by (simp_all add: Subscribe_def Let_def NewHub_def queue_of_def workBuf_def)
  from stream_keeps_order [OF hub_inv_Subscribe [OF hub_inv_NewHub] this, of "[cancel_msg ''a'', cancel_msg ''b'']"]
  show ?thesis by simp
qed

text \<open>When a stream ends, whatever its channel still buffers is gone: the node's next stream starts
  with the queue alone.\<close>

theorem ended_stream_drops_buffer:
  assumes "hub_inv h" "fmlookup (hub_sub h) n = Some ch"
  shows "mailbox h n = stream_buf h n @ mailbox (snd (Subscribe n (Unsubscribe n ch h))) n \<and>
     (\<forall>n'. n' \<noteq> n \<longrightarrow> mailbox (snd (Subscribe n (Unsubscribe n ch h))) n' = mailbox h n')"
  using assms(2) Subscribe_frame [OF hub_inv_Unsubscribe [OF assms(1), of n ch]]
  by (simp add: Subscribe_mailbox Unsubscribe_def mailbox_def [of h n])

theorem ended_stream_drops_buffer_witness:
  "mailbox (send ''n'' (cancel_msg ''a'') (snd (Subscribe ''n'' (NewHub :: int Hub)))) ''n'' = [cancel_msg ''a''] \<and>
   mailbox (snd (Subscribe ''n'' (Unsubscribe ''n'' 0
     (send ''n'' (cancel_msg ''a'') (snd (Subscribe ''n'' (NewHub :: int Hub))))))) ''n'' = []"
proof -
  let ?h = "send ''n'' (cancel_msg ''a'') (snd (Subscribe ''n'' (NewHub :: int Hub)))"
  have h: "hub_inv ?h" by (intro inv_intros)
  have s: "fmlookup (hub_sub ?h) ''n'' = Some 0" "stream_buf ?h ''n'' = [cancel_msg ''a'']" "mailbox ?h ''n'' = [cancel_msg ''a'']"
    by (simp_all add: Subscribe_def Let_def NewHub_def queue_of_def workBuf_def send_def stream_buf_def mailbox_def)
  from ended_stream_drops_buffer [OF h s(1)] s show ?thesis by simp
qed

lemma queue_of_send:
  "queue_of (send n msg h) n' = queue_of h n' \<or>
   n' = n \<and> queue_of (send n msg h) n' = keep_last maxQueue (queue_of h n @ [msg])"
  by (simp add: send_def queue_of_enqueue keep_last_def split: option.split)

lemma queue_of_receive: "queue_of (snd (receive ch h)) n = queue_of h n"
  by (simp add: receive_def split: option.split list.split)

text \<open>Only a new subscription takes messages off a node's queue: whatever else happens, each
  locked section leaves the queue as it is or adds one message at its end (losing the oldest beyond
  \<open>maxQueue\<close>).  In particular a stream that drains its channel does not get the messages that were
  queued while the channel was full.\<close>

theorem only_subscribing_empties_queue:
  assumes "\<And>n'. c = SubscribeOp n' \<Longrightarrow> n' \<noteq> n"
  shows "queue_of (hub_apply c h) n = queue_of h n \<or>
     (\<exists>msg. c = SendOp n msg \<and> queue_of (hub_apply c h) n = keep_last maxQueue (queue_of h n @ [msg]))"
proof (cases c)
  case (SubscribeOp n')
  with assms have "n' \<noteq> n" by blast
  with SubscribeOp show ?thesis by (simp add: Subscribe_def Let_def queue_of_def close_chan_def split: option.split)
next
  case (SendOp n' msg)
  then show ?thesis using queue_of_send [of n' msg h n] by auto
qed (simp_all add: Unsubscribe_def ClearCancel_def queue_of_receive)

theorem only_subscribing_empties_queue_witness:
  "queue_of (hub_apply (ReceiveOp 0) (NewHub :: int Hub)) ''n'' = queue_of (NewHub :: int Hub) ''n''"
  using only_subscribing_empties_queue [of "ReceiveOp 0" "''n''" "NewHub :: int Hub"] by simp

lemma cancel_of_send [simp]: "cancel_of (send n msg h) n' = cancel_of h n'"
  by (simp add: send_def enqueue_def Let_def cancel_of_def split: option.split)

lemma cancel_of_notify: "cancel_of (notify_loop j ns h) n = (if n \<in> set ns \<and> n \<noteq> [] then j else cancel_of h n)"
  by (induction j ns h rule: notify_loop.induct) (auto simp: cancel_of_def [of "_\<lparr>hub_cancel := _\<rparr>"] simp flip: cancel_of_def)

text \<open>The heartbeat fallback for cancellation: after \<open>NotifyCancel\<close> each named node's heartbeat
  answers the job, until a new assignment is dispatched to it or it acknowledges that very job;
  every other node's answer stays.\<close>

theorem cancel_fallback:
  assumes "j \<noteq> []" "n \<noteq> []"
  shows "PendingCancel n (NotifyCancel ns j h) = (if n \<in> set ns then j else PendingCancel n h) \<and>
     PendingCancel n (snd (Dispatch dNew n a h)) = [] \<and>
     PendingCancel n (ClearCancel n j h) = (if PendingCancel n h = j then [] else PendingCancel n h) \<and>
     (n' \<noteq> n \<longrightarrow> PendingCancel n (ClearCancel n' j h) = PendingCancel n h \<and>
        PendingCancel n (snd (Dispatch dNew n' a h)) = PendingCancel n h)"
  using assms
  by (simp add: PendingCancel_def NotifyCancel_def cancel_of_notify Dispatch_def ClearCancel_def)
    (simp add: cancel_of_def)

theorem cancel_fallback_witness:
  "PendingCancel ''n'' (NotifyCancel [''m'', ''n''] ''j'' (NewHub :: int Hub)) = ''j''"
  using cancel_fallback [of "''j''" "''n''" "[''m'', ''n'']" "NewHub :: int Hub" "\<lambda>d. d"] by simp

end
