(* ===== verification/Monitor.thy ===== *)
theory Monitor
  imports Hub
begin

text \<open>
  Liveness: the heartbeat monitor of \<open>src/internal/cluster/heartbeat.go\<close> and the handling of lost
  nodes in \<open>src/internal/cluster/reaper.go\<close>.  The registry is shared with the rest of the controller,
  so it is passed to and from the operations; the \<open>JobFailure\<close> interface is an argument over its own
  state \<open>'f\<close>, absent (\<open>None\<close>) where the Go field is nil.  Where a loop reads the clock on each turn,
  \<open>clk i\<close> is the reading of turn \<open>i\<close>.
\<close>

section \<open>State\<close>

definition DefaultHeartbeatTimeout :: duration where "DefaultHeartbeatTimeout = 5 * Second"
definition heartbeatQueueSize :: nat where "heartbeatQueueSize = 256"

type_synonym 'f job_failure_fn = "instant \<Rightarrow> string \<Rightarrow> string \<Rightarrow> 'f \<Rightarrow> (string list \<times> int) option \<times> 'f"

record Monitor =
  heartbeats :: "string list"
  mon_timeout :: duration
  mon_interval :: duration

definition MakeMonitor :: "Registry option \<Rightarrow> duration \<Rightarrow> duration \<Rightarrow> Monitor \<times> Registry" where
  "MakeMonitor reg timeout interval =
     (let reg = (case reg of None \<Rightarrow> Make_Registry | Some r \<Rightarrow> r);
          timeout = (if timeout \<le> 0 then DefaultHeartbeatTimeout else timeout);
          interval = (if interval \<le> 0
                      then (let i = timeout div 3 in if i < Millisecond then Millisecond else i)
                      else interval)
      in (\<lparr>heartbeats = [], mon_timeout = timeout, mon_interval = interval\<rparr>, reg))"

section \<open>Operations\<close>

definition Record :: "string \<Rightarrow> Monitor \<Rightarrow> Monitor" where
  "Record nodeID m =
     (if nodeID = [] then m
      else if length (heartbeats m) < heartbeatQueueSize then m\<lparr>heartbeats := heartbeats m @ [nodeID]\<rparr>
      else m)"

fun drain_loop :: "(nat \<Rightarrow> instant) \<Rightarrow> string list \<Rightarrow> Registry \<Rightarrow> Registry" where
  "drain_loop clk [] r = r"
| "drain_loop clk (nodeID # ids) r = drain_loop (\<lambda>i. clk (Suc i)) ids (snd (Touch (clk 0) nodeID r))"

definition drainHeartbeats :: "(nat \<Rightarrow> instant) \<Rightarrow> Monitor \<Rightarrow> Registry \<Rightarrow> Monitor \<times> Registry" where
  "drainHeartbeats clk m r = (m\<lparr>heartbeats := []\<rparr>, drain_loop clk (heartbeats m) r)"

fun dead_loop ::
  "'f job_failure_fn option \<Rightarrow> (nat \<Rightarrow> instant) \<Rightarrow> string fset \<Rightarrow> Node list \<Rightarrow> Registry \<Rightarrow> 'f \<Rightarrow> Registry \<times> 'f" where
  "dead_loop jf clk seen [] r f = (r, f)"
| "dead_loop jf clk seen (n # dead) r f =
     (if CurrentJobID n = [] then dead_loop jf (\<lambda>i. clk (Suc i)) seen dead r f
      else if CurrentJobID n |\<in>| seen then dead_loop jf (\<lambda>i. clk (Suc i)) seen dead r f
      else
        let seen = finsert (CurrentJobID n) seen;
            reason = ''node '' @ node_ID n @ '' lost''
        in (case jf of
              None \<Rightarrow> dead_loop jf (\<lambda>i. clk (Suc i)) seen dead (ReleaseNodes [node_ID n] (AllocatedCPUs n) r) f
            | Some fail \<Rightarrow>
                (case fail (clk 0) (CurrentJobID n) reason f of
                   (Some (ids, cpus), f') \<Rightarrow>
                     dead_loop jf (\<lambda>i. clk (Suc i)) seen dead (ReleaseNodes ids cpus r) f'
                 | (None, f') \<Rightarrow>
                     dead_loop jf (\<lambda>i. clk (Suc i)) seen dead
                       (ReleaseNodes [node_ID n] (AllocatedCPUs n) r) f')))"

definition handleDeadNodes ::
  "'f job_failure_fn option \<Rightarrow> (nat \<Rightarrow> instant) \<Rightarrow> Node list \<Rightarrow> Registry \<Rightarrow> 'f \<Rightarrow> Registry \<times> 'f" where
  "handleDeadNodes jf clk dead r f = (if dead = [] then (r, f) else dead_loop jf clk {||} dead r f)"

text \<open>
  One turn of \<open>Run\<close>: a queued beat, or the ticker.  \<open>ks\<close> is the order in which \<open>ReapStale\<close> ranges over
  the nodes, \<open>now\<close> its clock reading, \<open>clk\<close> the readings of the drain and \<open>clk'\<close> those of the job
  failures.
\<close>

definition beat :: "instant \<Rightarrow> Monitor \<Rightarrow> Registry \<Rightarrow> Monitor \<times> Registry" where
  "beat now m r = (case heartbeats m of
     [] \<Rightarrow> (m, r)
   | nodeID # rest \<Rightarrow> (m\<lparr>heartbeats := rest\<rparr>, snd (Touch now nodeID r)))"

definition tick ::
  "'f job_failure_fn option \<Rightarrow> (nat \<Rightarrow> instant) \<Rightarrow> string list \<Rightarrow> instant \<Rightarrow> (nat \<Rightarrow> instant) \<Rightarrow>
   Monitor \<Rightarrow> Registry \<Rightarrow> 'f \<Rightarrow> Monitor \<times> Registry \<times> 'f" where
  "tick jf clk ks now clk' m r f =
     (let (m1, r1) = drainHeartbeats clk m r;
          (dead, r2) = ReapStale ks now (mon_timeout m1) r1;
          (r3, f3) = handleDeadNodes jf clk' dead r2 f
      in (m1, r3, f3))"

section \<open>Releasing\<close>

text \<open>Whether node \<open>k\<close> holds no job, and what a release never changes.\<close>

definition idle :: "Registry \<Rightarrow> string \<Rightarrow> bool" where
  "idle r k = (case fmlookup (nodes r) k of None \<Rightarrow> True | Some n \<Rightarrow> CurrentJobID n = [])"

definition liveness :: "Registry \<Rightarrow> string \<Rightarrow> (node_Status \<times> instant) option" where
  "liveness r k = map_option (\<lambda>n. (node_Status n, LastHeartbeat n)) (fmlookup (nodes r) k)"

lemma idle_upd [simp]:
  "idle (r\<lparr>nodes := fmupd x n (nodes r)\<rparr>) k = (if k = x then CurrentJobID n = [] else idle r k)"
  by (simp add: idle_def)

lemma idle_absent: "fmlookup (nodes r) k = None \<Longrightarrow> idle r k"
  by (simp add: idle_def)

lemma CurrentJobID_released [simp]: "CurrentJobID (released cpus n) = []"
  by (simp add: released_def)

lemma idle_released: "idle r k \<Longrightarrow> idle (ReleaseNodes ks cpus r) k"
  by (induction ks arbitrary: r) (simp_all split: option.split)

lemma idle_ReleaseNodes: "k \<in> set ks \<Longrightarrow> idle (ReleaseNodes ks cpus r) k"
proof (induction ks arbitrary: r)
  case (Cons x ks)
  have "idle (ReleaseNodes (x # ks) cpus r) x"
    by (auto intro: idle_released idle_absent split: option.split)
  with Cons show ?case by (cases "k = x") (auto split: option.split)
qed simp

lemma ReleaseNodes_frame: "k \<notin> set ks \<Longrightarrow> fmlookup (nodes (ReleaseNodes ks cpus r)) k = fmlookup (nodes r) k"
  by (induction ks arbitrary: r) (auto split: option.split)

lemma liveness_ReleaseNodes [simp]: "liveness (ReleaseNodes ks cpus r) k = liveness r k"
  by (induction ks arbitrary: r) (auto simp: liveness_def released_def split: option.split)

section \<open>What the monitor needs of a job failure\<close>

text \<open>
  Failing a job answers the gang it was running on, if it was running, after which it runs no more
  and has failed for the given reason; the other jobs are not affected.
\<close>

locale job_failure =
  fixes fail :: "instant \<Rightarrow> string \<Rightarrow> string \<Rightarrow> 'f \<Rightarrow> (string list \<times> int) option \<times> 'f"
    and gang :: "'f \<Rightarrow> string \<Rightarrow> (string list \<times> int) option"
    and failure :: "'f \<Rightarrow> string \<Rightarrow> string option"
  assumes fail_result: "fst (fail now jid reason f) = gang f jid"
    and fail_gang: "gang (snd (fail now jid reason f)) = (gang f)(jid := None)"
    and fail_failure: "failure (snd (fail now jid reason f)) =
      (if gang f jid = None then failure f else (failure f)(jid := Some reason))"
begin

text \<open>One turn of the loop, for a node that holds a job not seen before.\<close>

lemma dead_loop_step:
  assumes "CurrentJobID n \<noteq> []" "CurrentJobID n |\<notin>| seen"
  shows "dead_loop (Some fail) clk seen (n # dead) r f =
     dead_loop (Some fail) (\<lambda>i. clk (Suc i)) (finsert (CurrentJobID n) seen) dead
       (case gang f (CurrentJobID n) of
          Some (ids, cpus) \<Rightarrow> ReleaseNodes ids cpus r
        | None \<Rightarrow> ReleaseNodes [node_ID n] (AllocatedCPUs n) r)
       (snd (fail (clk 0) (CurrentJobID n) (''node '' @ node_ID n @ '' lost'') f))"
  using assms fail_result [of "clk 0" "CurrentJobID n" "''node '' @ node_ID n @ '' lost''" f]
  by (cases "fail (clk 0) (CurrentJobID n) (''node '' @ node_ID n @ '' lost'') f")
    (auto split: option.splits)

lemma dead_loop_skip:
  assumes "CurrentJobID n = [] \<or> CurrentJobID n |\<in>| seen"
  shows "dead_loop (Some fail) clk seen (n # dead) r f = dead_loop (Some fail) (\<lambda>i. clk (Suc i)) seen dead r f"
  using assms by auto

lemmas dead_loop_rules = dead_loop_skip dead_loop_step

text \<open>The jobs that no longer run afterwards.\<close>

lemma dead_loop_gang:
  "gang (snd (dead_loop (Some fail) clk seen dead r f)) jid =
     (if jid \<noteq> [] \<and> jid |\<notin>| seen \<and> jid \<in> CurrentJobID ` set dead then None else gang f jid)"
proof (induction dead arbitrary: clk seen r f)
  case (Cons n dead)
  show ?case
  proof (cases "CurrentJobID n = [] \<or> CurrentJobID n |\<in>| seen")
    case True
    then show ?thesis unfolding dead_loop_skip [OF True] Cons.IH by auto
  next
    case False
    then have n: "CurrentJobID n \<noteq> []" "CurrentJobID n |\<notin>| seen" by auto
    show ?thesis unfolding dead_loop_step [OF n] Cons.IH fail_gang using n by auto
  qed
qed simp

lemma dead_loop_idle: "idle r k \<Longrightarrow> idle (fst (dead_loop (Some fail) clk seen dead r f)) k"
proof (induction dead arbitrary: clk seen r f)
  case (Cons n dead)
  then show ?case
    by (cases "CurrentJobID n = [] \<or> CurrentJobID n |\<in>| seen")
      (auto simp: dead_loop_rules idle_released simp del: dead_loop.simps ReleaseNodes_Cons split: option.split prod.split)
qed simp

lemma dead_loop_liveness: "liveness (fst (dead_loop (Some fail) clk seen dead r f)) k = liveness r k"
proof (induction dead arbitrary: clk seen r f)
  case (Cons n dead)
  then show ?case
    by (cases "CurrentJobID n = [] \<or> CurrentJobID n |\<in>| seen")
      (auto simp: dead_loop_rules simp del: dead_loop.simps ReleaseNodes_Cons split: option.split prod.split)
qed simp

text \<open>Every node of the gang of a lost job is let go.\<close>

lemma dead_loop_releases:
  assumes "jid \<in> CurrentJobID ` set dead" "jid \<noteq> []" "jid |\<notin>| seen" "gang f jid = Some (ids, cpus)" "k \<in> set ids"
  shows "idle (fst (dead_loop (Some fail) clk seen dead r f)) k"
  using assms
proof (induction dead arbitrary: clk seen r f)
  case (Cons n dead)
  show ?case
  proof (cases "CurrentJobID n = [] \<or> CurrentJobID n |\<in>| seen")
    case True
    with Cons show ?thesis by (auto simp: dead_loop_skip simp del: dead_loop.simps)
  next
    case False
    then have n: "CurrentJobID n \<noteq> []" "CurrentJobID n |\<notin>| seen" by auto
    show ?thesis
    proof (cases "CurrentJobID n = jid")
      case True
      with Cons.prems show ?thesis
        unfolding dead_loop_step [OF n] by (simp add: dead_loop_idle idle_ReleaseNodes)
    next
      case other: False
      with Cons.prems have "jid \<in> CurrentJobID ` set dead" by auto
      then show ?thesis
        unfolding dead_loop_step [OF n] using Cons.prems other by (intro Cons.IH) (auto simp: fail_gang)
    qed
  qed
qed simp

text \<open>A node that is neither lost nor in the gang of a lost job is not touched.\<close>

lemma dead_loop_frame:
  assumes "k \<notin> node_ID ` set dead"
    and "\<forall>jid ids cpus. jid \<in> CurrentJobID ` set dead \<longrightarrow> gang f jid = Some (ids, cpus) \<longrightarrow> k \<notin> set ids"
  shows "fmlookup (nodes (fst (dead_loop (Some fail) clk seen dead r f))) k = fmlookup (nodes r) k"
  using assms
proof (induction dead arbitrary: clk seen r f)
  case (Cons n dead)
  show ?case
  proof (cases "CurrentJobID n = [] \<or> CurrentJobID n |\<in>| seen")
    case True
    have "\<forall>jid ids cpus. jid \<in> CurrentJobID ` set dead \<longrightarrow> gang f jid = Some (ids, cpus) \<longrightarrow> k \<notin> set ids"
      using Cons.prems(2) by auto
    then show ?thesis unfolding dead_loop_skip [OF True] using Cons.prems(1) by (intro Cons.IH) simp_all
  next
    case False
    then have n: "CurrentJobID n \<noteq> []" "CurrentJobID n |\<notin>| seen" by auto
    let ?f = "snd (fail (clk 0) (CurrentJobID n) (''node '' @ node_ID n @ '' lost'') f)"
    have "\<forall>jid ids cpus. jid \<in> CurrentJobID ` set dead \<longrightarrow> gang ?f jid = Some (ids, cpus) \<longrightarrow> k \<notin> set ids"
      using Cons.prems(2) by (auto simp: fail_gang)
    moreover have "k \<notin> node_ID ` set dead" using Cons.prems(1) by simp
    ultimately show ?thesis
      unfolding dead_loop_step [OF n] using Cons.prems
      by (subst Cons.IH) (auto simp: ReleaseNodes_frame simp del: ReleaseNodes_Cons split: option.split)
  qed
qed simp

text \<open>A lost job fails with the name of the first lost node that held it.\<close>

lemma dead_loop_failure_frame:
  "jid |\<in>| seen \<or> gang f jid = None \<or> jid \<notin> CurrentJobID ` set dead \<Longrightarrow>
   failure (snd (dead_loop (Some fail) clk seen dead r f)) jid = failure f jid"
proof (induction dead arbitrary: clk seen r f)
  case (Cons n dead)
  show ?case
  proof (cases "CurrentJobID n = [] \<or> CurrentJobID n |\<in>| seen")
    case True
    then show ?thesis unfolding dead_loop_skip [OF True] using Cons.prems by (intro Cons.IH) auto
  next
    case False
    then have n: "CurrentJobID n \<noteq> []" "CurrentJobID n |\<notin>| seen" by auto
    show ?thesis
      unfolding dead_loop_step [OF n] using Cons.prems n by (subst Cons.IH) (auto simp: fail_gang fail_failure)
  qed
qed simp

lemma dead_loop_failure:
  assumes "find (\<lambda>n. CurrentJobID n = jid) dead = Some n" "jid \<noteq> []" "jid |\<notin>| seen" "gang f jid \<noteq> None"
  shows "failure (snd (dead_loop (Some fail) clk seen dead r f)) jid = Some (''node '' @ node_ID n @ '' lost'')"
  using assms
proof (induction dead arbitrary: clk seen r f)
  case (Cons x dead)
  show ?case
  proof (cases "CurrentJobID x = [] \<or> CurrentJobID x |\<in>| seen")
    case True
    then have "CurrentJobID x \<noteq> jid" using Cons.prems by auto
    then show ?thesis unfolding dead_loop_skip [OF True] using Cons.prems by (intro Cons.IH) auto
  next
    case False
    then have x: "CurrentJobID x \<noteq> []" "CurrentJobID x |\<notin>| seen" by auto
    show ?thesis
    proof (cases "CurrentJobID x = jid")
      case True
      with Cons.prems obtain g where "x = n" "gang f jid = Some g" by auto
      with True show ?thesis
        unfolding dead_loop_step [OF x] by (subst dead_loop_failure_frame) (simp_all add: fail_failure)
    next
      case other: False
      then show ?thesis
        unfolding dead_loop_step [OF x] using Cons.prems by (intro Cons.IH) (auto simp: fail_gang)
    qed
  qed
qed simp

end

section \<open>The job manager and the failer as job failures\<close>

definition running_gang :: "JobManager \<Rightarrow> string \<Rightarrow> (string list \<times> int) option" where
  "running_gang m jid = (case fmlookup (jobs m) jid of
     None \<Rightarrow> None
   | Some j \<Rightarrow> if job_Status j = StatusRunning then Some (AssignedNodeIDs j, CPUsPerNode (Resources (job_Spec j))) else None)"

definition failed_reason :: "JobManager \<Rightarrow> string \<Rightarrow> string option" where
  "failed_reason m jid = (case fmlookup (jobs m) jid of
     None \<Rightarrow> None | Some j \<Rightarrow> if job_Status j = StatusFailed then Some (ErrorMessage j) else None)"

interpretation jm_fail: job_failure FailRunningJob running_gang failed_reason
  by unfold_locales
    (auto simp: FailRunningJob_eq running_gang_def failed_reason_def fun_eq_iff split: option.split)

lemma Failer_eq:
  "fst (Failer_FailRunningJob now jid reason (Some m, h)) = fst (FailRunningJob now jid reason m)"
  "fst (snd (Failer_FailRunningJob now jid reason (Some m, h))) = Some (snd (FailRunningJob now jid reason m))"
  "Failer_FailRunningJob now jid reason (None, h) = (None, (None, h))"
  by (simp_all add: Failer_FailRunningJob_def split: option.split prod.split)

interpretation failer: job_failure Failer_FailRunningJob
    "\<lambda>f. case fst f of None \<Rightarrow> \<lambda>jid. None | Some m \<Rightarrow> running_gang m"
    "\<lambda>f. case fst f of None \<Rightarrow> \<lambda>jid. None | Some m \<Rightarrow> failed_reason m"
proof
  fix now jid reason and f :: "JobManager option \<times> 'a Hub option"
  show "fst (Failer_FailRunningJob now jid reason f) = (case fst f of None \<Rightarrow> \<lambda>jid. None | Some m \<Rightarrow> running_gang m) jid"
    by (cases f; cases "fst f") (simp_all add: Failer_eq jm_fail.fail_result)
  show "(case fst (snd (Failer_FailRunningJob now jid reason f)) of None \<Rightarrow> \<lambda>jid. None | Some m \<Rightarrow> running_gang m) =
      (case fst f of None \<Rightarrow> \<lambda>jid. None | Some m \<Rightarrow> running_gang m)(jid := None)"
    by (cases f; cases "fst f") (simp_all add: Failer_eq jm_fail.fail_gang fun_eq_iff)
  show "(case fst (snd (Failer_FailRunningJob now jid reason f)) of None \<Rightarrow> \<lambda>jid. None | Some m \<Rightarrow> failed_reason m) =
      (if (case fst f of None \<Rightarrow> \<lambda>jid. None | Some m \<Rightarrow> running_gang m) jid = None
       then case fst f of None \<Rightarrow> \<lambda>jid. None | Some m \<Rightarrow> failed_reason m
       else (case fst f of None \<Rightarrow> \<lambda>jid. None | Some m \<Rightarrow> failed_reason m)(jid := Some reason))"
    by (cases f; cases "fst f") (simp_all add: Failer_eq jm_fail.fail_failure)
qed

section \<open>Liveness over a tick\<close>

text \<open>A node with a beat in the queue is online afterwards, and its heartbeat is one of the drain's clock
  readings; every other node is untouched.\<close>

lemma drain_loop_other: "k \<notin> set ids \<Longrightarrow> fmlookup (nodes (drain_loop clk ids r)) k = fmlookup (nodes r) k"
  by (induction ids arbitrary: clk r) (auto simp: Touch_def split: option.split)

lemma Touch_lookup:
  "k \<noteq> [] \<Longrightarrow> fmlookup (nodes (snd (Touch now k r))) k =
     map_option (\<lambda>n. n\<lparr>LastHeartbeat := now, node_Status := StatusOnline\<rparr>) (fmlookup (nodes r) k)"
  by (simp add: Touch_def split: option.split)

lemma drain_loop_beat:
  assumes "k \<in> set ids" "k \<noteq> []" "fmlookup (nodes r) k = Some n"
  shows "\<exists>i < length ids. fmlookup (nodes (drain_loop clk ids r)) k =
    Some (n\<lparr>LastHeartbeat := clk i, node_Status := StatusOnline\<rparr>)"
  using assms
proof (induction ids arbitrary: clk r n)
  case (Cons x ids)
  show ?case
  proof (cases "k \<in> set ids")
    case True
    obtain n1 where n1: "fmlookup (nodes (snd (Touch (clk 0) x r))) k = Some n1"
        "\<And>t. n1\<lparr>LastHeartbeat := t, node_Status := StatusOnline\<rparr> = n\<lparr>LastHeartbeat := t, node_Status := StatusOnline\<rparr>"
    proof (cases "x = k")
      case True
      with Cons.prems that [of "n\<lparr>LastHeartbeat := clk 0, node_Status := StatusOnline\<rparr>"] show thesis
        by (simp add: Touch_lookup)
    next
      case False
      with Cons.prems that [of n] show thesis by (simp add: Touch_def split: option.split)
    qed
    from Cons.IH [OF True Cons.prems(2) n1(1), of "\<lambda>i. clk (Suc i)"] n1(2) show ?thesis by auto
  next
    case False
    with Cons.prems have "x = k" by simp
    with False Cons.prems show ?thesis by (intro exI [of _ 0]) (simp add: drain_loop_other Touch_lookup)
  qed
qed simp

lemma reg_inv_drain_loop [inv_intros]: "reg_inv r \<Longrightarrow> reg_inv (drain_loop clk ids r)"
  by (induction ids arbitrary: clk r) (simp_all add: reg_inv_Touch)

lemma fmdom_Touch: "fmdom' (nodes (snd (Touch now k r))) = fmdom' (nodes r)"
  by (auto simp: Touch_def mem_fmdom' split: option.split)

lemma fmdom_drain_loop: "fmdom' (nodes (drain_loop clk ids r)) = fmdom' (nodes r)"
  by (induction ids arbitrary: clk r) (simp_all add: fmdom_Touch)

lemma handleDeadNodes_eq: "handleDeadNodes jf clk dead r f = dead_loop jf clk {||} dead r f"
  by (simp add: handleDeadNodes_def)

lemma reg_inv_dead_loop: "reg_inv r \<Longrightarrow> reg_inv (fst (dead_loop jf clk seen dead r f))"
proof (induction dead arbitrary: clk seen r f)
  case (Cons n dead)
  then show ?case
    by (auto simp: Let_def reg_inv_ReleaseNodes simp del: ReleaseNodes_Cons split: option.split prod.split)
qed simp

section \<open>Every sequence of the monitor's steps\<close>

text \<open>A beat recorded by an RPC handler, a queued beat taken by the loop, or the ticker.\<close>

datatype mon_op =
    RecordOp string
  | BeatOp instant
  | TickOp "nat \<Rightarrow> instant" "string list" instant "nat \<Rightarrow> instant"

fun mon_apply :: "'f job_failure_fn option \<Rightarrow> mon_op \<Rightarrow> Monitor \<times> Registry \<times> 'f \<Rightarrow> Monitor \<times> Registry \<times> 'f" where
  "mon_apply jf (RecordOp k) (m, r, f) = (Record k m, r, f)"
| "mon_apply jf (BeatOp t) (m, r, f) = (case beat t m r of (m', r') \<Rightarrow> (m', r', f))"
| "mon_apply jf (TickOp clk ks now clk') (m, r, f) = tick jf clk ks now clk' m r f"

definition mon_start :: "duration \<Rightarrow> duration \<Rightarrow> 'f \<Rightarrow> Monitor \<times> Registry \<times> 'f" where
  "mon_start timeout interval f = (case MakeMonitor None timeout interval of (m, r) \<Rightarrow> (m, r, f))"

definition mon_inv :: "Monitor \<Rightarrow> bool" where
  "mon_inv m \<longleftrightarrow> length (heartbeats m) \<le> heartbeatQueueSize \<and> [] \<notin> set (heartbeats m) \<and>
     0 < mon_timeout m \<and> 0 < mon_interval m"

lemma mon_inv_Record: "mon_inv m \<Longrightarrow> mon_inv (Record k m)"
  by (simp add: mon_inv_def Record_def)

lemma mon_inv_beat: "mon_inv m \<Longrightarrow> reg_inv r \<Longrightarrow> mon_inv (fst (beat t m r)) \<and> reg_inv (snd (beat t m r))"
  by (auto simp: mon_inv_def beat_def reg_inv_Touch split: list.split)

lemma mon_inv_tick:
  "mon_inv m \<Longrightarrow> reg_inv r \<Longrightarrow>
   mon_inv (fst (tick jf clk ks now clk' m r f)) \<and> reg_inv (fst (snd (tick jf clk ks now clk' m r f)))"
  by (simp add: mon_inv_def tick_def drainHeartbeats_def split_beta Let_def handleDeadNodes_eq reg_inv_dead_loop
      reg_inv_ReapStale reg_inv_drain_loop)

interpretation mon: guarded_component "mon_start timeout interval f" "mon_apply jf"
    "\<lambda>s. mon_inv (fst s) \<and> reg_inv (fst (snd s))"
proof
  show "mon_inv (fst (mon_start timeout interval f)) \<and> reg_inv (fst (snd (mon_start timeout interval f)))"
    by (simp add: mon_start_def mon_inv_def MakeMonitor_def Let_def DefaultHeartbeatTimeout_def Second_def
        Millisecond_def reg_inv_Make)
  fix s :: "Monitor \<times> Registry \<times> 'a" and c assume "mon_inv (fst s) \<and> reg_inv (fst (snd s))"
  then show "mon_inv (fst (mon_apply jf c s)) \<and> reg_inv (fst (snd (mon_apply jf c s)))"
    using mon_inv_beat [of "fst s" "fst (snd s)"]
    by (cases c; cases s) (simp_all add: mon_inv_Record mon_inv_tick split_beta)
qed

abbreviation mon_run :: "'f job_failure_fn option \<Rightarrow> duration \<Rightarrow> duration \<Rightarrow> 'f \<Rightarrow> mon_op list \<Rightarrow> Monitor \<times> Registry \<times> 'f" where
  "mon_run jf timeout interval f cs \<equiv> fold (mon_apply jf) cs (mon_start timeout interval f)"

section \<open>Properties\<close>

text \<open>C21.  Losing a node fails the whole gang: when a lost node holds a running job, the job has failed
  afterwards with the reason that a lost node carrying it was lost, it runs no more, and every node
  it was assigned to is free of a job, whichever other nodes are lost with it.\<close>

theorem lost_node_fails_whole_gang:
  assumes "n \<in> set dead" "CurrentJobID n = jid" "jid \<noteq> []" "running_gang m jid = Some (ids, cpus)"
    and "handleDeadNodes (Some Failer_FailRunningJob) clk dead r (Some m, h) = (r', f')"
  shows "\<exists>m' n'. fst f' = Some m' \<and> n' \<in> set dead \<and> CurrentJobID n' = jid \<and>
     failed_reason m' jid = Some (''node '' @ node_ID n' @ '' lost'') \<and> running_gang m' jid = None \<and>
     (\<forall>k \<in> set ids. idle r' k)"
proof -
  have eq: "dead_loop (Some Failer_FailRunningJob) clk {||} dead r (Some m, h) = (r', f')"
    using assms(5) by (simp add: handleDeadNodes_eq)
  have held: "jid \<in> CurrentJobID ` set dead" using assms(1,2) by auto
  then obtain n' where n': "find (\<lambda>n. CurrentJobID n = jid) dead = Some n'"
    by (metis (mono_tags, lifting) find_None_iff2 imageE option.exhaust)
  have "n' \<in> set dead \<and> CurrentJobID n' = jid" using n' by (auto simp: find_Some_iff)
  moreover have why: "(case fst f' of None \<Rightarrow> \<lambda>jid. None | Some m \<Rightarrow> failed_reason m) jid = Some (''node '' @ node_ID n' @ '' lost'')"
    using failer.dead_loop_failure [OF n' assms(3), of "{||}" "(Some m, h)" clk r] assms(4) eq by simp
  moreover have "(case fst f' of None \<Rightarrow> \<lambda>jid. None | Some m \<Rightarrow> running_gang m) jid = None"
    using failer.dead_loop_gang [of clk "{||}" dead r "(Some m, h)" jid] held assms(3) eq by simp
  moreover have "\<forall>k \<in> set ids. idle r' k"
    using failer.dead_loop_releases [OF held assms(3), of "{||}" "(Some m, h)" ids cpus _ clk r] assms(4) eq by simp
  ultimately show ?thesis by (cases "fst f'") auto
qed

definition sample_running :: JobManager where
  "sample_running = snd (JM_MarkRunning 3 ''a'' [''n1'', ''n2''] (jm_run [OpSubmit (Some (sample_job ''a'' 2))]))"

lemma sample_running_gang: "running_gang sample_running ''a'' = Some ([''n1'', ''n2''], 1)"
  by (simp add: sample_running_def running_gang_def Submit_def Make_JobManager_def JM_MarkRunning_def
      Job_MarkRunning_pending Let_def sample_job_def sample_spec_def)

theorem lost_node_fails_whole_gang_witness:
  "\<exists>m'. fst (snd (handleDeadNodes (Some Failer_FailRunningJob) (\<lambda>i. 9)
       [sample_node ''n1'' 4\<lparr>CurrentJobID := ''a''\<rparr>] sample_registry (Some sample_running, Some (NewHub :: int Hub)))) = Some m' \<and>
     failed_reason m' ''a'' = Some ''node n1 lost''"
proof -
  have n: "sample_node ''n1'' 4\<lparr>CurrentJobID := ''a''\<rparr> \<in> set [sample_node ''n1'' 4\<lparr>CurrentJobID := ''a''\<rparr>]"
    "CurrentJobID (sample_node ''n1'' 4\<lparr>CurrentJobID := ''a''\<rparr>) = ''a''" "''a'' \<noteq> []" by simp_all
  from lost_node_fails_whole_gang [OF n sample_running_gang surjective_pairing, of "\<lambda>i. 9" sample_registry "Some (NewHub :: int Hub)"]
  show ?thesis by (auto simp: sample_node_def)
qed

text \<open>Handling lost nodes touches nothing else: a node that is neither lost nor in the gang of a
  lost job keeps its slot, no node's status or heartbeat changes, and a job that no lost node carries
  runs on.\<close>

theorem lost_nodes_spare_the_rest:
  assumes "handleDeadNodes (Some FailRunningJob) clk dead r m = (r', m')"
  shows "(\<forall>k. k \<notin> node_ID ` set dead \<and>
        (\<forall>jid ids cpus. jid \<in> CurrentJobID ` set dead \<longrightarrow> running_gang m jid = Some (ids, cpus) \<longrightarrow> k \<notin> set ids) \<longrightarrow>
        fmlookup (nodes r') k = fmlookup (nodes r) k) \<and>
     (\<forall>k. liveness r' k = liveness r k) \<and>
     (\<forall>jid. jid \<notin> CurrentJobID ` set dead \<longrightarrow>
        running_gang m' jid = running_gang m jid \<and> failed_reason m' jid = failed_reason m jid)"
proof -
  have eq: "dead_loop (Some FailRunningJob) clk {||} dead r m = (r', m')"
    using assms by (simp add: handleDeadNodes_eq)
  show ?thesis
    using jm_fail.dead_loop_frame [of _ dead m clk "{||}" r] jm_fail.dead_loop_liveness [of clk "{||}" dead r m]
      jm_fail.dead_loop_gang [of clk "{||}" dead r m] jm_fail.dead_loop_failure_frame [of _ "{||}" m dead clk r] eq
    by auto
qed

theorem lost_nodes_spare_the_rest_witness:
  "fmlookup (nodes (fst (handleDeadNodes (Some FailRunningJob) (\<lambda>i. 9) [sample_node ''n3'' 4\<lparr>CurrentJobID := ''b''\<rparr>]
      sample_registry sample_running))) ''n1'' = fmlookup (nodes sample_registry) ''n1''"
proof -
  have none: "running_gang sample_running ''b'' = None"
    by (simp add: sample_running_def running_gang_def Submit_def Make_JobManager_def JM_MarkRunning_def
        Job_MarkRunning_pending Let_def sample_job_def sample_spec_def)
  from lost_nodes_spare_the_rest [where clk = "\<lambda>i. 9" and dead = "[sample_node ''n3'' 4\<lparr>CurrentJobID := ''b''\<rparr>]"
      and r = sample_registry and m = sample_running, OF surjective_pairing] none
  show ?thesis by (auto simp: sample_node_def)
qed

text \<open>A tick decides liveness: a node with a beat in the queue is online afterwards, as long as the
  drain read the clock within the timeout; any other node is marked offline exactly if it is online
  and its last heartbeat is older than the timeout.  No node disappears.\<close>

theorem tick_decides_liveness:
  assumes "reg_inv r" "go_range ks (nodes r)" "0 < mon_timeout m" "fmlookup (nodes r) k = Some n"
    and "\<forall>i < length (heartbeats m). time_Sub now (clk i) \<le> mon_timeout m"
    and "tick (Some Failer_FailRunningJob) clk ks now clk' m r f = (m', r', f')"
  shows "\<exists>n'. fmlookup (nodes r') k = Some n' \<and>
     node_Status n' = (if k \<in> set (heartbeats m) then StatusOnline else node_Status (mark_stale now (mon_timeout m) n)) \<and>
     (k \<notin> set (heartbeats m) \<longrightarrow> LastHeartbeat n' = LastHeartbeat n) \<and> heartbeats m' = []"
proof -
  let ?r1 = "drain_loop clk (heartbeats m) r"
  let ?reap = "ReapStale ks now (mon_timeout m) ?r1"
  have k: "k \<noteq> []" using reg_invD [OF assms(1,4)] by blast
  obtain n1 where n1: "fmlookup (nodes ?r1) k = Some n1"
    "if k \<in> set (heartbeats m) then node_Status (mark_stale now (mon_timeout m) n1) = StatusOnline else n1 = n"
  proof (cases "k \<in> set (heartbeats m)")
    case True
    from drain_loop_beat [OF True k assms(4), of clk] assms(5) True that show thesis
      by (auto simp: mark_stale_def stale_def)
  qed (use assms(4) that drain_loop_other in auto)
  have ks: "go_range ks (nodes ?r1)"
    using assms(2) fmdom_drain_loop [of clk "heartbeats m" r] by (simp add: go_range_def)
  then have "distinct ks" "k \<in> set ks" using n1(1) by (auto simp: go_range_def mem_fmdom')
  then have "fmlookup (nodes (snd ?reap)) k = Some (mark_stale now (mon_timeout m) n1)"
    using assms(3) n1(1) by (simp add: ReapStale_def reap_loop_lookup)
  then have live: "liveness (snd ?reap) k = Some (node_Status (mark_stale now (mon_timeout m) n1), LastHeartbeat n1)"
    by (simp add: liveness_def mark_stale_def)
  have "r' = fst (dead_loop (Some Failer_FailRunningJob) clk' {||} (fst ?reap) (snd ?reap) f)" "m' = m\<lparr>heartbeats := []\<rparr>"
    using assms(6) by (auto simp: tick_def drainHeartbeats_def handleDeadNodes_eq split_beta Let_def)
  with live have "liveness r' k = Some (node_Status (mark_stale now (mon_timeout m) n1), LastHeartbeat n1)" "heartbeats m' = []"
    by (simp_all add: failer.dead_loop_liveness)
  then show ?thesis using n1(2) by (auto simp: liveness_def split: if_splits)
qed

theorem tick_decides_liveness_witness:
  "\<exists>n'. fmlookup (nodes (fst (snd (tick (Some Failer_FailRunningJob) (\<lambda>i. 100) [''n1'', ''n2''] 101 (\<lambda>i. 102)
         \<lparr>heartbeats = [''n1''], mon_timeout = 10, mon_interval = 5\<rparr> sample_registry (None, Some (NewHub :: int Hub)))))) ''n1'' = Some n' \<and>
     node_Status n' = StatusOnline"
proof -
  have "go_range [''n1'', ''n2''] (nodes sample_registry)" "0 < mon_timeout \<lparr>heartbeats = [''n1''], mon_timeout = 10, mon_interval = 5\<rparr>"
    "\<exists>n. fmlookup (nodes sample_registry) ''n1'' = Some n"
    by (auto simp: go_range_def sample_registry_nodes)
  then obtain n where k: "go_range [''n1'', ''n2''] (nodes sample_registry)"
    "0 < mon_timeout \<lparr>heartbeats = [''n1''], mon_timeout = 10, mon_interval = 5\<rparr>"
    "fmlookup (nodes sample_registry) ''n1'' = Some n" by blast
  have "\<forall>i < length (heartbeats \<lparr>heartbeats = [''n1''], mon_timeout = 10, mon_interval = 5\<rparr>).
      time_Sub 101 ((\<lambda>i. 100) i) \<le> mon_timeout \<lparr>heartbeats = [''n1''], mon_timeout = 10, mon_interval = 5\<rparr>"
    by (simp add: time_Sub_def)
  note live = tick_decides_liveness [OF sample_registry_ok(1) k this]
  let ?t = "tick (Some Failer_FailRunningJob) (\<lambda>i. 100) [''n1'', ''n2''] 101 (\<lambda>i. 102)
         \<lparr>heartbeats = [''n1''], mon_timeout = 10, mon_interval = 5\<rparr> sample_registry (None, Some (NewHub :: int Hub))"
  have "?t = (fst ?t, fst (snd ?t), snd (snd ?t))" by simp
  from live [OF this] show ?thesis by auto
qed

text \<open>Under every sequence of beats and ticks the monitor's queue holds at most
  \<open>heartbeatQueueSize\<close> named beats, and its timeout and interval stay positive, so that the ticker can
  be made and reaping is never switched off.\<close>

theorem monitor_stays_well_formed:
  "length (heartbeats (fst (mon_run jf timeout interval f cs))) \<le> heartbeatQueueSize \<and>
   [] \<notin> set (heartbeats (fst (mon_run jf timeout interval f cs))) \<and>
   0 < mon_timeout (fst (mon_run jf timeout interval f cs)) \<and> 0 < mon_interval (fst (mon_run jf timeout interval f cs)) \<and>
   reg_inv (fst (snd (mon_run jf timeout interval f cs)))"
  using mon.inv_run [of jf cs timeout interval f] unfolding mon_inv_def by blast

lemma dead_loop_None_frame:
  "\<forall>n \<in> set dead. node_ID n = k \<longrightarrow> CurrentJobID n |\<in>| seen \<Longrightarrow>
   fmlookup (nodes (fst (dead_loop None clk seen dead r f))) k = fmlookup (nodes r) k"
  by (induction dead arbitrary: clk seen r) (auto simp: ReleaseNodes_frame simp del: ReleaseNodes_Cons)

text \<open>Without a \<open>JobFailure\<close> only the first lost node of a job gives its slot back: every later lost
  node of the same job is skipped and stays reserved.\<close>


theorem nil_job_failure_frees_one_node_per_job:
  assumes "distinct (map node_ID (n # dead))" "n' \<in> set dead" "CurrentJobID n' = CurrentJobID n" "CurrentJobID n \<noteq> []"
  shows "fmlookup (nodes (fst (handleDeadNodes None clk (n # dead) r f))) (node_ID n') = fmlookup (nodes r) (node_ID n') \<and>
     fmlookup (nodes (fst (handleDeadNodes None clk [n'] r f))) (node_ID n') =
       map_option (released (AllocatedCPUs n')) (fmlookup (nodes r) (node_ID n'))"
proof -
  have "\<forall>x \<in> set dead. node_ID x = node_ID n' \<longrightarrow> CurrentJobID x |\<in>| finsert (CurrentJobID n) {||}"
    using assms(1-3) by (auto simp: distinct_map inj_on_def)
  from dead_loop_None_frame [OF this, where f = f] assms show ?thesis
    by (auto simp: handleDeadNodes_eq split: option.split)
qed

theorem nil_job_failure_frees_one_node_per_job_witness:
  "fmlookup (nodes (fst (handleDeadNodes None (\<lambda>i. 9)
      [sample_node ''n1'' 4\<lparr>CurrentJobID := ''a''\<rparr>, sample_node ''n2'' 4\<lparr>CurrentJobID := ''a''\<rparr>] sample_registry ()))) ''n2''
   = fmlookup (nodes sample_registry) ''n2''"
  using nil_job_failure_frees_one_node_per_job [of "sample_node ''n1'' 4\<lparr>CurrentJobID := ''a''\<rparr>"
      "[sample_node ''n2'' 4\<lparr>CurrentJobID := ''a''\<rparr>]" "sample_node ''n2'' 4\<lparr>CurrentJobID := ''a''\<rparr>" "\<lambda>i. 9" sample_registry "()"]
  by (simp add: sample_node_def)

end
