(* ===== verification/Convert.thy ===== *)
theory Convert
  imports Monitor "HOL-Library.Product_Lexorder" "HOL-Library.Multiset"
begin

text \<open>
  Conversion between the controller's own types and the wire messages,
  \<open>src/internal/controller/convert.go\<close>.  The well-known types are not part of the repository:
  \<open>dNew\<close> is \<open>durationpb.New\<close>, \<open>asDur\<close> is \<open>AsDuration\<close> and \<open>tsNew\<close> is \<open>timestamppb.New\<close>.  \<open>int(x)\<close> of
  a wire integer is \<open>sint\<close>, \<open>int32(x)\<close> is \<open>word_of_int\<close>.
\<close>

section \<open>Specifications\<close>

definition zero_Spec :: Spec where
  "zero_Spec = \<lparr>Resources = \<lparr>NodesRequired = 0, CPUsPerNode = 0, MaxDuration = 0\<rparr>,
     Command = [], Args = [], Env = fmempty\<rparr>"

definition specFromProto :: "('dur \<Rightarrow> duration) \<Rightarrow> 'dur pb_JobSpec option \<Rightarrow> go_error + Spec" where
  "specFromProto asDur p =
     (if p = None then Inl (Errorf ''spec is required'')
      else
        let spec = zero_Spec\<lparr>Command := JobSpec_GetCommand p, Args := [] @ JobSpec_GetArgs p\<rparr>;
            env = JobSpec_GetEnv p;
            spec = (if go_len env > 0 then spec\<lparr>Env := go_copy (go_keys env) env\<rparr> else spec);
            r = JobSpec_GetResources p;
            spec = (if r = None then spec
                    else spec\<lparr>Resources :=
                      \<lparr>NodesRequired = sint (ResourceRequest_GetNodesRequired r),
                       CPUsPerNode = sint (ResourceRequest_GetCpusPerNode r),
                       MaxDuration = (case ResourceRequest_GetMaxDuration r of
                          None \<Rightarrow> 0 | Some d \<Rightarrow> asDur d)\<rparr>\<rparr>)
        in (case Spec_Validate spec of
              Some err \<Rightarrow> Inl err
            | None \<Rightarrow> Inr spec))"

definition specToProto :: "(duration \<Rightarrow> 'dur) \<Rightarrow> Spec \<Rightarrow> 'dur pb_JobSpec" where
  "specToProto dNew s =
     \<lparr>JobSpec_Resources = Some
        \<lparr>ResourceRequest_NodesRequired = word_of_int (NodesRequired (Resources s)),
         ResourceRequest_CpusPerNode = word_of_int (CPUsPerNode (Resources s)),
         ResourceRequest_MaxDuration =
           (if MaxDuration (Resources s) > 0 then Some (dNew (MaxDuration (Resources s))) else None)\<rparr>,
      JobSpec_Command = Command s,
      JobSpec_Args = [] @ Args s,
      JobSpec_Env = Env s\<rparr>"

section \<open>Jobs\<close>

definition jobStatusToProto :: "Status \<Rightarrow> pb_JobStatus" where
  "jobStatusToProto s = (case s of
     StatusPending \<Rightarrow> JOB_STATUS_PENDING
   | StatusRunning \<Rightarrow> JOB_STATUS_RUNNING
   | StatusCompleted \<Rightarrow> JOB_STATUS_COMPLETED
   | StatusFailed \<Rightarrow> JOB_STATUS_FAILED
   | StatusCancelled \<Rightarrow> JOB_STATUS_CANCELLED
   | _ \<Rightarrow> JOB_STATUS_UNSPECIFIED)"

definition jobStatusFromProto :: "pb_JobStatus \<Rightarrow> Status \<times> bool" where
  "jobStatusFromProto s = (case s of
     JOB_STATUS_PENDING \<Rightarrow> (StatusPending, True)
   | JOB_STATUS_RUNNING \<Rightarrow> (StatusRunning, True)
   | JOB_STATUS_COMPLETED \<Rightarrow> (StatusCompleted, True)
   | JOB_STATUS_FAILED \<Rightarrow> (StatusFailed, True)
   | JOB_STATUS_CANCELLED \<Rightarrow> (StatusCancelled, True)
   | _ \<Rightarrow> (StatusOther [], False))"

definition timestampOrNil :: "(instant \<Rightarrow> 'ts) \<Rightarrow> instant \<Rightarrow> 'ts option" where
  "timestampOrNil tsNew t = (if time_IsZero t then None else Some (tsNew t))"

definition jobToProto ::
  "(duration \<Rightarrow> 'dur) \<Rightarrow> (instant \<Rightarrow> 'ts) \<Rightarrow> Job option \<Rightarrow> ('dur, 'ts) pb_Job option" where
  "jobToProto dNew tsNew j = (case j of
     None \<Rightarrow> None
   | Some j \<Rightarrow> Some
       \<lparr>Job_Id = job_ID j,
        Job_Status = jobStatusToProto (job_Status j),
        Job_Spec = Some (specToProto dNew (job_Spec j)),
        Job_AssignedNodeIds = [] @ AssignedNodeIDs j,
        Job_SubmittedAt = timestampOrNil tsNew (SubmittedAt j),
        Job_StartedAt = timestampOrNil tsNew (StartedAt j),
        Job_FinishedAt = timestampOrNil tsNew (FinishedAt j),
        Job_ExitCode = word_of_int (ExitCode j),
        Job_ErrorMessage = ErrorMessage j\<rparr>)"

text \<open>The comparison of \<open>sortJobs\<close>, and the sort itself.\<close>

definition job_before :: "Job \<Rightarrow> Job \<Rightarrow> bool" where
  "job_before a b =
     (if SubmittedAt a \<noteq> SubmittedAt b then SubmittedAt a < SubmittedAt b else job_ID a < job_ID b)"

definition sortJobs :: "Job list \<Rightarrow> Job list" where
  "sortJobs js = sort_key (\<lambda>j. (SubmittedAt j, job_ID j)) js"

section \<open>Nodes\<close>

definition nodeToProto :: "(instant \<Rightarrow> 'ts) \<Rightarrow> Node \<Rightarrow> 'ts pb_Node" where
  "nodeToProto tsNew n =
     \<lparr>Node_Id = node_ID n,
      Node_Hostname = Hostname n,
      Node_Address = Address n,
      Node_Status = (case node_Status n of
          StatusOffline \<Rightarrow> NODE_STATUS_OFFLINE
        | StatusOnline \<Rightarrow> if CurrentJobID n \<noteq> [] then NODE_STATUS_BUSY else NODE_STATUS_ONLINE
        | NodeStatusOther t \<Rightarrow> NODE_STATUS_UNSPECIFIED),
      Node_TotalCpus = word_of_int (TotalCPUs n),
      Node_AllocatedCpus = word_of_int (AllocatedCPUs n),
      Node_LastHeartbeat = timestampOrNil tsNew (LastHeartbeat n),
      Node_CurrentJobId = CurrentJobID n\<rparr>"

section \<open>Integers and maps on the wire\<close>

lemma sint_word_of_int32 [simp]: "in_int32 x \<Longrightarrow> sint (word_of_int x :: 32 word) = x"
  by (simp add: in_int32_def sint_sbintrunc' signed_take_bit_int_eq_self)

lemma in_int32_sint [simp]: "in_int32 (sint (w :: 32 word))"
  using sint_greater_eq [of w] sint_lt [of w] by (simp add: in_int32_def)

lemma go_len_zero: "go_len m = 0 \<longleftrightarrow> m = fmempty"
proof
  assume "go_len m = 0"
  then have "fmdom m = {||}" by (simp add: go_len_def)
  then show "m = fmempty" by (intro fmap_ext) (metis fempty_iff fmdom_notD fmempty_lookup)
qed simp

lemma job_before_key: "job_before a b \<longleftrightarrow> (SubmittedAt a, job_ID a) < (SubmittedAt b, job_ID b)"
  by (auto simp: job_before_def)

section \<open>Properties\<close>

lemma copied_env:
  "Env s = fmempty \<Longrightarrow> (if 0 < go_len env then s\<lparr>Env := go_copy (go_keys env) env\<rparr> else s) = s\<lparr>Env := env\<rparr>"
  by (cases s) (auto simp: go_copy_eq go_len_zero)

lemma specFromProto_Some:
  "specFromProto asDur (Some q) =
     (let spec = \<lparr>Resources = (case JobSpec_Resources q of
                     None \<Rightarrow> Resources zero_Spec
                   | Some r \<Rightarrow> \<lparr>NodesRequired = sint (ResourceRequest_NodesRequired r),
                                CPUsPerNode = sint (ResourceRequest_CpusPerNode r),
                                MaxDuration = (case ResourceRequest_MaxDuration r of None \<Rightarrow> 0 | Some d \<Rightarrow> asDur d)\<rparr>),
                  Command = JobSpec_Command q, Args = JobSpec_Args q, Env = JobSpec_Env q\<rparr>
      in case Spec_Validate spec of Some err \<Rightarrow> Inl err | None \<Rightarrow> Inr spec)"
proof -
  have env: "Env (zero_Spec\<lparr>Command := c, Args := a\<rparr>) = fmempty" for c a by (simp add: zero_Spec_def)
  show ?thesis
    unfolding specFromProto_def Let_def append_Nil copied_env [OF env]
    by (cases "JobSpec_Resources q") (simp_all add: pb_getters zero_Spec_def split: option.split)
qed

lemma Spec_Validate_SomeD:
  "Spec_Validate s = Some err \<Longrightarrow> \<not> (1 \<le> NodesRequired (Resources s) \<and> 1 \<le> CPUsPerNode (Resources s) \<and>
     0 \<le> MaxDuration (Resources s) \<and> \<not> blank (Command s))"
  using Spec_Validate_None_iff [of s] by simp

lemma spec_accepted_iff:
  "specFromProto asDur p = Inr s \<longleftrightarrow>
     (\<exists>q r. p = Some q \<and> JobSpec_Resources q = Some r \<and>
        0 < sint (ResourceRequest_NodesRequired r) \<and> 0 < sint (ResourceRequest_CpusPerNode r) \<and>
        (case ResourceRequest_MaxDuration r of None \<Rightarrow> True | Some d \<Rightarrow> 0 \<le> asDur d) \<and>
        \<not> blank (JobSpec_Command q) \<and>
        s = \<lparr>Resources = \<lparr>NodesRequired = sint (ResourceRequest_NodesRequired r),
                          CPUsPerNode = sint (ResourceRequest_CpusPerNode r),
                          MaxDuration = (case ResourceRequest_MaxDuration r of None \<Rightarrow> 0 | Some d \<Rightarrow> asDur d)\<rparr>,
             Command = JobSpec_Command q, Args = JobSpec_Args q, Env = JobSpec_Env q\<rparr>)"
proof (cases p)
  case None
  then show ?thesis by (simp add: specFromProto_def)
next
  case (Some q)
  show ?thesis
  proof (cases "JobSpec_Resources q")
    case None
    have "Spec_Validate \<lparr>Resources = Resources zero_Spec, Command = JobSpec_Command q, Args = JobSpec_Args q,
        Env = JobSpec_Env q\<rparr> \<noteq> None"
      by (simp add: Spec_Validate_None_iff zero_Spec_def del: not_None_eq)
    with Some None show ?thesis by (auto simp: specFromProto_Some Let_def split: option.splits)
  next
    case r: (Some r)
    with Some show ?thesis
      by (auto simp: specFromProto_Some Let_def Spec_Validate_None_iff [symmetric] split: option.splits)
        (auto simp: Spec_Validate_None_iff dest!: Spec_Validate_SomeD split: option.splits)
  qed
qed

text \<open>A specification is accepted from the wire exactly when it is there, names a command, and asks
  for at least one node, at least one CPU on each and no negative duration; what is accepted is what
  was sent.\<close>

theorem spec_accepted_iff_valid:
  "specFromProto asDur p = Inr s \<longleftrightarrow>
     (\<exists>q r. p = Some q \<and> JobSpec_Resources q = Some r \<and>
        0 < sint (ResourceRequest_NodesRequired r) \<and> 0 < sint (ResourceRequest_CpusPerNode r) \<and>
        (case ResourceRequest_MaxDuration r of None \<Rightarrow> True | Some d \<Rightarrow> 0 \<le> asDur d) \<and>
        \<not> blank (JobSpec_Command q) \<and>
        s = \<lparr>Resources = \<lparr>NodesRequired = sint (ResourceRequest_NodesRequired r),
                          CPUsPerNode = sint (ResourceRequest_CpusPerNode r),
                          MaxDuration = (case ResourceRequest_MaxDuration r of None \<Rightarrow> 0 | Some d \<Rightarrow> asDur d)\<rparr>,
             Command = JobSpec_Command q, Args = JobSpec_Args q, Env = JobSpec_Env q\<rparr>)"
  by (rule spec_accepted_iff)

text \<open>An accepted specification survives the wire: writing it back and reading it again gives the
  same specification, if \<open>AsDuration\<close> yields a \<open>time.Duration\<close> and undoes \<open>durationpb.New\<close>.\<close>

theorem accepted_spec_roundtrip:
  assumes codec: "\<And>d. in_int64 d \<Longrightarrow> asDur (dNew d) = d" "\<And>w. in_int64 (asDur w)"
    and "specFromProto asDur p = Inr s"
  shows "specFromProto asDur (Some (specToProto dNew s)) = Inr s"
proof -
  from assms(3) have ok: "Spec_Validate s = None" "in_int32 (NodesRequired (Resources s))" "in_int32 (CPUsPerNode (Resources s))"
    by (auto simp: spec_accepted_iff Spec_Validate_None_iff split: option.splits)
  have "in_int64 0" by (simp add: in_int64_def)
  with assms(3) codec(2) have "in_int64 (MaxDuration (Resources s))"
    by (auto simp: spec_accepted_iff split: option.splits)
  moreover have "MaxDuration (Resources s) = 0 \<or> 0 < MaxDuration (Resources s)"
    using ok(1) by (auto simp: Spec_Validate_None_iff)
  moreover obtain n c d cmd args env
    where "s = \<lparr>Resources = \<lparr>NodesRequired = n, CPUsPerNode = c, MaxDuration = d\<rparr>, Command = cmd, Args = args, Env = env\<rparr>"
    by (metis ResourceRequest.cases Spec.cases)
  ultimately show ?thesis
    using ok codec(1) by (auto simp: specFromProto_Some specToProto_def)
qed

theorem accepted_spec_roundtrip_witness:
  "specFromProto wrap64 (Some (specToProto (\<lambda>d. d) (sample_spec 2))) = Inr (sample_spec 2)"
proof -
  have s: "specFromProto wrap64 (Some \<lparr>JobSpec_Resources = Some \<lparr>ResourceRequest_NodesRequired = 2,
        ResourceRequest_CpusPerNode = 1, ResourceRequest_MaxDuration = None\<rparr>,
      JobSpec_Command = ''hello'', JobSpec_Args = [], JobSpec_Env = fmempty\<rparr>) = Inr (sample_spec 2)"
    by (simp add: spec_accepted_iff sample_spec_def del: blank.simps)
  show ?thesis by (rule accepted_spec_roundtrip [OF _ _ s]) simp_all
qed

text \<open>A job's status survives the wire, down to the enum number: exactly the five valid statuses
  are recovered, and each is encoded differently.\<close>

theorem status_wire_roundtrip:
  "jobStatusFromProto (JobStatus_of_number (JobStatus_number (jobStatusToProto s))) =
     (if Valid s then (s, True) else (StatusOther [], False))"
  by (cases s) (simp_all add: jobStatusToProto_def jobStatusFromProto_def pb_enums Valid_def)

text \<open>\<open>sortJobs\<close> orders jobs by submission time and then ID, and whatever order the map was ranged
  over in, and whatever algorithm \<open>sort.Slice\<close> uses, jobs with distinct IDs end up in one order: any
  arrangement of them that never has a later job before an earlier one is this one.\<close>

theorem sort_jobs_is_the_only_order:
  assumes "distinct (map job_ID js)" "mset ks = mset js"
  shows "sorted_wrt (\<lambda>a b. \<not> job_before b a) (sortJobs js) \<and> mset (sortJobs js) = mset js \<and>
     (sorted_wrt (\<lambda>a b. \<not> job_before b a) ks \<longrightarrow> ks = sortJobs js)"
proof -
  let ?key = "\<lambda>j. (SubmittedAt j, job_ID j)"
  have wrt: "sorted_wrt (\<lambda>a b. \<not> job_before b a) xs \<longleftrightarrow> sorted (map ?key xs)" for xs
    unfolding sorted_wrt_map job_before_key not_less ..
  have "set ks = set js" using assms(2) by (rule mset_eq_setD)
  then have set: "set ks = set js" "set (sortJobs js) = set js" by (simp_all add: sortJobs_def)
  have "distinct js" using assms(1) by (simp add: distinct_map)
  then have "distinct ks" "distinct (sortJobs js)"
    using mset_eq_imp_distinct_iff [OF assms(2)] by (simp_all add: sortJobs_def)
  moreover have "inj_on ?key (set ks)"
    using assms(1) set by (auto simp: distinct_map inj_on_def)
  moreover have "sorted (map ?key (sortJobs js))" by (simp add: sortJobs_def)
  ultimately show ?thesis
    using sorted_map_unique [of ?key ks "sortJobs js"] set unfolding wrt by (simp add: sortJobs_def)
qed

theorem sort_jobs_is_the_only_order_witness:
  "mset (sortJobs [sample_job ''b'' 1, sample_job ''a'' 2]) = mset [sample_job ''b'' 1, sample_job ''a'' 2]"
  using sort_jobs_is_the_only_order [of "[sample_job ''b'' 1, sample_job ''a'' 2]" "[sample_job ''b'' 1, sample_job ''a'' 2]"]
  by simp

text \<open>A job message says what the job is: its identity, status, placement and error text, its exit
  code as long as it fits 32 bits, and each timestamp exactly if it is set.\<close>

theorem job_message_is_faithful:
  assumes "jobToProto dNew tsNew (Some j) = Some p" "Valid (job_Status j)" "in_int32 (ExitCode j)"
  shows "Job_GetId (Some p) = job_ID j \<and> jobStatusFromProto (Job_GetStatus (Some p)) = (job_Status j, True) \<and>
     Job_GetAssignedNodeIds (Some p) = AssignedNodeIDs j \<and> Job_GetErrorMessage (Some p) = ErrorMessage j \<and>
     sint (Job_GetExitCode (Some p)) = ExitCode j \<and>
     Job_GetSpec (Some p) = Some (specToProto dNew (job_Spec j)) \<and>
     (Job_GetSubmittedAt (Some p) = None) = time_IsZero (SubmittedAt j) \<and>
     (Job_GetStartedAt (Some p) = None) = time_IsZero (StartedAt j) \<and>
     (Job_GetFinishedAt (Some p) = None) = time_IsZero (FinishedAt j)"
proof -
  have "p = the (jobToProto dNew tsNew (Some j))" using assms(1) by simp
  moreover have "jobStatusFromProto (jobStatusToProto (job_Status j)) = (job_Status j, True)"
    using assms(2) by (cases "job_Status j") (simp_all add: jobStatusToProto_def jobStatusFromProto_def Valid_def)
  ultimately show ?thesis using assms(3) by (simp add: jobToProto_def pb_getters timestampOrNil_def)
qed

theorem job_message_is_faithful_witness:
  "jobStatusFromProto (Job_GetStatus (jobToProto (\<lambda>d. d) (\<lambda>t. t) (Some (sample_job ''a'' 2)))) = (StatusPending, True)"
proof -
  have "jobToProto (\<lambda>d. d) (\<lambda>t. t) (Some (sample_job ''a'' 2)) = Some (the (jobToProto (\<lambda>d. d) (\<lambda>t. t) (Some (sample_job ''a'' 2))))"
    by (simp add: jobToProto_def)
  from job_message_is_faithful [OF this] this show ?thesis by (simp add: Valid_def in_int32_def sample_job_def)
qed

end
