(* ===== verification/Server.thy ===== *)
theory Server
  imports Convert
begin

text \<open>
  The controller's RPC handlers, \<open>src/internal/controller/server.go\<close>.  The components a server is made
  over are shared with the scheduler (\<open>cmd/controller/main.go\<close> passes the same pointers to both), so
  the server holds them as the scheduler's state.  A handler is one function on the state: the calls
  it makes, in order, each of which is atomic under its component's mutex.  \<open>now\<close> is the clock reading
  of the handler's one timed call.
\<close>

section \<open>State\<close>

datatype rpc_code = InvalidArgument | NotFound | Internal | FailedPrecondition

type_synonym 'a rpc = "(rpc_code \<times> string) + 'a"

definition MaxServerThreads :: nat where "MaxServerThreads = 256"

text \<open>\<open>srv_sched\<close> says whether a scheduler was given; \<open>idSeq\<close> is the atomic 64-bit counter.\<close>

record 'dur Server =
  comps :: "'dur Hub Scheduler"
  srv_monitor :: Monitor
  srv_sched :: bool
  idSeq :: "64 word"

definition New_Server ::
  "Registry option \<Rightarrow> Monitor option \<Rightarrow> JobManager option \<Rightarrow> 'dur Hub option \<Rightarrow> bool \<Rightarrow> 'dur Server" where
  "New_Server reg mon js hub sched =
     (let reg = (case reg of None \<Rightarrow> Make_Registry | Some r \<Rightarrow> r);
          js = (case js of None \<Rightarrow> Make_JobManager | Some m \<Rightarrow> m);
          hub = (case hub of None \<Rightarrow> NewHub | Some h \<Rightarrow> h);
          mon = (case mon of None \<Rightarrow> fst (MakeMonitor (Some reg) 0 0) | Some m \<Rightarrow> m)
      in \<lparr>comps = Make_Scheduler (Some js) (Some reg) hub, srv_monitor = mon, srv_sched = sched, idSeq = 0\<rparr>)"

definition Make_Server :: "Registry option \<Rightarrow> Monitor option \<Rightarrow> 'dur Server" where
  "Make_Server reg mon = New_Server reg mon None None False"

abbreviation srv_registry :: "'dur Server \<Rightarrow> Registry" where "srv_registry s \<equiv> registry (comps s)"
abbreviation srv_jobs :: "'dur Server \<Rightarrow> JobManager" where "srv_jobs s \<equiv> jobManager (comps s)"
abbreviation srv_hub :: "'dur Server \<Rightarrow> 'dur Hub" where "srv_hub s \<equiv> dispatch (comps s)"

definition set_registry :: "Registry \<Rightarrow> 'dur Server \<Rightarrow> 'dur Server" where
  "set_registry r s = s\<lparr>comps := (comps s)\<lparr>registry := r\<rparr>\<rparr>"

definition set_jobs :: "JobManager \<Rightarrow> 'dur Server \<Rightarrow> 'dur Server" where
  "set_jobs m s = s\<lparr>comps := (comps s)\<lparr>jobManager := m\<rparr>\<rparr>"

definition set_hub :: "'dur Hub \<Rightarrow> 'dur Server \<Rightarrow> 'dur Server" where
  "set_hub h s = s\<lparr>comps := (comps s)\<lparr>dispatch := h\<rparr>\<rparr>"

definition srv_kick :: "'dur Server \<Rightarrow> 'dur Server" where
  "srv_kick s = (if srv_sched s then s\<lparr>comps := Kick (comps s)\<rparr> else s)"

text \<open>
  The server \<open>cmd/controller/main.go\<close> builds, for the timeout of its flag: the scheduler and the server
  hold the same components, and the monitor the same registry.  The rest of \<open>main\<close> is in \<open>Daemon\<close>.
\<close>

definition controller_main :: "duration \<Rightarrow> 'dur Server" where
  "controller_main timeout =
     (let sched = Make_Scheduler (Some Make_JobManager) (Some Make_Registry) NewHub
      in (case MakeMonitor (Some (registry sched)) timeout 0 of
            (mon, reg) \<Rightarrow> New_Server (Some reg) (Some mon) (Some (jobManager sched)) (Some (dispatch sched)) True))"

section \<open>Nodes\<close>

definition Server_RegisterNode ::
  "instant \<Rightarrow> pb_RegisterNodeRequest option \<Rightarrow> 'dur Server \<Rightarrow> pb_RegisterNodeResponse rpc \<times> 'dur Server" where
  "Server_RegisterNode now req s =
     (let spec = RegisterNodeRequest_GetSpec req
      in if spec = None then (Inl (InvalidArgument, ''spec is required''), s)
      else
        let nid = NodeSpec_GetId spec;
            nid = (if nid = [] then NodeSpec_GetHostname spec else nid)
        in if nid = [] then (Inl (InvalidArgument, ''node id or hostname is required''), s)
        else
          let cpus = sint (NodeSpec_GetTotalCpus spec);
              cpus = (if cpus < 1 then 1 else cpus);
              node = zero_Node\<lparr>node_ID := nid, Hostname := NodeSpec_GetHostname spec,
                       Address := NodeSpec_GetAddress spec, TotalCPUs := cpus, node_Status := StatusOnline\<rparr>
          in (Inr \<lparr>RegisterNodeResponse_NodeId = nid\<rparr>,
              srv_kick (set_registry (RegisterNode now node (srv_registry s)) s)))"

definition Server_Heartbeat ::
  "pb_HeartbeatRequest option \<Rightarrow> 'dur Server \<Rightarrow> pb_HeartbeatResponse rpc \<times> 'dur Server" where
  "Server_Heartbeat req s =
     (let nid = HeartbeatRequest_GetNodeId req
      in if nid = [] then (Inl (InvalidArgument, ''node_id is required''), s)
      else if Reg_Get nid (srv_registry s) = None then (Inl (NotFound, ''node not registered''), s)
      else
        let s1 = s\<lparr>srv_monitor := Record nid (srv_monitor s)\<rparr>
        in (Inr \<lparr>HeartbeatResponse_Acknowledged = True,
                 HeartbeatResponse_CancelJobId = PendingCancel nid (srv_hub s1)\<rparr>, s1))"

definition Server_ListNodes :: "(instant \<Rightarrow> 'ts) \<Rightarrow> 'dur Server \<Rightarrow> 'ts pb_ListNodesResponse rpc" where
  "Server_ListNodes tsNew s =
     Inr \<lparr>ListNodesResponse_Nodes = map (nodeToProto tsNew) (ListNodes (srv_registry s))\<rparr>"

section \<open>Jobs\<close>

definition job_name :: "64 word \<Rightarrow> string" where
  "job_name n = ''job-'' @ nat_digits (unat n)"

definition Server_SubmitJob ::
  "('dur \<Rightarrow> duration) \<Rightarrow> (duration \<Rightarrow> 'dur) \<Rightarrow> (instant \<Rightarrow> 'ts) \<Rightarrow> instant \<Rightarrow>
   'dur pb_SubmitJobRequest option \<Rightarrow> 'dur Server \<Rightarrow> ('dur, 'ts) pb_SubmitJobResponse rpc \<times> 'dur Server" where
  "Server_SubmitJob asDur dNew tsNew now req s =
     (case specFromProto asDur (SubmitJobRequest_GetSpec req) of
        Inl err \<Rightarrow> (Inl (InvalidArgument, error_text err), s)
      | Inr spec \<Rightarrow>
          let s1 = s\<lparr>idSeq := idSeq s + 1\<rparr>;
              jid = job_name (idSeq s1)
          in (case New_Job now jid spec of
                Inl err \<Rightarrow> (Inl (InvalidArgument, error_text err), s1)
              | Inr j \<Rightarrow>
                  (case Submit (Some j) (srv_jobs s1) of
                     (Some err, m) \<Rightarrow> (Inl (Internal, ''submit: '' @ error_text err), set_jobs m s1)
                   | (None, m) \<Rightarrow>
                       let s2 = srv_kick (set_jobs m s1)
                       in (case JM_Get jid (srv_jobs s2) of
                             Inl err \<Rightarrow> (Inl (Internal, ''submit: '' @ error_text err), s2)
                           | Inr stored \<Rightarrow> (Inr \<lparr>SubmitJobResponse_Job = jobToProto dNew tsNew (Some stored)\<rparr>, s2)))))"

text \<open>\<open>ks\<close> is the order in which \<open>List\<close> ranges over the jobs.\<close>

definition Server_ListJobs ::
  "(duration \<Rightarrow> 'dur) \<Rightarrow> (instant \<Rightarrow> 'ts) \<Rightarrow> string list \<Rightarrow> pb_ListJobsRequest option \<Rightarrow> 'dur Server \<Rightarrow>
   ('dur, 'ts) pb_ListJobsResponse rpc" where
  "Server_ListJobs dNew tsNew ks req s =
     (let statuses = map fst (filter snd (map jobStatusFromProto (ListJobsRequest_GetStatuses req)));
          js = sortJobs (JM_List ks statuses (srv_jobs s))
      in Inr \<lparr>ListJobsResponse_Jobs = map (\<lambda>j. the (jobToProto dNew tsNew (Some j))) js\<rparr>)"

text \<open>The status of an error of \<open>Get\<close>.\<close>

definition get_error :: "go_error \<Rightarrow> rpc_code \<times> string" where
  "get_error err = (if err = ErrJobNotFound then (NotFound, error_text err) else (Internal, error_text err))"

text \<open>The rest of \<open>CancelJob\<close>, once \<open>Get\<close> has returned the copy \<open>j\<close> of the job.\<close>

definition cancel_found ::
  "(duration \<Rightarrow> 'dur) \<Rightarrow> (instant \<Rightarrow> 'ts) \<Rightarrow> instant \<Rightarrow> string \<Rightarrow> Job \<Rightarrow> 'dur Server \<Rightarrow>
   ('dur, 'ts) pb_CancelJobResponse rpc \<times> 'dur Server" where
  "cancel_found dNew tsNew now jid j s =
     (case JM_Cancel now jid (srv_jobs s) of
        (Inl err, m) \<Rightarrow> (Inl (FailedPrecondition, error_text err), set_jobs m s)
      | (Inr signal, m) \<Rightarrow>
          let s1 = set_jobs m s;
              s2 = (if signal
                    then srv_kick
                      (set_hub (NotifyCancel (AssignedNodeIDs j) jid (srv_hub s1))
                        (set_registry (ReleaseNodes (AssignedNodeIDs j) (CPUsPerNode (Resources (job_Spec j)))
                          (srv_registry s1)) s1))
                    else s1)
          in (case JM_Get jid (srv_jobs s2) of
                Inl err \<Rightarrow> (Inl (Internal, error_text err), s2)
              | Inr cancelled \<Rightarrow> (Inr \<lparr>CancelJobResponse_Job = jobToProto dNew tsNew (Some cancelled)\<rparr>, s2)))"

definition Server_CancelJob ::
  "(duration \<Rightarrow> 'dur) \<Rightarrow> (instant \<Rightarrow> 'ts) \<Rightarrow> instant \<Rightarrow> pb_CancelJobRequest option \<Rightarrow> 'dur Server \<Rightarrow>
   ('dur, 'ts) pb_CancelJobResponse rpc \<times> 'dur Server" where
  "Server_CancelJob dNew tsNew now req s =
     (let jid = CancelJobRequest_GetJobId req
      in if jid = [] then (Inl (InvalidArgument, ''job_id is required''), s)
      else case JM_Get jid (srv_jobs s) of
        Inl err \<Rightarrow> (Inl (get_error err), s)
      | Inr j \<Rightarrow> cancel_found dNew tsNew now jid j s)"

text \<open>The rest of \<open>ReportJobStatus\<close>, once \<open>Get\<close> has returned the copy \<open>prior\<close> (\<open>before\<close> in the source) of the job.\<close>

definition report_found ::
  "instant \<Rightarrow> pb_ReportJobStatusRequest option \<Rightarrow> Job \<Rightarrow> 'dur Server \<Rightarrow> pb_ReportJobStatusResponse rpc \<times> 'dur Server" where
  "report_found now req prior s =
     (let nodeID = ReportJobStatusRequest_GetNodeId req;
          jobID = ReportJobStatusRequest_GetJobId req;
          event = ReportJobStatusRequest_GetEvent req;
          ack = Inr \<lparr>ReportJobStatusResponse_Acknowledged = True\<rparr>;
          failed = (event = JOB_EVENT_FAILED \<or> event = JOB_EVENT_CANCELLED)
      in if event = JOB_EVENT_CANCELLED then (ack, set_hub (ClearCancel nodeID jobID (srv_hub s)) s)
      else
        (case ReportNodeEvent now jobID nodeID failed (sint (ReportJobStatusRequest_GetExitCode req))
                (ReportJobStatusRequest_GetErrorMessage req) (srv_jobs s) of
           (Some err, m) \<Rightarrow> (Inl (InvalidArgument, error_text err), set_jobs m s)
         | (None, m) \<Rightarrow>
             let s1 = set_jobs m s;
                 s2 = set_hub (ClearCancel nodeID jobID (srv_hub s1)) s1
             in (case JM_Get jobID (srv_jobs s2) of
                   Inl err \<Rightarrow> (Inl (Internal, error_text err), s2)
                 | Inr after \<Rightarrow>
                     if Terminal (job_Status after) \<and> \<not> Terminal (job_Status prior)
                     then
                       let s3 = set_registry (ReleaseNodes (AssignedNodeIDs after)
                                  (CPUsPerNode (Resources (job_Spec after))) (srv_registry s2)) s2;
                           others = filter (\<lambda>n. n \<noteq> nodeID) (AssignedNodeIDs after);
                           s4 = (if job_Status after = StatusFailed
                                 then set_hub (NotifyCancel others jobID (srv_hub s3)) s3
                                 else s3)
                       in (ack, srv_kick s4)
                     else (ack, s2))))"

definition Server_ReportJobStatus ::
  "instant \<Rightarrow> pb_ReportJobStatusRequest option \<Rightarrow> 'dur Server \<Rightarrow> pb_ReportJobStatusResponse rpc \<times> 'dur Server" where
  "Server_ReportJobStatus now req s =
     (let nodeID = ReportJobStatusRequest_GetNodeId req;
          jobID = ReportJobStatusRequest_GetJobId req;
          ack = Inr \<lparr>ReportJobStatusResponse_Acknowledged = True\<rparr>
      in if nodeID = [] \<or> jobID = [] then (Inl (InvalidArgument, ''node_id and job_id are required''), s)
      else if Reg_Get nodeID (srv_registry s) = None then (Inl (NotFound, ''node not registered''), s)
      else
        let event = ReportJobStatusRequest_GetEvent req
        in if event = JOB_EVENT_STARTED \<or> event = JOB_EVENT_UNSPECIFIED then (ack, s)
        else case JM_Get jobID (srv_jobs s) of
          Inl err \<Rightarrow> (Inl (get_error err), s)
        | Inr prior \<Rightarrow> report_found now req prior s)"

section \<open>The work stream\<close>

text \<open>
  \<open>WatchWork\<close> checks its request and subscribes, or refuses.  Its loop then takes one of two cases:
  the stream's context is done, or the channel yields (and sending on the stream may fail with
  \<open>err\<close>).  On return the deferred \<open>Unsubscribe\<close> runs.
\<close>

definition WatchWork_open :: "pb_WatchWorkRequest option \<Rightarrow> 'dur Server \<Rightarrow> nat rpc \<times> 'dur Server" where
  "WatchWork_open req s =
     (let nodeID = WatchWorkRequest_GetNodeId req
      in if nodeID = [] then (Inl (InvalidArgument, ''node_id is required''), s)
      else if Reg_Get nodeID (srv_registry s) = None then (Inl (NotFound, ''node not registered''), s)
      else case Subscribe nodeID (srv_hub s) of (ch, h) \<Rightarrow> (Inr ch, set_hub h s))"

datatype watch_case = CtxDone | FromChannel "go_error option"

datatype watch_end = Running | Ended "go_error option"

definition watch_step ::
  "string \<Rightarrow> nat \<Rightarrow> watch_case \<Rightarrow> 'dur Hub \<Rightarrow> 'dur message list \<times> watch_end \<times> 'dur Hub" where
  "watch_step nodeID ch c h = (case c of
     CtxDone \<Rightarrow> ([], Ended None, Unsubscribe nodeID ch h)
   | FromChannel sent \<Rightarrow>
       (case receive ch h of
          (Blocked, h') \<Rightarrow> ([], Running, h')
        | (ChanClosed, h') \<Rightarrow> ([], Ended None, Unsubscribe nodeID ch h')
        | (Received msg, h') \<Rightarrow>
            (case sent of
               None \<Rightarrow> ([msg], Running, h')
             | Some err \<Rightarrow> ([], Ended (Some err), Unsubscribe nodeID ch h'))))"

fun watch_loop ::
  "string \<Rightarrow> nat \<Rightarrow> watch_case list \<Rightarrow> 'dur Hub \<Rightarrow> 'dur message list \<times> watch_end \<times> 'dur Hub" where
  "watch_loop nodeID ch [] h = ([], Running, h)"
| "watch_loop nodeID ch (c # cs) h =
     (case watch_step nodeID ch c h of
        (msgs, Ended e, h') \<Rightarrow> (msgs, Ended e, h')
      | (msgs, Running, h') \<Rightarrow> (case watch_loop nodeID ch cs h' of (msgs', e, h'') \<Rightarrow> (msgs @ msgs', e, h'')))"

end
