(* ===== verification/Placement.thy ===== *)
theory Placement
  imports Server
begin

text \<open>
  Who carries what: the relation between the nodes of the registry and the gangs of the running jobs,
  and what each operation of the registry, the job manager and the monitor does to it.  Nothing here
  is code; it is the vocabulary in which \<open>System\<close> states the invariant of the controller.
\<close>

section \<open>Placement\<close>

text \<open>
  \<open>g\<close> gives the gang of a running job, its nodes and the CPUs taken on each.  A node is free with
  nothing allocated, or carries a running job whose gang it is in, with just that job's CPUs; and
  every node of a gang carries its job.
\<close>

definition load :: "Registry \<Rightarrow> string \<Rightarrow> (string \<times> int) option" where
  "load r k = map_option (\<lambda>n. (CurrentJobID n, AllocatedCPUs n)) (fmlookup (nodes r) k)"

definition placed :: "(string \<Rightarrow> (string list \<times> int) option) \<Rightarrow> Registry \<Rightarrow> bool" where
  "placed g r \<longleftrightarrow>
     (\<forall>k a. load r k = Some ([], a) \<longrightarrow> a = 0) \<and>
     (\<forall>k jid a. load r k = Some (jid, a) \<longrightarrow> jid \<noteq> [] \<longrightarrow> (\<exists>ids. g jid = Some (ids, a) \<and> k \<in> set ids)) \<and>
     (\<forall>jid ids cpus. g jid = Some (ids, cpus) \<longrightarrow> jid \<noteq> [] \<and> distinct ids \<and>
        (\<forall>k \<in> set ids. load r k = Some (jid, cpus)))"

lemma placedI:
  assumes "\<And>k a. load r k = Some ([], a) \<Longrightarrow> a = 0"
    and "\<And>k jid a. load r k = Some (jid, a) \<Longrightarrow> jid \<noteq> [] \<Longrightarrow> \<exists>ids. g jid = Some (ids, a) \<and> k \<in> set ids"
    and "\<And>jid ids cpus. g jid = Some (ids, cpus) \<Longrightarrow> jid \<noteq> [] \<and> distinct ids \<and> (\<forall>k \<in> set ids. load r k = Some (jid, cpus))"
  shows "placed g r"
  unfolding placed_def using assms by blast

lemma placed_node: "placed g r \<Longrightarrow> load r k = Some (jid, a) \<Longrightarrow> jid \<noteq> [] \<Longrightarrow> \<exists>ids. g jid = Some (ids, a) \<and> k \<in> set ids"
  unfolding placed_def by blast

lemma placed_idle: "placed g r \<Longrightarrow> load r k = Some ([], a) \<Longrightarrow> a = 0"
  unfolding placed_def by blast

lemma placed_gang:
  "placed g r \<Longrightarrow> g jid = Some (ids, cpus) \<Longrightarrow> jid \<noteq> [] \<and> distinct ids \<and> (\<forall>k \<in> set ids. load r k = Some (jid, cpus))"
  unfolding placed_def by blast

text \<open>Changes that keep what each node carries keep the placement.\<close>

lemma placed_same_load: "(\<And>k. load r' k = load r k) \<Longrightarrow> placed g r' = placed g r"
  by (simp add: placed_def)

text \<open>Releasing a gang as its job stops running.\<close>

lemma placed_release:
  assumes "placed g r" "g jid = Some (ids, cpus)"
  shows "placed (g(jid := None)) (ReleaseNodes ids cpus r)"
proof -
  note gang = placed_gang [OF assms]
  have look: "load (ReleaseNodes ids cpus r) k = (if k \<in> set ids then Some ([], 0) else load r k)" for k
  proof (cases "k \<in> set ids")
    case True
    with gang have "load r k = Some (jid, cpus)" by blast
    with True gang show ?thesis
      by (auto simp: load_def ReleaseNodes_lookup released_def in_int64_def)
  qed (simp add: load_def ReleaseNodes_frame)
  show ?thesis
  proof (rule placedI)
    show "a = 0" if "load (ReleaseNodes ids cpus r) k = Some ([], a)" for k a
      using that placed_idle [OF assms(1), of k a] by (simp add: look split: if_splits)
    show "\<exists>ids'. (g(jid := None)) jid' = Some (ids', a) \<and> k \<in> set ids'"
      if "load (ReleaseNodes ids cpus r) k = Some (jid', a)" "jid' \<noteq> []" for k jid' a
      using that placed_node [OF assms(1), of k jid' a] assms(2) by (auto simp: look split: if_splits)
    show "jid' \<noteq> [] \<and> distinct ids' \<and> (\<forall>k \<in> set ids'. load (ReleaseNodes ids cpus r) k = Some (jid', c))"
      if "(g(jid := None)) jid' = Some (ids', c)" for jid' ids' c
      using that placed_gang [OF assms(1), of jid' ids' c] gang by (auto simp: look split: if_splits)
  qed
qed

text \<open>Reserving a gang as its job starts to run.\<close>

lemma placed_reserve:
  assumes "placed g r" "g jid = None" "reg_cpus r" "distinct ids" "ReserveNodes jid ids cpus r = (None, r')"
  shows "placed (g(jid := Some (ids, cpus))) r'"
proof -
  have ok: "fst (ReserveNodes jid ids cpus r) = None" using assms(5) by simp
  then have jid: "jid \<noteq> []" "1 \<le> cpus" by (simp_all add: ReserveNodes_None_iff)
  have idle: "load r k = Some ([], 0)" and taken: "load r' k = Some (jid, cpus)" if "k \<in> set ids" for k
  proof -
    from ok that obtain n where n: "fmlookup (nodes r) k = Some n" "free_for cpus n"
      by (auto simp: ReserveNodes_None_iff)
    then have "load r k = Some ([], AllocatedCPUs n)" by (simp add: load_def free_for_def)
    moreover from placed_idle [OF assms(1) this] have zero: "AllocatedCPUs n = 0" .
    ultimately show "load r k = Some ([], 0)" by simp
    show "load r' k = Some (jid, cpus)"
      using n that zero assms(5) ReserveNodes_lookup [OF assms(4) ok, of k]
        reserved_exact(1) [OF reg_cpusD [OF assms(3) n(1)] n(2) jid(2), of jid]
      by (simp add: load_def reserved_def)
  qed
  have other: "load r' k = load r k" if "k \<notin> set ids" for k
    using that ReserveNodes_lookup [OF assms(4) ok, of k] assms(5) by (simp add: load_def)
  show ?thesis
  proof (rule placedI)
    show "a = 0" if "load r' k = Some ([], a)" for k a
      using that placed_idle [OF assms(1), of k a] taken [of k] other [of k] jid(1) by (cases "k \<in> set ids") simp_all
    show "\<exists>ids'. (g(jid := Some (ids, cpus))) jid' = Some (ids', a) \<and> k \<in> set ids'"
      if "load r' k = Some (jid', a)" "jid' \<noteq> []" for k jid' a
      using that placed_node [OF assms(1), of k jid' a] taken [of k] other [of k] assms(2)
      by (cases "k \<in> set ids") auto
    show "jid' \<noteq> [] \<and> distinct ids' \<and> (\<forall>k \<in> set ids'. load r' k = Some (jid', c))"
      if "(g(jid := Some (ids, cpus))) jid' = Some (ids', c)" for jid' ids' c
    proof (cases "jid' = jid")
      case False
      then have g: "g jid' = Some (ids', c)" using that by simp
      have "k \<notin> set ids" if "k \<in> set ids'" for k
        using that placed_gang [OF assms(1) g] idle [of k] by auto
      with placed_gang [OF assms(1) g] other show ?thesis by auto
    qed (use that jid assms(4) taken in auto)
  qed
qed

section \<open>What the registry's other operations do to the placement\<close>

lemma load_Touch [simp]: "load (snd (Touch now x r)) k = load r k"
  by (simp add: Touch_def load_def split: option.split)

lemma load_drain_loop [simp]: "load (drain_loop clk ids r) k = load r k"
  by (induction ids arbitrary: clk r) simp_all

lemma load_offline [simp]:
  "fmlookup (nodes r) x = Some n \<Longrightarrow>
   load (r\<lparr>nodes := fmupd x (n\<lparr>node_Status := st\<rparr>) (nodes r)\<rparr>) k = load r k"
  by (auto simp: load_def)

lemma load_reap_loop [simp]: "load (snd (reap_loop now timeout ks r)) k = load r k"
  by (induction ks arbitrary: r) (simp_all add: Let_def split_beta split: option.split)

lemma load_ReapStale [simp]: "load (snd (ReapStale ks now timeout r)) k = load r k"
  by (simp add: ReapStale_def)

lemma reap_loop_dead_load:
  "n \<in> set (fst (reap_loop now timeout ks r)) \<Longrightarrow> \<exists>k. load r k = Some (CurrentJobID n, AllocatedCPUs n)"
proof (induction ks arbitrary: r)
  case (Cons k ks)
  show ?case
  proof (cases "fmlookup (nodes r) k")
    case (Some x)
    then have "load r k = Some (CurrentJobID x, AllocatedCPUs x)" by (simp add: load_def)
    moreover have "load (r\<lparr>nodes := fmupd k (x\<lparr>node_Status := StatusOffline\<rparr>) (nodes r)\<rparr>) k' = load r k'" for k'
      using Some by (rule load_offline)
    ultimately show ?thesis
      using Cons.prems Some Cons.IH [of r] Cons.IH [of "r\<lparr>nodes := fmupd k (x\<lparr>node_Status := StatusOffline\<rparr>) (nodes r)\<rparr>"]
      by (auto simp: Let_def split_beta split: if_splits)
  qed (use Cons in auto)
qed simp

lemma ReapStale_dead_load:
  "n \<in> set (fst (ReapStale ks now timeout r)) \<Longrightarrow> \<exists>k. load r k = Some (CurrentJobID n, AllocatedCPUs n)"
  by (auto simp: ReapStale_def dest: reap_loop_dead_load split: if_splits)

lemma load_RegisterNode:
  "node_ID node \<noteq> [] \<Longrightarrow> load (RegisterNode now node r) k =
     (if k = node_ID node \<and> load r k = None then Some (CurrentJobID node, AllocatedCPUs node) else load r k)"
  by (auto simp: RegisterNode_def Let_def load_def split: option.split)

lemma placed_RegisterNode:
  assumes "placed g r" "CurrentJobID node = []" "AllocatedCPUs node = 0"
  shows "placed g (RegisterNode now node r)"
proof (cases "node_ID node = []")
  case True
  with assms(1) show ?thesis by (simp add: RegisterNode_def)
next
  case False
  note look = load_RegisterNode [OF False]
  show ?thesis
  proof (rule placedI)
    show "a = 0" if "load (RegisterNode now node r) k = Some ([], a)" for k a
      using that assms(2,3) placed_idle [OF assms(1), of k a] by (simp add: look split: if_splits)
    show "\<exists>ids. g jid = Some (ids, a) \<and> k \<in> set ids"
      if "load (RegisterNode now node r) k = Some (jid, a)" "jid \<noteq> []" for k jid a
      using that assms(2) placed_node [OF assms(1), of k jid a] by (simp add: look split: if_splits)
    show "jid \<noteq> [] \<and> distinct ids \<and> (\<forall>k \<in> set ids. load (RegisterNode now node r) k = Some (jid, c))"
      if "g jid = Some (ids, c)" for jid ids c
      using placed_gang [OF assms(1) that] by (simp add: look)
  qed
qed

section \<open>Lost nodes\<close>

text \<open>
  Each lost node's job is failed once, and its gang released with it, so the placement holds again
  after every turn of the loop; a property that failing a job keeps holds at the end.
\<close>

context job_failure
begin

lemma placed_dead_loop:
  assumes "placed (gang f) r"
    and "\<forall>n \<in> set dead. CurrentJobID n \<noteq> [] \<longrightarrow> CurrentJobID n |\<notin>| seen \<longrightarrow> gang f (CurrentJobID n) \<noteq> None"
  shows "placed (gang (snd (dead_loop (Some fail) clk seen dead r f))) (fst (dead_loop (Some fail) clk seen dead r f))"
  using assms
proof (induction dead arbitrary: clk seen r f)
  case (Cons n dead)
  show ?case
  proof (cases "CurrentJobID n = [] \<or> CurrentJobID n |\<in>| seen")
    case True
    show ?thesis unfolding dead_loop_skip [OF True] using Cons.prems by (intro Cons.IH) auto
  next
    case False
    then have n: "CurrentJobID n \<noteq> []" "CurrentJobID n |\<notin>| seen" by auto
    with Cons.prems(2) obtain ids cpus where gang: "gang f (CurrentJobID n) = Some (ids, cpus)"
      by (cases "gang f (CurrentJobID n)") auto
    let ?f = "snd (fail (clk 0) (CurrentJobID n) (''node '' @ node_ID n @ '' lost'') f)"
    have "placed (gang ?f) (ReleaseNodes ids cpus r)"
      unfolding fail_gang using Cons.prems(1) gang by (rule placed_release)
    moreover have "\<forall>x \<in> set dead. CurrentJobID x \<noteq> [] \<longrightarrow> CurrentJobID x |\<notin>| finsert (CurrentJobID n) seen \<longrightarrow>
        gang ?f (CurrentJobID x) \<noteq> None"
      using Cons.prems(2) by (auto simp: fail_gang)
    ultimately show ?thesis unfolding dead_loop_step [OF n] gang using Cons.IH by simp
  qed
qed simp

lemma dead_loop_keeps:
  assumes "\<And>now jid reason f. P f \<Longrightarrow> P (snd (fail now jid reason f))"
  shows "P f \<Longrightarrow> P (snd (dead_loop (Some fail) clk seen dead r f))"
proof (induction dead arbitrary: clk seen r f)
  case (Cons n dead)
  then show ?case
    by (cases "CurrentJobID n = [] \<or> CurrentJobID n |\<in>| seen")
      (auto simp: dead_loop_rules assms simp del: dead_loop.simps)
qed simp

end

section \<open>What the job manager's operations do to the gangs\<close>

lemma running_gang_Submit: "running_gang (snd (Submit job m)) = running_gang m"
  if "\<forall>j. job = Some j \<longrightarrow> job_Status j = StatusPending"
  using that by (auto simp: Submit_def running_gang_def fun_eq_iff split: option.split)

lemma running_gang_Cancel:
  "running_gang (snd (JM_Cancel now jid m)) = (running_gang m)(jid := None)"
  by (auto simp: JM_Cancel_eq running_gang_def fun_eq_iff Let_def split: option.split)

lemma running_gang_MarkFailed:
  "running_gang (snd (JM_MarkFailed now jid c msg m)) = (running_gang m)(jid := None)"
  by (auto simp: JM_MarkFailed_def Job_MarkFailed_running running_gang_def fun_eq_iff
      dest!: Job_MarkFailed_InrD split: option.split sum.split)

lemma running_gang_Report:
  "running_gang (snd (ReportNodeEvent now jid n failed c msg m)) =
     (if running_gang (snd (ReportNodeEvent now jid n failed c msg m)) jid = None
      then (running_gang m)(jid := None) else running_gang m)"
  by (auto simp: ReportNodeEvent_eq running_gang_def fun_eq_iff Let_def split: option.split)

lemma running_gang_MarkRunning:
  assumes "fmlookup (jobs m) jid = Some j" "job_Status j = StatusPending"
  shows "running_gang (snd (JM_MarkRunning now jid ids m)) =
    (running_gang m)(jid := Some (ids, CPUsPerNode (Resources (job_Spec j))))"
  using assms by (auto simp: MarkRunning_pending running_gang_def fun_eq_iff)

lemma running_gang_pending:
  "fmlookup (jobs m) jid = Some j \<Longrightarrow> job_Status j \<noteq> StatusRunning \<Longrightarrow> running_gang m jid = None"
  by (simp add: running_gang_def)

text \<open>A running job has as many nodes as it requires, a pending job none.\<close>

definition sized :: "JobManager \<Rightarrow> bool" where
  "sized m \<longleftrightarrow> (\<forall>jid j. fmlookup (jobs m) jid = Some j \<longrightarrow>
     Spec_Validate (job_Spec j) = None \<and>
     (job_Status j = StatusRunning \<longrightarrow> int (length (AssignedNodeIDs j)) = NodesRequired (Resources (job_Spec j))) \<and>
     (job_Status j = StatusPending \<longrightarrow> AssignedNodeIDs j = []))"

lemma sized_Cancel: "sized m \<Longrightarrow> sized (snd (JM_Cancel now jid m))"
  by (auto simp: JM_Cancel_eq Let_def sized_def split: option.split)

lemma sized_FailRunningJob: "sized m \<Longrightarrow> sized (snd (FailRunningJob now jid reason m))"
  by (auto simp: FailRunningJob_eq sized_def split: option.split)

lemma sized_Report: "sized m \<Longrightarrow> sized (snd (ReportNodeEvent now jid n failed c msg m))"
  by (auto simp: ReportNodeEvent_eq Let_def sized_def split: option.split)

text \<open>No job is stored under the empty ID.\<close>

lemma nokey_Cancel: "fmlookup (jobs m) [] = None \<Longrightarrow> fmlookup (jobs (snd (JM_Cancel now jid m))) [] = None"
  by (auto simp: JM_Cancel_eq Let_def split: option.split)

lemma nokey_FailRunningJob:
  "fmlookup (jobs m) [] = None \<Longrightarrow> fmlookup (jobs (snd (FailRunningJob now jid reason m))) [] = None"
  by (auto simp: FailRunningJob_eq split: option.split)

lemma nokey_Report:
  "fmlookup (jobs m) [] = None \<Longrightarrow> fmlookup (jobs (snd (ReportNodeEvent now jid n failed c msg m))) [] = None"
  by (auto simp: ReportNodeEvent_eq Let_def split: option.split)

end
