(* ===== verification/System.thy ===== *)
theory System
  imports Placement
begin

text \<open>
  The controller as a whole: the RPC handlers, the scheduler's attempts and the monitor's turns acting
  on the shared components in any order, and the invariant that ties the registry to the job
  manager: the nodes that carry a job are exactly the gangs of the running jobs.
\<close>

section \<open>The invariant of the controller\<close>

definition sys_ok :: "JobManager \<Rightarrow> Registry \<Rightarrow> bool" where
  "sys_ok m r \<longleftrightarrow> jm_inv m \<and> fmlookup (jobs m) [] = None \<and> sized m \<and> reg_inv r \<and> reg_cpus r \<and>
     placed (running_gang m) r"

definition srv_inv :: "'dur Server \<Rightarrow> bool" where
  "srv_inv s \<longleftrightarrow> sys_ok (srv_jobs s) (srv_registry s) \<and> hub_inv (srv_hub s) \<and> mon_inv (srv_monitor s)"

lemma sys_ok_sched: "sys_ok m r \<Longrightarrow> jobManager s = m \<Longrightarrow> registry s = r \<Longrightarrow> sched_inv s"
  by (simp add: sys_ok_def sched_inv_def reg_usable_def)

lemma set_simps [simp]:
  "srv_jobs (set_jobs m s) = m" "srv_registry (set_jobs m s) = srv_registry s"
  "srv_hub (set_jobs m s) = srv_hub s" "srv_monitor (set_jobs m s) = srv_monitor s"
  "srv_jobs (set_registry r s) = srv_jobs s" "srv_registry (set_registry r s) = r"
  "srv_hub (set_registry r s) = srv_hub s" "srv_monitor (set_registry r s) = srv_monitor s"
  "srv_jobs (set_hub h s) = srv_jobs s" "srv_registry (set_hub h s) = srv_registry s"
  "srv_hub (set_hub h s) = h" "srv_monitor (set_hub h s) = srv_monitor s"
  "srv_jobs (srv_kick s) = srv_jobs s" "srv_registry (srv_kick s) = srv_registry s"
  "srv_hub (srv_kick s) = srv_hub s" "srv_monitor (srv_kick s) = srv_monitor s"
  "idSeq (set_jobs m s) = idSeq s" "idSeq (set_registry r s) = idSeq s" "idSeq (set_hub h s) = idSeq s"
  "idSeq (srv_kick s) = idSeq s"
  by (simp_all add: set_jobs_def set_registry_def set_hub_def srv_kick_def Kick_def)

lemma srv_inv_kick [simp]: "srv_inv (srv_kick s) = srv_inv s"
  by (simp add: srv_inv_def)

lemma srv_inv_set_hub: "srv_inv s \<Longrightarrow> hub_inv h \<Longrightarrow> srv_inv (set_hub h s)"
  by (simp add: srv_inv_def)

text \<open>The job manager moves on: its gangs stay, or one of them ends and its nodes are released.\<close>

lemma sys_ok_same:
  assumes "sys_ok m r" "jm_inv m'" "fmlookup (jobs m') [] = None" "sized m'" "running_gang m' = running_gang m"
  shows "sys_ok m' r"
  using assms by (simp add: sys_ok_def)

lemma sys_ok_end:
  assumes "sys_ok m r" "jm_inv m'" "fmlookup (jobs m') [] = None" "sized m'"
    and "running_gang m jid = Some (ids, cpus)" "running_gang m' = (running_gang m)(jid := None)"
  shows "sys_ok m' (ReleaseNodes ids cpus r)"
  using assms by (simp add: sys_ok_def placed_release reg_inv_ReleaseNodes reg_cpus_ReleaseNodes)

lemma sys_okD:
  "sys_ok m r \<Longrightarrow> jm_inv m" "sys_ok m r \<Longrightarrow> fmlookup (jobs m) [] = None" "sys_ok m r \<Longrightarrow> sized m"
  "sys_ok m r \<Longrightarrow> reg_inv r" "sys_ok m r \<Longrightarrow> reg_cpus r" "sys_ok m r \<Longrightarrow> placed (running_gang m) r"
  by (simp_all add: sys_ok_def)

section \<open>Every handler keeps the invariant\<close>

lemma sys_ok_RegisterNode:
  assumes "sys_ok m r" "CurrentJobID node = []" "AllocatedCPUs node = 0" "cpus_ok node"
  shows "sys_ok m (RegisterNode now node r)"
  using assms by (simp add: sys_ok_def placed_RegisterNode reg_inv_RegisterNode reg_cpus_RegisterNode)

lemma srv_inv_RegisterNode [inv_intros]:
  assumes "srv_inv s"
  shows "srv_inv (snd (Server_RegisterNode now req s))"
proof -
  have "in_int64 (sint (w :: int32))" for w by (simp add: in_int32_in_int64)
  then have ok: "cpus_ok (zero_Node\<lparr>node_ID := a, Hostname := b, Address := c,
      TotalCPUs := if sint (w :: int32) < 1 then 1 else sint w, node_Status := st\<rparr>)" for a b c w st
    by (simp add: cpus_ok_def zero_Node_def in_int64_def)
  have "sys_ok (srv_jobs s) (RegisterNode now (zero_Node\<lparr>node_ID := a, Hostname := b, Address := c,
      TotalCPUs := if sint (w :: int32) < 1 then 1 else sint w, node_Status := st\<rparr>) (srv_registry s))" for a b c w st
    using assms by (intro sys_ok_RegisterNode ok) (simp_all add: srv_inv_def zero_Node_def)
  with assms show ?thesis
    by (simp add: Server_RegisterNode_def Let_def srv_inv_def)
qed

lemma srv_inv_Heartbeat [inv_intros]: "srv_inv s \<Longrightarrow> srv_inv (snd (Server_Heartbeat req s))"
  by (simp add: Server_Heartbeat_def Let_def srv_inv_def mon_inv_Record)

lemma sys_ok_Submit:
  assumes "sys_ok m r" "job_Status j = StatusPending" "job_ID j \<noteq> []" "AssignedNodeIDs j = []"
    "Spec_Validate (job_Spec j) = None"
  shows "sys_ok (snd (Submit (Some j) m)) r"
proof (rule sys_ok_same [OF assms(1)])
  show "jm_inv (snd (Submit (Some j) m))" by (rule jm_inv_Submit [OF sys_okD(1) [OF assms(1)]])
  show "fmlookup (jobs (snd (Submit (Some j) m))) [] = None" "sized (snd (Submit (Some j) m))"
    using assms(2-5) sys_okD(2,3) [OF assms(1)] by (auto simp: Submit_def sized_def split: option.split)
  show "running_gang (snd (Submit (Some j) m)) = running_gang m"
    using assms(2) by (intro running_gang_Submit) simp
qed

lemma srv_inv_SubmitJob [inv_intros]:
  assumes "srv_inv s"
  shows "srv_inv (snd (Server_SubmitJob asDur dNew tsNew now req s))"
proof -
  have "sys_ok m (srv_registry s)"
    if "New_Job now jid spec = Inr j" "Submit (Some j) (srv_jobs s) = (e, m)" for jid spec j e m
    using New_Job_Inr [OF that(1)] assms that(2) sys_ok_Submit [of "srv_jobs s" "srv_registry s" j]
      not_blank_nonempty [of jid]
    by (simp add: srv_inv_def)
  with assms show ?thesis
    by (auto simp: Server_SubmitJob_def Let_def srv_inv_def split: sum.split option.split prod.split)
qed

lemma sys_ok_Cancel:
  assumes "sys_ok m r" "fmlookup (jobs m) jid = Some j"
  shows "sys_ok (snd (JM_Cancel now jid m))
    (if job_Status j = StatusRunning then ReleaseNodes (AssignedNodeIDs j) (CPUsPerNode (Resources (job_Spec j))) r else r)"
proof -
  note ok = jm_inv_Cancel [OF sys_okD(1) [OF assms(1)]] nokey_Cancel [OF sys_okD(2) [OF assms(1)]]
    sized_Cancel [OF sys_okD(3) [OF assms(1)]]
  show ?thesis
  proof (cases "job_Status j = StatusRunning")
    case True
    with assms(2) have "running_gang m jid = Some (AssignedNodeIDs j, CPUsPerNode (Resources (job_Spec j)))"
      by (simp add: running_gang_def)
    from sys_ok_end [OF assms(1) ok this running_gang_Cancel] True show ?thesis by simp
  next
    case False
    with assms(2) have "(running_gang m)(jid := None) = running_gang m"
      by (simp add: running_gang_def fun_eq_iff)
    with sys_ok_same [OF assms(1) ok] False show ?thesis by (simp add: running_gang_Cancel)
  qed
qed

lemma srv_inv_CancelJob [inv_intros]:
  assumes "srv_inv s"
  shows "srv_inv (snd (Server_CancelJob dNew tsNew now req s))"
proof -
  let ?jid = "CancelJobRequest_GetJobId req"
  show ?thesis
  proof (cases "fmlookup (jobs (srv_jobs s)) ?jid")
    case None
    with assms show ?thesis by (simp add: Server_CancelJob_def JM_Get_def Let_def)
  next
    case (Some j)
    obtain res m where c: "JM_Cancel now ?jid (srv_jobs s) = (res, m)" by fastforce
    have "sys_ok (srv_jobs s) (srv_registry s)" using assms by (simp add: srv_inv_def)
    from sys_ok_Cancel [OF this Some, of now] c
    have ok: "sys_ok m (if job_Status j = StatusRunning
        then ReleaseNodes (AssignedNodeIDs j) (CPUsPerNode (Resources (job_Spec j))) (srv_registry s) else srv_registry s)"
      by simp
    have sig: "case res of Inl err \<Rightarrow> job_Status j \<noteq> StatusRunning | Inr signal \<Rightarrow> signal = (job_Status j = StatusRunning)"
      using c Some by (auto simp: JM_Cancel_eq Let_def split: if_splits)
    show ?thesis
      using assms ok sig
      by (cases "job_Status j = StatusRunning"; cases res) (simp_all add: Server_CancelJob_def cancel_found_def JM_Get_def Some c Let_def srv_inv_def hub_inv_NotifyCancel
          split: option.split)
  qed
qed

lemma ReportNodeEvent_job:
  assumes "fmlookup (jobs m) jid = Some j" "ReportNodeEvent now jid n failed c msg m = (e, m')"
  shows "\<exists>j'. fmlookup (jobs m') jid = Some j' \<and> AssignedNodeIDs j' = AssignedNodeIDs j \<and> job_Spec j' = job_Spec j \<and>
     (if Terminal (job_Status j') \<and> \<not> Terminal (job_Status j)
      then job_Status j = StatusRunning \<and> running_gang m' = (running_gang m)(jid := None)
      else running_gang m' = running_gang m) \<and> (e \<noteq> None \<longrightarrow> running_gang m' = running_gang m)"
proof -
  have m': "m' = snd (ReportNodeEvent now jid n failed c msg m)" and e: "e = fst (ReportNodeEvent now jid n failed c msg m)"
    using assms(2) by simp_all
  show ?thesis
    unfolding m' e using assms(1)
    by (auto simp: ReportNodeEvent_eq running_gang_def fun_eq_iff Let_def Terminal_def split: if_splits)
qed

lemma srv_inv_ReportJobStatus [inv_intros]:
  assumes "srv_inv s"
  shows "srv_inv (snd (Server_ReportJobStatus now req s))"
proof -
  let ?jid = "ReportJobStatusRequest_GetJobId req" and ?n = "ReportJobStatusRequest_GetNodeId req"
  let ?ev = "ReportJobStatusRequest_GetEvent req"
  let ?run = "ReportNodeEvent now ?jid ?n (?ev = JOB_EVENT_FAILED)
    (sint (ReportJobStatusRequest_GetExitCode req)) (ReportJobStatusRequest_GetErrorMessage req) (srv_jobs s)"
  show ?thesis
  proof (cases "fmlookup (jobs (srv_jobs s)) ?jid")
    case None
    with assms show ?thesis by (simp add: Server_ReportJobStatus_def report_found_def JM_Get_def Let_def)
  next
    case (Some j)
    obtain e m where r: "?run = (e, m)" by fastforce
    from ReportNodeEvent_job [OF Some r] obtain j' where j': "fmlookup (jobs m) ?jid = Some j'"
        "AssignedNodeIDs j' = AssignedNodeIDs j" "job_Spec j' = job_Spec j"
      and g: "if Terminal (job_Status j') \<and> \<not> Terminal (job_Status j)
        then job_Status j = StatusRunning \<and> running_gang m = (running_gang (srv_jobs s))(?jid := None)
        else running_gang m = running_gang (srv_jobs s)"
      and same: "e \<noteq> None \<longrightarrow> running_gang m = running_gang (srv_jobs s)" by blast
    have sys: "sys_ok (srv_jobs s) (srv_registry s)" using assms by (simp add: srv_inv_def)
    have "m = snd ?run" using r by simp
    then have ok: "jm_inv m" "fmlookup (jobs m) [] = None" "sized m"
      using sys_okD(1-3) [OF sys] by (simp_all add: jm_inv_ReportNodeEvent nokey_Report sized_Report)
    have err: "sys_ok m (srv_registry s)" if "e \<noteq> None"
      using sys_ok_same [OF sys ok] same that by blast
    have fin: "sys_ok m (if Terminal (job_Status j') \<and> \<not> Terminal (job_Status j)
        then ReleaseNodes (AssignedNodeIDs j') (CPUsPerNode (Resources (job_Spec j'))) (srv_registry s) else srv_registry s)"
      using sys_ok_same [OF sys ok] sys_ok_end [OF sys ok, of ?jid "AssignedNodeIDs j'"] g Some j'(2,3)
      by (auto simp: running_gang_def split: if_splits)
    show ?thesis
      using assms err fin
      by (cases "Terminal (job_Status j')"; cases "Terminal (job_Status j)"; cases e)
        (simp_all add: Server_ReportJobStatus_def report_found_def JM_Get_def Some r j'(1) Let_def srv_inv_def
          hub_inv_NotifyCancel hub_inv_ClearCancel)
  qed
qed

lemma srv_inv_WatchWork_open [inv_intros]: "srv_inv s \<Longrightarrow> srv_inv (snd (WatchWork_open req s))"
  using hub_inv_Subscribe [of "srv_hub s" "WatchWorkRequest_GetNodeId req"]
  by (simp add: WatchWork_open_def Let_def split_beta srv_inv_def)

lemma hub_inv_watch_step [inv_intros]: "hub_inv h \<Longrightarrow> hub_inv (snd (snd (watch_step n ch c h)))"
  using hub_inv_receive [of h ch]
  by (auto simp: watch_step_def hub_inv_Unsubscribe split: watch_case.split recv.split option.split prod.split)

section \<open>The scheduler and the monitor keep the invariant\<close>

lemma sized_MarkRunning:
  assumes "sized m" "fmlookup (jobs m) jid = Some j" "job_Status j = StatusPending"
    and "int (length ids) = NodesRequired (Resources (job_Spec j))"
  shows "sized (snd (JM_MarkRunning t jid ids m))"
  using assms by (auto simp: MarkRunning_pending sized_def)

lemma hub_dispatch_total:
  "[] \<notin> set ids \<Longrightarrow> dispatchWork (Some (Dispatch dNew)) j ids d = (None, snd (dispatchWork (Some (Dispatch dNew)) j ids d))"
  using hub_disp.work_ok [of ids dNew j d] by (simp add: prod_eq_iff)

lemma srv_inv_schedule [inv_intros]:
  assumes "srv_inv s"
  shows "srv_inv (s\<lparr>comps := snd (trySchedule (Some (Dispatch dNew)) t1 t2 (comps s))\<rparr>)"
proof -
  let ?s = "comps s"
  have sys: "sys_ok (jobManager ?s) (registry ?s)" and hub: "hub_inv (dispatch ?s)" and mon: "mon_inv (srv_monitor s)"
    using assms by (simp_all add: srv_inv_def)
  have inv: "sched_inv ?s" using sys by (simp add: sys_ok_sched)
  note inv' = sched_inv_trySchedule [OF inv, of "Some (Dispatch dNew)" t1 t2]
  show ?thesis
    using trySchedule_decides [OF inv, of "Some (Dispatch dNew)" t1 t2]
  proof (elim disjE exE conjE)
    fix j ids
    assume peek: "PeekPendingJob (jobManager ?s) = Some j"
      and sel: "SelectGang (ListNodes (registry ?s)) (Resources (job_Spec j)) = Some ids"
    let ?c = "CPUsPerNode (Resources (job_Spec j))"
    let ?m = "snd (JM_MarkRunning t1 (job_ID j) ids (jobManager ?s))"
    let ?r = "snd (ReserveNodes (job_ID j) ids ?c (registry ?s))"
    note head = peek_head [OF sys_okD(1) [OF sys] peek]
    note ne = sched_selected_nonempty [OF inv sel]
    have use: "reg_usable (registry ?s)" using sys by (simp add: sys_ok_def reg_usable_def)
    have jid: "job_ID j \<noteq> []" using head(1) sys_okD(2) [OF sys] by auto
    have dist: "distinct ids" using pool.selected_distinct [OF use sel] .
    have res: "ReserveNodes (job_ID j) ids ?c (registry ?s) = (None, ?r)"
      using pool.selected_reservable [OF use sel jid] by (simp add: prod_eq_iff)
    have len: "int (length ids) = NodesRequired (Resources (job_Spec j))" using SelectGang_Some(1) [OF sel] .
    have run: "trySchedule (Some (Dispatch dNew)) t1 t2 ?s =
        (True, ?s\<lparr>registry := ?r, jobManager := ?m, dispatch := snd (dispatchWork (Some (Dispatch dNew)) j ids (dispatch ?s))\<rparr>)"
      unfolding trySchedule_eq [OF inv peek sel] by (subst hub_dispatch_total [OF ne]) simp
    have "running_gang (jobManager ?s) (job_ID j) = None"
      using head(1,2) by (simp add: running_gang_def)
    from placed_reserve [OF sys_okD(6) [OF sys] this sys_okD(5) [OF sys] dist res]
    have "placed (running_gang ?m) ?r" using running_gang_MarkRunning [OF head(1,2), of t1 ids] by simp
    moreover have "sized ?m" using sized_MarkRunning [OF sys_okD(3) [OF sys] head(1,2) len] .
    ultimately have "sys_ok ?m ?r"
      using inv' run by (simp add: sys_ok_def sched_inv_def reg_usable_def)
    moreover have "hub_inv (snd (dispatchWork (Some (Dispatch dNew)) j ids (dispatch ?s)))"
      using hub_disp.work_ready [OF ne hub] .
    ultimately show ?thesis using run mon by (simp add: srv_inv_def)
  qed (use assms in simp_all)
qed

text \<open>One turn of the monitor over the shared components.\<close>

definition srv_beat :: "instant \<Rightarrow> 'dur Server \<Rightarrow> 'dur Server" where
  "srv_beat now s = (case beat now (srv_monitor s) (srv_registry s) of
     (m, r) \<Rightarrow> set_registry r (s\<lparr>srv_monitor := m\<rparr>))"

definition srv_tick ::
  "(nat \<Rightarrow> instant) \<Rightarrow> string list \<Rightarrow> instant \<Rightarrow> (nat \<Rightarrow> instant) \<Rightarrow> 'dur Server \<Rightarrow> 'dur Server" where
  "srv_tick clk ks now clk' s =
     (case tick (Some Failer_FailRunningJob) clk ks now clk' (srv_monitor s) (srv_registry s)
             (Some (srv_jobs s), Some (srv_hub s)) of
        (mon, r, (Some m, Some h)) \<Rightarrow> set_hub h (set_jobs m (set_registry r (s\<lparr>srv_monitor := mon\<rparr>)))
      | (mon, r, f) \<Rightarrow> set_registry r (s\<lparr>srv_monitor := mon\<rparr>))"

lemma srv_inv_beat [inv_intros]:
  assumes "srv_inv s"
  shows "srv_inv (srv_beat now s)"
proof -
  have "sys_ok m (snd (beat now mon r))" if "sys_ok m r" for m r mon
    using that by (auto simp: sys_ok_def beat_def reg_inv_Touch reg_cpus_Touch
        placed_same_load [of "snd (Touch _ _ r)" r] split: list.split)
  moreover have "reg_inv (srv_registry s)" using assms by (simp add: srv_inv_def sys_ok_def)
  ultimately show ?thesis
    using assms mon_inv_beat [of "srv_monitor s" "srv_registry s" now]
    by (simp add: srv_beat_def split_beta srv_inv_def)
qed

lemma reg_cpus_dead_loop: "reg_cpus r \<Longrightarrow> reg_cpus (fst (dead_loop jf clk seen dead r f))"
proof (induction dead arbitrary: clk seen r f)
  case (Cons n dead)
  then show ?case
    by (auto simp: Let_def reg_cpus_ReleaseNodes simp del: ReleaseNodes_Cons split: option.split prod.split)
qed simp

lemma reg_cpus_drain_loop: "reg_cpus r \<Longrightarrow> reg_cpus (drain_loop clk ids r)"
  by (induction ids arbitrary: clk r) (simp_all add: reg_cpus_Touch)

lemma reg_cpus_reap: "reg_cpus r \<Longrightarrow> reg_cpus (snd (reap_loop now timeout ks r))"
proof (induction ks arbitrary: r)
  case (Cons k ks)
  have "reg_cpus (r\<lparr>nodes := fmupd k (n\<lparr>node_Status := StatusOffline\<rparr>) (nodes r)\<rparr>)"
    if "fmlookup (nodes r) k = Some n" for n
    using reg_cpusD [OF Cons.prems that] Cons.prems by (simp add: reg_cpus_def cpus_ok_def)
  with Cons show ?case by (simp add: Let_def split_beta split: option.split)
qed simp

definition fail_ok :: "JobManager option \<times> 'dur Hub option \<Rightarrow> bool" where
  "fail_ok f \<longleftrightarrow> (\<exists>m h. f = (Some m, Some h) \<and> jm_inv m \<and> fmlookup (jobs m) [] = None \<and> sized m \<and> hub_inv h)"

lemma fail_ok_Failer: "fail_ok f \<Longrightarrow> fail_ok (snd (Failer_FailRunningJob now jid reason f))"
proof -
  assume "fail_ok f"
  then obtain m h where f: "f = (Some m, Some h)" and ok: "jm_inv m" "fmlookup (jobs m) [] = None" "sized m" "hub_inv h"
    by (auto simp: fail_ok_def)
  obtain res m' where r: "FailRunningJob now jid reason m = (res, m')" by fastforce
  then have "m' = snd (FailRunningJob now jid reason m)" by simp
  with ok have "jm_inv m'" "fmlookup (jobs m') [] = None" "sized m'"
    by (simp_all add: jm_inv_FailRunningJob nokey_FailRunningJob sized_FailRunningJob)
  with ok(4) show ?thesis
    by (cases res) (auto simp: f Failer_FailRunningJob_def r fail_ok_def hub_inv_NotifyCancel)
qed

lemma srv_inv_tick [inv_intros]:
  fixes s :: "'dur Server"
  assumes "srv_inv s"
  shows "srv_inv (srv_tick clk ks now clk' s)"
proof -
  let ?f = "(Some (srv_jobs s), Some (srv_hub s))"
  let ?r1 = "drain_loop clk (heartbeats (srv_monitor s)) (srv_registry s)"
  let ?reap = "ReapStale ks now (mon_timeout (srv_monitor s)) ?r1"
  let ?run = "dead_loop (Some Failer_FailRunningJob) clk' {||} (fst ?reap) (snd ?reap) ?f"
  have sys: "sys_ok (srv_jobs s) (srv_registry s)" and hub: "hub_inv (srv_hub s)" and mon: "mon_inv (srv_monitor s)"
    using assms by (simp_all add: srv_inv_def)
  have pl: "placed (running_gang (srv_jobs s)) (snd ?reap)"
    using sys_okD(6) [OF sys] placed_same_load [of "snd ?reap" "srv_registry s"] by simp
  have "running_gang (srv_jobs s) (CurrentJobID n) \<noteq> None" if "n \<in> set (fst ?reap)" "CurrentJobID n \<noteq> []" for n
  proof -
    from ReapStale_dead_load [OF that(1)] obtain k where "load (srv_registry s) k = Some (CurrentJobID n, AllocatedCPUs n)"
      by auto
    from placed_node [OF sys_okD(6) [OF sys] this that(2)] show ?thesis by auto
  qed
  then have "placed (case fst (snd ?run) of None \<Rightarrow> \<lambda>jid. None | Some m \<Rightarrow> running_gang m) (fst ?run)"
    using pl by (intro failer.placed_dead_loop) simp_all
  moreover have "fail_ok ?f" using sys hub by (simp add: fail_ok_def sys_ok_def)
  then have "fail_ok (snd ?run)" by (rule failer.dead_loop_keeps [rotated]) (rule fail_ok_Failer)
  then obtain m h where mh: "snd ?run = (Some m, Some h)" "jm_inv m" "fmlookup (jobs m) [] = None" "sized m" "hub_inv h"
    by (auto simp: fail_ok_def)
  moreover have "reg_inv (fst ?run)" "reg_cpus (fst ?run)"
    using sys by (simp_all add: sys_ok_def reg_inv_dead_loop reg_cpus_dead_loop reg_inv_ReapStale reg_inv_drain_loop
        ReapStale_def reg_cpus_reap reg_inv_reap_loop reg_cpus_drain_loop)
  ultimately have ok: "sys_ok m (fst ?run)" by (simp add: sys_ok_def)
  have "tick (Some Failer_FailRunningJob) clk ks now clk' (srv_monitor s) (srv_registry s) ?f =
      ((srv_monitor s)\<lparr>heartbeats := []\<rparr>, fst ?run, (Some m, Some h))"
    using mh(1) by (simp add: tick_def drainHeartbeats_def handleDeadNodes_eq split_beta Let_def prod_eq_iff)
  then show ?thesis
    using ok mh(5) mon by (simp add: srv_tick_def srv_inv_def mon_inv_def)
qed

section \<open>Runs of the controller\<close>

text \<open>Everything that changes the controller, in any order.\<close>

datatype 'dur srv_op =
    RegisterNodeRPC instant "pb_RegisterNodeRequest option"
  | HeartbeatRPC "pb_HeartbeatRequest option"
  | SubmitJobRPC instant "'dur pb_SubmitJobRequest option"
  | CancelJobRPC instant "pb_CancelJobRequest option"
  | ReportJobStatusRPC instant "pb_ReportJobStatusRequest option"
  | WatchWorkRPC "pb_WatchWorkRequest option"
  | StreamTurn string nat watch_case
  | SchedulerTurn instant instant
  | MonitorBeat instant
  | MonitorTick "nat \<Rightarrow> instant" "string list" instant "nat \<Rightarrow> instant"

definition srv_schedule :: "(duration \<Rightarrow> 'dur) \<Rightarrow> instant \<Rightarrow> instant \<Rightarrow> 'dur Server \<Rightarrow> 'dur Server" where
  "srv_schedule dNew t1 t2 s = s\<lparr>comps := snd (trySchedule (Some (Dispatch dNew)) t1 t2 (comps s))\<rparr>"

fun srv_apply ::
  "('dur \<Rightarrow> duration) \<Rightarrow> (duration \<Rightarrow> 'dur) \<Rightarrow> 'dur srv_op \<Rightarrow> 'dur Server \<Rightarrow> 'dur Server" where
  "srv_apply asDur dNew (RegisterNodeRPC now req) s = snd (Server_RegisterNode now req s)"
| "srv_apply asDur dNew (HeartbeatRPC req) s = snd (Server_Heartbeat req s)"
| "srv_apply asDur dNew (SubmitJobRPC now req) s = snd (Server_SubmitJob asDur dNew (\<lambda>t. t) now req s)"
| "srv_apply asDur dNew (CancelJobRPC now req) s = snd (Server_CancelJob dNew (\<lambda>t. t) now req s)"
| "srv_apply asDur dNew (ReportJobStatusRPC now req) s = snd (Server_ReportJobStatus now req s)"
| "srv_apply asDur dNew (WatchWorkRPC req) s = snd (WatchWork_open req s)"
| "srv_apply asDur dNew (StreamTurn n ch c) s = set_hub (snd (snd (watch_step n ch c (srv_hub s)))) s"
| "srv_apply asDur dNew (SchedulerTurn t1 t2) s = srv_schedule dNew t1 t2 s"
| "srv_apply asDur dNew (MonitorBeat now) s = srv_beat now s"
| "srv_apply asDur dNew (MonitorTick clk ks now clk') s = srv_tick clk ks now clk' s"

lemma srv_inv_apply [inv_intros]: "srv_inv s \<Longrightarrow> srv_inv (srv_apply asDur dNew c s)"
  by (cases c) (simp_all add: inv_intros srv_schedule_def srv_inv_set_hub srv_inv_def [of s])

lemma srv_inv_New [inv_intros]: "srv_inv (New_Server None None None None sched)"
proof -
  have "mon_inv (fst (MakeMonitor (Some r) 0 0))" for r
    by (simp add: mon_inv_def MakeMonitor_def Let_def DefaultHeartbeatTimeout_def Second_def Millisecond_def)
  moreover have "sys_ok Make_JobManager Make_Registry"
    using jm_inv_Make reg_inv_Make
    by (simp add: sys_ok_def sized_def placed_def load_def reg_cpus_def running_gang_def Make_JobManager_def Make_Registry_def)
  ultimately show ?thesis
    by (simp add: New_Server_def Let_def srv_inv_def Make_Scheduler_def hub_inv_NewHub)
qed

lemma srv_inv_main [inv_intros]: "srv_inv (controller_main timeout :: 'dur Server)"
proof -
  let ?s = "controller_main timeout :: 'dur Server" and ?d = "New_Server None None None None True :: 'dur Server"
  have mon: "mon_inv (fst (MakeMonitor (Some r) timeout 0))" for r
    by (simp add: mon_inv_def MakeMonitor_def Let_def DefaultHeartbeatTimeout_def Second_def Millisecond_def)
  have "comps ?s = comps ?d" "srv_monitor ?s = fst (MakeMonitor (Some Make_Registry) timeout 0)"
    by (simp_all add: controller_main_def New_Server_def Let_def Make_Scheduler_def MakeMonitor_def)
  moreover have "srv_inv ?d" by (rule srv_inv_New)
  ultimately show ?thesis using mon by (simp add: srv_inv_def)
qed

lemma main_default: "controller_main 0 = New_Server None None None None True"
  by (simp add: controller_main_def New_Server_def Let_def Make_Scheduler_def MakeMonitor_def)

interpretation controller: guarded_component "New_Server None None None None sched" "srv_apply asDur dNew" srv_inv
  by unfold_locales (simp_all add: inv_intros)

abbreviation srv_run ::
  "('dur \<Rightarrow> duration) \<Rightarrow> (duration \<Rightarrow> 'dur) \<Rightarrow> 'dur srv_op list \<Rightarrow> 'dur Server" where
  "srv_run asDur dNew cs \<equiv> fold (srv_apply asDur dNew) cs (New_Server None None None None True)"

section \<open>Properties\<close>

lemma srv_inv_running:
  assumes "srv_inv s" "fmlookup (jobs (srv_jobs s)) jid = Some j" "job_Status j = StatusRunning"
  shows "distinct (AssignedNodeIDs j)" "int (length (AssignedNodeIDs j)) = NodesRequired (Resources (job_Spec j))"
    "\<forall>k \<in> set (AssignedNodeIDs j). \<exists>n. fmlookup (nodes (srv_registry s)) k = Some n \<and> CurrentJobID n = jid \<and>
       AllocatedCPUs n = CPUsPerNode (Resources (job_Spec j))"
proof -
  have sys: "sys_ok (srv_jobs s) (srv_registry s)" using assms(1) by (simp add: srv_inv_def)
  have g: "running_gang (srv_jobs s) jid = Some (AssignedNodeIDs j, CPUsPerNode (Resources (job_Spec j)))"
    using assms(2,3) by (simp add: running_gang_def)
  from placed_gang [OF sys_okD(6) [OF sys] g] show "distinct (AssignedNodeIDs j)"
    "\<forall>k \<in> set (AssignedNodeIDs j). \<exists>n. fmlookup (nodes (srv_registry s)) k = Some n \<and> CurrentJobID n = jid \<and>
       AllocatedCPUs n = CPUsPerNode (Resources (job_Spec j))"
    by (auto simp: load_def)
  show "int (length (AssignedNodeIDs j)) = NodesRequired (Resources (job_Spec j))"
    using sys_okD(3) [OF sys] assms(2,3) by (auto simp: sized_def)
qed

lemma srv_inv_node:
  assumes "srv_inv s" "fmlookup (nodes (srv_registry s)) k = Some n"
  shows "if CurrentJobID n = [] then AllocatedCPUs n = 0
    else \<exists>j. fmlookup (jobs (srv_jobs s)) (CurrentJobID n) = Some j \<and> job_Status j = StatusRunning \<and>
      k \<in> set (AssignedNodeIDs j) \<and> AllocatedCPUs n = CPUsPerNode (Resources (job_Spec j))"
proof -
  have pl: "placed (running_gang (srv_jobs s)) (srv_registry s)" using assms(1) by (simp add: srv_inv_def sys_ok_def)
  have l: "load (srv_registry s) k = Some (CurrentJobID n, AllocatedCPUs n)" using assms(2) by (simp add: load_def)
  show ?thesis
  proof (cases "CurrentJobID n = []")
    case True
    with l placed_idle [OF pl, of k "AllocatedCPUs n"] show ?thesis by simp
  next
    case False
    from placed_node [OF pl l False] False show ?thesis
      by (auto simp: running_gang_def split: option.splits if_splits)
  qed
qed

text \<open>C1.  The gang invariant of the whole controller: whatever RPCs, scheduling attempts and monitor
  turns happen, in whatever order, every running job holds exactly as many distinct nodes as it
  requires, each of them carrying that job and just its CPUs, and every node is either free with
  nothing allocated or carries a running job whose gang it belongs to.  So no gang is ever partly
  placed, no node is shared, and no node stays reserved for a job that has ended.\<close>

theorem gangs_are_all_or_nothing:
  assumes "s = fold (srv_apply asDur dNew) cs (controller_main timeout)"
  shows "(\<forall>jid j. fmlookup (jobs (srv_jobs s)) jid = Some j \<longrightarrow> job_Status j = StatusRunning \<longrightarrow>
      distinct (AssignedNodeIDs j) \<and> int (length (AssignedNodeIDs j)) = NodesRequired (Resources (job_Spec j)) \<and>
      (\<forall>k \<in> set (AssignedNodeIDs j). \<exists>n. fmlookup (nodes (srv_registry s)) k = Some n \<and>
         CurrentJobID n = jid \<and> AllocatedCPUs n = CPUsPerNode (Resources (job_Spec j)))) \<and>
   (\<forall>k n. fmlookup (nodes (srv_registry s)) k = Some n \<longrightarrow>
      (if CurrentJobID n = [] then AllocatedCPUs n = 0
       else \<exists>j. fmlookup (jobs (srv_jobs s)) (CurrentJobID n) = Some j \<and>
         job_Status j = StatusRunning \<and> k \<in> set (AssignedNodeIDs j) \<and>
         AllocatedCPUs n = CPUsPerNode (Resources (job_Spec j))))"
proof -
  have inv: "srv_inv s" unfolding assms by (rule controller.inv_from [OF srv_inv_main])
  show ?thesis using srv_inv_running [OF inv] srv_inv_node [OF inv] by blast
qed


text \<open>The jobs of a controller are well-formed: whatever it goes through, every stored job is under its
  own name with one of the five statuses and a specification that validates, it is in the queue exactly
  when it is pending and has no nodes then, and it has its collection of reports exactly while it runs.\<close>

theorem stored_jobs_are_well_formed:
  assumes "s = fold (srv_apply asDur dNew) cs (controller_main timeout)"
    and "fmlookup (jobs (srv_jobs s)) jid = Some j"
  shows "job_ID j = jid \<and> jid \<noteq> [] \<and> Valid (job_Status j) \<and> Spec_Validate (job_Spec j) = None \<and>
    (jid \<in> set (pending (srv_jobs s)) \<longleftrightarrow> job_Status j = StatusPending) \<and>
    (job_Status j = StatusPending \<longrightarrow> AssignedNodeIDs j = []) \<and>
    (fmlookup (reports (srv_jobs s)) jid \<noteq> None \<longleftrightarrow> job_Status j = StatusRunning)"
proof -
  have "srv_inv s" unfolding assms(1) by (rule controller.inv_from [OF srv_inv_main])
  then have "jm_inv (srv_jobs s)" "sized (srv_jobs s)" "fmlookup (jobs (srv_jobs s)) [] = None"
    by (simp_all add: srv_inv_def sys_ok_def)
  with assms(2) show ?thesis
    using jm_inv_pending [of "srv_jobs s" jid] jm_inv_reports [of "srv_jobs s" jid]
    by (auto simp: jm_inv_def sized_def is_job_def)
qed

definition sample_request :: "int pb_SubmitJobRequest" where
  "sample_request = \<lparr>SubmitJobRequest_Spec = Some (specToProto (\<lambda>d. d) (sample_spec 1))\<rparr>"

definition sample_node_request :: pb_RegisterNodeRequest where
  "sample_node_request = \<lparr>RegisterNodeRequest_Spec = Some \<lparr>NodeSpec_Id = ''n1'', NodeSpec_Hostname = [],
     NodeSpec_Address = [], NodeSpec_TotalCpus = 4\<rparr>\<rparr>"

definition sample_stored :: Job where
  "sample_stored = (sample_job ''job-1'' 1)\<lparr>SubmittedAt := 2\<rparr>"

lemma sample_submitted: "specFromProto (\<lambda>d. d) (SubmitJobRequest_GetSpec (Some sample_request)) = Inr (sample_spec 1)"
  by (simp add: sample_request_def pb_getters spec_accepted_iff specToProto_def sample_spec_def del: blank.simps)

lemma sample_name: "job_name (0 + 1) = ''job-1''" by code_simp

lemma sample_name_ok: "\<not> blank ''job-1''" by code_simp

lemma sample_new: "New_Job 2 ''job-1'' (sample_spec 1) = Inr sample_stored"
  using sample_name_ok by (simp add: New_Job_def Spec_Validate_None_iff sample_stored_def sample_job_def del: blank.simps split: option.split)

definition sample_run :: "int Server" where
  "sample_run = srv_run (\<lambda>d. d) (\<lambda>d. d)
     [RegisterNodeRPC 1 (Some sample_node_request), SubmitJobRPC 2 (Some sample_request)]"

lemma sample_run_fields:
  "srv_registry sample_run = \<lparr>nodes = fmupd ''n1'' \<lparr>node_ID = ''n1'', Hostname = [], Address = [], node_Status = StatusOnline,
     TotalCPUs = 4, AllocatedCPUs = 0, LastHeartbeat = 1, CurrentJobID = []\<rparr> fmempty\<rparr>"
  "srv_jobs sample_run = \<lparr>pending = [''job-1''], jobs = fmupd ''job-1'' sample_stored fmempty, reports = fmempty\<rparr>"
  "srv_hub sample_run = NewHub"
proof -
  let ?s = "snd (Server_RegisterNode 1 (Some sample_node_request) (New_Server None None None None True)) :: int Server"
  have s: "srv_registry ?s = \<lparr>nodes = fmupd ''n1'' \<lparr>node_ID = ''n1'', Hostname = [], Address = [], node_Status = StatusOnline,
     TotalCPUs = 4, AllocatedCPUs = 0, LastHeartbeat = 1, CurrentJobID = []\<rparr> fmempty\<rparr>"
    "srv_jobs ?s = Make_JobManager" "srv_hub ?s = NewHub" "idSeq ?s = 0"
    by (simp_all add: Server_RegisterNode_def sample_node_request_def pb_getters Let_def New_Server_def Make_Scheduler_def
       Make_Registry_def RegisterNode_def zero_Node_def time_IsZero_def)
  have "Submit (Some sample_stored) Make_JobManager = (None, \<lparr>pending = [''job-1''], jobs = fmupd ''job-1'' sample_stored fmempty, reports = fmempty\<rparr>)"
    by (simp add: Submit_def Make_JobManager_def sample_stored_def)
  then show "srv_registry sample_run = \<lparr>nodes = fmupd ''n1'' \<lparr>node_ID = ''n1'', Hostname = [], Address = [], node_Status = StatusOnline,
     TotalCPUs = 4, AllocatedCPUs = 0, LastHeartbeat = 1, CurrentJobID = []\<rparr> fmempty\<rparr>"
  "srv_jobs sample_run = \<lparr>pending = [''job-1''], jobs = fmupd ''job-1'' sample_stored fmempty, reports = fmempty\<rparr>"
  "srv_hub sample_run = NewHub"
    using s sample_name
    by (simp_all add: sample_run_def Server_SubmitJob_def sample_submitted sample_new Let_def JM_Get_def)
qed

lemma sample_run_attempt:
  "PeekPendingJob (jobManager (comps sample_run)) = Some sample_stored"
  "SelectGang (ListNodes (registry (comps sample_run))) (Resources (job_Spec sample_stored)) = Some [''n1'']"
  by (simp_all add: sample_run_fields PeekPendingJob_def peekPendingID_def ListNodes_def list_nodes_in_def
      SelectGang_def nodeFits_def FreeCPUs_def in_int64_def sample_stored_def)

lemma sample_placed:
  "fmlookup (jobs (srv_jobs (srv_schedule (\<lambda>d. d) 5 6 sample_run))) ''job-1'' =
     Some (sample_stored\<lparr>job_Status := StatusRunning, AssignedNodeIDs := [''n1''], StartedAt := 5\<rparr>)"
proof -
  have "srv_inv sample_run" unfolding sample_run_def by (rule controller.inv_run)
  then have inv: "sched_inv (comps sample_run)" by (simp add: srv_inv_def sys_ok_sched [OF _ refl refl])
  have st: "job_Status sample_stored = StatusPending" "job_ID sample_stored = ''job-1''" by (simp_all add: sample_stored_def)
  have "fmlookup (jobs (srv_jobs sample_run)) ''job-1'' = Some sample_stored" by (simp add: sample_run_fields)
  from MarkRunning_pending [OF this st(1)] st(2) show ?thesis
    unfolding srv_schedule_def trySchedule_eq [OF inv sample_run_attempt]
    by (subst hub_dispatch_total) simp_all
qed


theorem gangs_are_all_or_nothing_witness:
  "\<exists>n. fmlookup (nodes (srv_registry (srv_run (\<lambda>d. d) (\<lambda>d. d) [RegisterNodeRPC 1 (Some sample_node_request),
       SubmitJobRPC 2 (Some sample_request), SchedulerTurn 5 6]))) ''n1'' = Some n \<and>
     CurrentJobID n = ''job-1'' \<and> AllocatedCPUs n = 1"
proof -
  let ?s = "srv_run (\<lambda>d. d) (\<lambda>d. d) [RegisterNodeRPC 1 (Some sample_node_request),
       SubmitJobRPC 2 (Some sample_request), SchedulerTurn 5 6]"
  have "?s = srv_schedule (\<lambda>d. d) 5 6 sample_run" by (simp add: sample_run_def)
  with sample_placed have "fmlookup (jobs (srv_jobs ?s)) ''job-1'' =
      Some (sample_stored\<lparr>job_Status := StatusRunning, AssignedNodeIDs := [''n1''], StartedAt := 5\<rparr>)" by simp
  with gangs_are_all_or_nothing [OF refl, of "\<lambda>d. d" "\<lambda>d. d" "[RegisterNodeRPC 1 (Some sample_node_request),
       SubmitJobRPC 2 (Some sample_request), SchedulerTurn 5 6]" 0, unfolded main_default]
  show ?thesis by (fastforce simp: sample_stored_def simp del: fold_simps)
qed

theorem stored_jobs_are_well_formed_witness:
  "Valid (job_Status sample_stored) \<and> ''job-1'' \<in> set (pending (srv_jobs sample_run))"
proof -
  have s: "sample_run = fold (srv_apply (\<lambda>d. d) (\<lambda>d. d))
      [RegisterNodeRPC 1 (Some sample_node_request), SubmitJobRPC 2 (Some sample_request)] (controller_main 0)"
    unfolding main_default by (rule sample_run_def)
  have "fmlookup (jobs (srv_jobs sample_run)) ''job-1'' = Some sample_stored" by (simp add: sample_run_fields)
  from stored_jobs_are_well_formed [OF s this] show ?thesis by (simp add: sample_stored_def)
qed

text \<open>C34.  \<open>CancelJob\<close> reads the job before it cancels it.  If the scheduler starts the job in between, the
  copy still says that it has no nodes: the job is cancelled, but none of the nodes that the
  scheduler took for it is released or told to stop, and they stay reserved for a job that has
  ended.\<close>

theorem cancel_race_leaks_gang:
  assumes "srv_inv s" "JM_Get jid (srv_jobs s) = Inr j" "job_Status j = StatusPending"
    and "fmlookup (jobs (srv_jobs (srv_schedule dNew t1 t2 s))) jid = Some j1" "job_Status j1 = StatusRunning"
    and "s2 = snd (cancel_found dNew tsNew now jid j (srv_schedule dNew t1 t2 s))"
  shows "fmlookup (jobs (srv_jobs s2)) jid = Some (j1\<lparr>job_Status := StatusCancelled, FinishedAt := now\<rparr>) \<and>
     (\<forall>k \<in> set (AssignedNodeIDs j1). \<exists>n. fmlookup (nodes (srv_registry s2)) k = Some n \<and> CurrentJobID n = jid \<and>
        AllocatedCPUs n = CPUsPerNode (Resources (job_Spec j1)) \<and>
        PendingCancel k (srv_hub s2) = PendingCancel k (srv_hub (srv_schedule dNew t1 t2 s)))"
proof -
  let ?s1 = "srv_schedule dNew t1 t2 s"
  have "fmlookup (jobs (srv_jobs s)) jid = Some j" using assms(2) by (simp add: JM_Get_def split: option.splits)
  then have none: "AssignedNodeIDs j = []"
    using assms(1,3) by (auto simp: srv_inv_def sys_ok_def sized_def)
  have inv: "srv_inv ?s1" using srv_inv_schedule [OF assms(1)] by (simp add: srv_schedule_def)
  have jm: "JM_Cancel now jid (srv_jobs ?s1) = (Inr True, (srv_jobs ?s1)
      \<lparr>jobs := fmupd jid (j1\<lparr>job_Status := StatusCancelled, FinishedAt := now\<rparr>) (jobs (srv_jobs ?s1)),
       reports := fmdrop jid (reports (srv_jobs ?s1))\<rparr>)"
    using assms(4,5) by (simp add: JM_Cancel_eq)
  have "srv_jobs s2 = snd (JM_Cancel now jid (srv_jobs ?s1))" "srv_registry s2 = srv_registry ?s1"
    "PendingCancel k (srv_hub s2) = PendingCancel k (srv_hub ?s1)" for k
    unfolding assms(6) by (simp_all add: cancel_found_def jm none JM_Get_def NotifyCancel_def Let_def)
  with jm srv_inv_running(3) [OF inv assms(4,5)] show ?thesis by simp
qed

theorem cancel_race_leaks_gang_witness:
  "fmlookup (jobs (srv_jobs (snd (cancel_found (\<lambda>d. d) (\<lambda>t. t) 9 ''job-1'' sample_stored (srv_schedule (\<lambda>d. d) 5 6 sample_run))))) ''job-1''
     = Some (sample_stored\<lparr>job_Status := StatusCancelled, AssignedNodeIDs := [''n1''], StartedAt := 5, FinishedAt := 9\<rparr>) \<and>
   (\<exists>n. fmlookup (nodes (srv_registry (snd (cancel_found (\<lambda>d. d) (\<lambda>t. t) 9 ''job-1'' sample_stored
          (srv_schedule (\<lambda>d. d) 5 6 sample_run))))) ''n1'' = Some n \<and> CurrentJobID n = ''job-1'')"
proof -
  have inv: "srv_inv sample_run" unfolding sample_run_def by (rule controller.inv_run)
  have get: "JM_Get ''job-1'' (srv_jobs sample_run) = Inr sample_stored" "job_Status sample_stored = StatusPending"
    by (simp_all add: JM_Get_def sample_run_fields sample_stored_def)
  have "job_Status (sample_stored\<lparr>job_Status := StatusRunning, AssignedNodeIDs := [''n1''], StartedAt := 5\<rparr>) = StatusRunning"
    by simp
  from cancel_race_leaks_gang [OF inv get sample_placed this refl, of "\<lambda>t. t" 9] show ?thesis by auto
qed

section \<open>Names of jobs\<close>

text \<open>Every stored job was named by the counter, and the counter has moved at most once per turn.\<close>

definition named :: "'dur Server \<Rightarrow> bool" where
  "named s \<longleftrightarrow> (\<forall>jid. fmlookup (jobs (srv_jobs s)) jid \<noteq> None \<longrightarrow>
     (\<exists>i \<le> unat (idSeq s). jid = ''job-'' @ nat_digits i))"

lemma named_mono:
  assumes "named s" "fmdom' (jobs (srv_jobs s')) \<subseteq> fmdom' (jobs (srv_jobs s))" "idSeq s' = idSeq s"
  shows "named s'"
  using assms by (auto simp: named_def subset_iff mem_fmdom')

lemma dom_Cancel [simp]: "fmdom' (jobs (snd (JM_Cancel now jid m))) = fmdom' (jobs m)"
  by (auto simp: JM_Cancel_eq Let_def mem_fmdom' split: option.split)

lemma dom_Report [simp]: "fmdom' (jobs (snd (ReportNodeEvent now jid n failed c msg m))) = fmdom' (jobs m)"
  by (auto simp: ReportNodeEvent_eq Let_def mem_fmdom' split: option.split)

lemma dom_MarkRunning [simp]: "fmdom' (jobs (snd (JM_MarkRunning t jid ids m))) = fmdom' (jobs m)"
  by (auto simp: JM_MarkRunning_def Let_def mem_fmdom' split: option.split sum.split)

lemma dom_MarkFailed [simp]: "fmdom' (jobs (snd (JM_MarkFailed t jid c msg m))) = fmdom' (jobs m)"
  by (auto simp: JM_MarkFailed_def mem_fmdom' split: option.split sum.split)

lemma dom_FailRunningJob [simp]: "fmdom' (jobs (snd (FailRunningJob now jid reason m))) = fmdom' (jobs m)"
  by (auto simp: FailRunningJob_eq mem_fmdom' split: option.split)

lemma dom_trySchedule [simp]:
  "fmdom' (jobs (jobManager (snd (trySchedule dispo t1 t2 c)))) = fmdom' (jobs (jobManager c))"
proof -
  have "fmdom' (jobs m1) = fmdom' (jobs m)" if "JM_MarkRunning t jid ids m = (e, m1)" for t jid ids m e m1
    using dom_MarkRunning [of t jid ids m] that by simp
  then show ?thesis by (auto simp: trySchedule_def Let_def split: option.split prod.split)
qed

lemma srv_tick_frame: "fmdom' (jobs (srv_jobs (srv_tick clk ks now clk' s))) = fmdom' (jobs (srv_jobs s))"
    "idSeq (srv_tick clk ks now clk' s) = idSeq s"
proof -
  let ?D = "fmdom' (jobs (srv_jobs s))" and ?f = "(Some (srv_jobs s), Some (srv_hub s))"
  let ?P = "\<lambda>f. \<exists>m. fst f = Some m \<and> fmdom' (jobs m) = ?D"
  have keep: "?P (snd (Failer_FailRunningJob now jid reason f))" if "?P f" for now jid reason f
    using that by (cases f) (auto simp: Failer_eq)
  have "?P ?f" by simp
  then have "?P (snd (dead_loop (Some Failer_FailRunningJob) clk seen dead r ?f))" for clk seen dead r
    by (rule failer.dead_loop_keeps [where P = ?P, rotated]) (rule keep)
  then have "?P (snd (snd (tick (Some Failer_FailRunningJob) clk ks now clk' (srv_monitor s) (srv_registry s) ?f)))"
    unfolding tick_def handleDeadNodes_eq split_beta Let_def by simp
  then obtain mon r m h where t: "tick (Some Failer_FailRunningJob) clk ks now clk' (srv_monitor s) (srv_registry s) ?f = (mon, r, (Some m, h))"
      and d: "fmdom' (jobs m) = ?D"
    by (metis prod.collapse)
  show "fmdom' (jobs (srv_jobs (srv_tick clk ks now clk' s))) = fmdom' (jobs (srv_jobs s))"
    "idSeq (srv_tick clk ks now clk' s) = idSeq s"
    using d by (cases h; simp add: srv_tick_def t)+
qed

lemma cancel_frame:
  "fmdom' (jobs (srv_jobs (snd (Server_CancelJob dNew tsNew now req s)))) = fmdom' (jobs (srv_jobs s))"
  "idSeq (snd (Server_CancelJob dNew tsNew now req s)) = idSeq s"
proof -
  have "fmdom' (jobs m) = fmdom' (jobs (srv_jobs s))" if "JM_Cancel now jid (srv_jobs s) = (res, m)" for jid res m
    using dom_Cancel [of now jid "srv_jobs s"] that by simp
  then show "fmdom' (jobs (srv_jobs (snd (Server_CancelJob dNew tsNew now req s)))) = fmdom' (jobs (srv_jobs s))"
    "idSeq (snd (Server_CancelJob dNew tsNew now req s)) = idSeq s"
    by (auto simp: Server_CancelJob_def cancel_found_def Let_def split: sum.split prod.split)
qed

lemma report_frame:
  "fmdom' (jobs (srv_jobs (snd (Server_ReportJobStatus now req s)))) = fmdom' (jobs (srv_jobs s))"
  "idSeq (snd (Server_ReportJobStatus now req s)) = idSeq s"
proof -
  have "fmdom' (jobs m) = fmdom' (jobs (srv_jobs s))" if "ReportNodeEvent t jid n b c msg (srv_jobs s) = (e, m)" for t jid n b c msg e m
    using dom_Report [of t jid n b c msg "srv_jobs s"] that by simp
  then show "fmdom' (jobs (srv_jobs (snd (Server_ReportJobStatus now req s)))) = fmdom' (jobs (srv_jobs s))"
    "idSeq (snd (Server_ReportJobStatus now req s)) = idSeq s"
    by (auto simp: Server_ReportJobStatus_def report_found_def Let_def split: sum.split option.split prod.split)
qed

lemma unat_Suc_word: "unat (w :: 64 word) + 1 < 2 ^ 64 \<Longrightarrow> unat (w + 1) = unat w + 1"
  by (simp add: unat_word_ariths)

lemma named_Submit:
  assumes "named s" "unat (idSeq s) + 1 < 2 ^ 64"
  shows "named (snd (Server_SubmitJob asDur dNew tsNew now req s)) \<and>
    unat (idSeq (snd (Server_SubmitJob asDur dNew tsNew now req s))) \<le> unat (idSeq s) + 1"
proof -
  let ?w = "idSeq s + 1"
  have w: "unat ?w = unat (idSeq s) + 1" using unat_Suc_word [OF assms(2)] .
  have old: "\<exists>i \<le> unat ?w. jid = ''job-'' @ nat_digits i" if "fmlookup (jobs (srv_jobs s)) jid \<noteq> None" for jid
  proof -
    from assms(1) that obtain i where "i \<le> unat (idSeq s)" "jid = ''job-'' @ nat_digits i"
      unfolding named_def by blast
    then show ?thesis using w by (intro exI [of _ i]) simp
  qed
  have sub: "\<exists>i \<le> unat ?w. jid = ''job-'' @ nat_digits i"
    if "New_Job now (job_name ?w) spec = Inr j" "Submit (Some j) (srv_jobs s) = (e, m)" "fmlookup (jobs m) jid \<noteq> None" for spec j e m jid
  proof (cases "jid = job_ID j")
    case True
    then show ?thesis using New_Job_Inr [OF that(1)] by (auto simp: job_name_def)
  next
    case False
    then have "fmlookup (jobs (srv_jobs s)) jid \<noteq> None"
      using that(2,3) by (auto simp: Submit_def split: if_splits option.splits)
    then show ?thesis by (rule old)
  qed
  show ?thesis
    using assms(1) w old sub
    by (auto simp: Server_SubmitJob_def Let_def named_def split: sum.split option.split prod.split)
qed

lemma named_apply:
  assumes "named s" "unat (idSeq s) + 1 < 2 ^ 64"
  shows "named (srv_apply asDur dNew c s) \<and> unat (idSeq (srv_apply asDur dNew c s)) \<le> unat (idSeq s) + 1"
proof (cases c)
  case (SubmitJobRPC now req)
  with named_Submit [OF assms] show ?thesis by simp
qed (auto simp: cancel_frame report_frame srv_tick_frame srv_schedule_def srv_beat_def Server_RegisterNode_def
    Server_Heartbeat_def WatchWork_open_def Let_def split_beta intro!: named_mono [OF assms(1)])

lemma named_run:
  "length cs < 2 ^ 64 \<Longrightarrow> named (srv_run asDur dNew cs) \<and> unat (idSeq (srv_run asDur dNew cs)) \<le> length cs"
proof (induction cs rule: rev_induct)
  case Nil
  then show ?case by (simp add: named_def New_Server_def Let_def Make_Scheduler_def Make_JobManager_def)
next
  case (snoc c cs)
  then have IH: "named (srv_run asDur dNew cs)" "unat (idSeq (srv_run asDur dNew cs)) \<le> length cs" by simp_all
  then have "unat (idSeq (srv_run asDur dNew cs)) + 1 < 2 ^ 64" using snoc.prems by simp
  with named_apply [OF IH(1) this, of asDur dNew c] IH(2) show ?case by simp
qed

lemma job_name_ok [simp]: "\<not> blank (''job-'' @ s)"
  by (simp add: ascii_space_def space2_def space3_def)

lemma submission:
  assumes "s = srv_run asDur dNew cs" "length cs + 1 < 2 ^ 64"
    and "specFromProto asDur (SubmitJobRequest_GetSpec req) = Inr spec"
  shows "\<exists>j. fst (Server_SubmitJob asDur dNew tsNew now req s) =
       Inr \<lparr>SubmitJobResponse_Job = jobToProto dNew tsNew (Some j)\<rparr> \<and>
     job_Status j = StatusPending \<and> job_Spec j = spec \<and> SubmittedAt j = now \<and>
     fmlookup (jobs (srv_jobs s)) (job_ID j) = None \<and>
     jobs (srv_jobs (snd (Server_SubmitJob asDur dNew tsNew now req s))) = fmupd (job_ID j) j (jobs (srv_jobs s)) \<and>
     pending (srv_jobs (snd (Server_SubmitJob asDur dNew tsNew now req s))) = pending (srv_jobs s) @ [job_ID j] \<and>
     srv_registry (snd (Server_SubmitJob asDur dNew tsNew now req s)) = srv_registry s"
proof -
  let ?jid = "job_name (idSeq s + 1)"
  from named_run [of cs asDur dNew] assms(1,2) have n: "named s" "unat (idSeq s) + 1 < 2 ^ 64" by simp_all
  have free: "fmlookup (jobs (srv_jobs s)) ?jid = None"
  proof (rule ccontr)
    assume "fmlookup (jobs (srv_jobs s)) ?jid \<noteq> None"
    with n(1) obtain i where "i \<le> unat (idSeq s)" "?jid = ''job-'' @ nat_digits i" by (auto simp: named_def)
    then show False using unat_Suc_word [OF n(2)] by (simp add: job_name_def nat_digits_inj)
  qed
  have "\<not> blank ?jid" unfolding job_name_def by (rule job_name_ok)
  moreover have "Spec_Validate spec = None"
    using assms(3) by (auto simp: spec_accepted_iff Spec_Validate_None_iff split: option.splits)
  ultimately obtain j where j: "New_Job now ?jid spec = Inr j" by (simp add: New_Job_def)
  note new = New_Job_Inr [OF j]
  then have "Submit (Some j) (srv_jobs s) =
      (None, (srv_jobs s)\<lparr>jobs := fmupd ?jid j (jobs (srv_jobs s)), pending := pending (srv_jobs s) @ [?jid]\<rparr>)"
    using free by (simp add: Submit_def)
  then show ?thesis
    using new free by (intro exI [of _ j]) (simp add: Server_SubmitJob_def assms(3) Let_def j JM_Get_def)
qed

text \<open>Submission never fails for a valid specification, however the controller got where it is (in
  fewer than \<open>2 ^ 64\<close> turns): the job gets a name no other job has, joins the end of the queue as
  pending, and is what the answer describes; other jobs and all nodes are untouched.\<close>

theorem submission_always_succeeds:
  assumes "s = srv_run asDur dNew cs" "length cs + 1 < 2 ^ 64"
    and "specFromProto asDur (SubmitJobRequest_GetSpec req) = Inr spec"
  shows "\<exists>j. fst (Server_SubmitJob asDur dNew tsNew now req s) =
       Inr \<lparr>SubmitJobResponse_Job = jobToProto dNew tsNew (Some j)\<rparr> \<and>
     job_Status j = StatusPending \<and> job_Spec j = spec \<and> SubmittedAt j = now \<and>
     fmlookup (jobs (srv_jobs s)) (job_ID j) = None \<and>
     jobs (srv_jobs (snd (Server_SubmitJob asDur dNew tsNew now req s))) = fmupd (job_ID j) j (jobs (srv_jobs s)) \<and>
     pending (srv_jobs (snd (Server_SubmitJob asDur dNew tsNew now req s))) = pending (srv_jobs s) @ [job_ID j] \<and>
     srv_registry (snd (Server_SubmitJob asDur dNew tsNew now req s)) = srv_registry s"
  using assms by (rule submission)

theorem submission_always_succeeds_witness:
  "\<exists>j. fst (Server_SubmitJob (\<lambda>d. d) (\<lambda>d. d) (\<lambda>t. t) 7 (Some sample_request) sample_run) =
       Inr \<lparr>SubmitJobResponse_Job = jobToProto (\<lambda>d. d) (\<lambda>t. t) (Some j)\<rparr> \<and> job_Spec j = sample_spec 1"
  using submission_always_succeeds [OF sample_run_def _ sample_submitted, of "\<lambda>t. t" 7] by auto

end
