(* ===== verification/Flags.thy ===== *)
theory Flags
  imports Prelude "HOL-Library.Sublist"
begin

text \<open>
  The command lines of the three programs (\<open>src/cmd\<close>): the scan of the arguments follows the standard library's
  \<open>flag\<close> package; how it reads a number or a duration is the argument \<open>setv\<close> of the model.
\<close>

section \<open>The scan\<close>

text \<open>A scan ends with the values and the remaining arguments, or the program exits with a status.\<close>

datatype 's parsed = Parsed 's "string list" | Exit nat

text \<open>\<open>name=value\<close> is cut at the first \<open>=\<close> that is not the first character.\<close>

definition cut_value :: "string \<Rightarrow> string \<times> string option" where
  "cut_value s = (let n = takeWhile (\<lambda>c. c \<noteq> CHR ''='') (tl s)
     in if n = tl s then (s, None) else (hd s # n, Some (drop (length n + 2) s)))"

text \<open>
  \<open>setv name value\<close> updates the values, or is \<open>None\<close> when the value does not parse; \<open>known\<close> says which
  flags are defined.  All flags of the program take a value.  The sets are made with \<open>ExitOnError\<close>:
  status 0 after \<open>-h\<close> or \<open>-help\<close>, and 2 after an error.
\<close>

fun parse_flags ::
  "(string \<Rightarrow> bool) \<Rightarrow> (string \<Rightarrow> string \<Rightarrow> 's \<Rightarrow> 's option) \<Rightarrow> string list \<Rightarrow> 's \<Rightarrow> 's parsed" where
  "parse_flags known setv [] st = Parsed st []"
| "parse_flags known setv (s # args) st =
     (if length s < 2 \<or> hd s \<noteq> CHR ''-'' then Parsed st (s # args)
      else if s = ''--'' then Parsed st args
      else
        let name = (if s ! 1 = CHR ''-'' then drop 2 s else drop 1 s)
        in if name = [] \<or> hd name = CHR ''-'' \<or> hd name = CHR ''='' then Exit 2
        else (case cut_value name of
          (flag, value) \<Rightarrow>
            if \<not> known flag then Exit (if flag = ''help'' \<or> flag = ''h'' then 0 else 2)
            else (case value of
              Some v \<Rightarrow> (case setv flag v st of None \<Rightarrow> Exit 2 | Some st \<Rightarrow> parse_flags known setv args st)
            | None \<Rightarrow> (case args of
                [] \<Rightarrow> Exit 2
              | v # args \<Rightarrow> (case setv flag v st of None \<Rightarrow> Exit 2 | Some st \<Rightarrow> parse_flags known setv args st)))))"

lemma parse_flags_once:
  "parse_flags known setv (s # args) st = Exit c \<Longrightarrow>
   c = 0 \<or> c = 2 \<or> (\<exists>args' st'. length args' \<le> length args \<and> parse_flags known setv args' st' = Exit c)"
  by (auto simp: Let_def split: if_splits prod.splits option.splits list.splits; use le_SucI in blast)

lemma parse_flags_exit: "parse_flags known setv args st = Exit c \<Longrightarrow> c = 0 \<or> c = 2"
proof (induction "length args" arbitrary: args st rule: less_induct)
  case less
  show ?case
  proof (cases args)
    case (Cons s rest)
    with less.prems have "parse_flags known setv (s # rest) st = Exit c" by simp
    from parse_flags_once [OF this] consider "c = 0 \<or> c = 2" | args' st' where "length args' \<le> length rest" "parse_flags known setv args' st' = Exit c"
      by blast
    then show ?thesis
    proof cases
      case (2 args' st')
      with less.hyps [of args' st'] Cons show ?thesis by simp
    qed
  qed (use less.prems in simp)
qed

lemma parse_flags_suffix: "parse_flags known setv args st = Parsed st' rest \<Longrightarrow> suffix rest args"
proof (induction known setv args st rule: parse_flags.induct)
  case (2 known setv s args st)
  then show ?case
    by (auto simp: Let_def intro!: suffix_ConsI split: if_splits prod.splits option.splits list.splits)
qed simp

end
