(* ===== verification/Slctl.thy ===== *)
theory Slctl
  imports System Flags
begin

text \<open>
  The command line client, \<open>src/cmd/slctl/main.go\<close> and \<open>src/cmd/slctl/commands.go\<close>: what each command
  asks of the controller and what it prints.  The gRPC client is a record of functions on the state
  \<open>'w\<close> of whatever answers, with errors \<open>'e\<close>.  The flags are scanned as \<open>Flags\<close> has it.  \<open>dNew\<close> and \<open>asDur\<close> are
  \<open>durationpb.New\<close> and \<open>AsDuration\<close>, \<open>local_time\<close> the local rendering of a timestamp.  A table is the
  list of its rows of cells, before \<open>tabwriter\<close> aligns the columns.
\<close>

section \<open>The client\<close>

record ('w, 'e, 'dur, 'ts) CtlClient =
  ctl_SubmitJob :: "'dur pb_SubmitJobRequest \<Rightarrow> 'w \<Rightarrow> ('e + ('dur, 'ts) pb_SubmitJobResponse) \<times> 'w"
  ctl_ListJobs :: "pb_ListJobsRequest \<Rightarrow> 'w \<Rightarrow> ('e + ('dur, 'ts) pb_ListJobsResponse) \<times> 'w"
  ctl_CancelJob :: "pb_CancelJobRequest \<Rightarrow> 'w \<Rightarrow> ('e + ('dur, 'ts) pb_CancelJobResponse) \<times> 'w"
  ctl_ListNodes :: "pb_ListNodesRequest \<Rightarrow> 'w \<Rightarrow> ('e + 'ts pb_ListNodesResponse) \<times> 'w"

text \<open>What a command comes to: the flags ended the program, an error of its own or of the call, or output.\<close>

datatype ('e, 'out) outcome_of = ExitStatus nat | OwnError string | CallError 'e | Output 'out

section \<open>Rendering\<close>

definition jobStatusName :: "pb_JobStatus \<Rightarrow> string" where
  "jobStatusName s = (case s of
     JOB_STATUS_PENDING \<Rightarrow> ''pending''
   | JOB_STATUS_RUNNING \<Rightarrow> ''running''
   | JOB_STATUS_COMPLETED \<Rightarrow> ''completed''
   | JOB_STATUS_FAILED \<Rightarrow> ''failed''
   | JOB_STATUS_CANCELLED \<Rightarrow> ''cancelled''
   | _ \<Rightarrow> ''unknown'')"

definition nodeStatusName :: "pb_NodeStatus \<Rightarrow> string" where
  "nodeStatusName s = (case s of
     NODE_STATUS_ONLINE \<Rightarrow> ''online''
   | NODE_STATUS_OFFLINE \<Rightarrow> ''offline''
   | NODE_STATUS_BUSY \<Rightarrow> ''busy''
   | _ \<Rightarrow> ''unknown'')"

fun append_args :: "string \<Rightarrow> string list \<Rightarrow> string" where
  "append_args out [] = out"
| "append_args out (a # args) = append_args (out @ '' '' @ a) args"

definition formatCommand :: "'dur pb_JobSpec option \<Rightarrow> string" where
  "formatCommand spec =
     (if spec = None then [] else append_args (JobSpec_GetCommand spec) (JobSpec_GetArgs spec))"

definition formatDuration :: "duration \<Rightarrow> string" where
  "formatDuration d = (if d \<le> 0 then ''-'' else duration_text d)"

fun join_loop :: "string \<Rightarrow> string list \<Rightarrow> string" where
  "join_loop out [] = out"
| "join_loop out (i # ids) = join_loop (out @ '','' @ i) ids"

fun joinIDs :: "string list \<Rightarrow> string" where
  "joinIDs [] = ''-''"
| "joinIDs (i # ids) = join_loop i ids"

definition dash :: "string \<Rightarrow> string" where
  "dash s = (if s = [] then ''-'' else s)"

section \<open>Commands\<close>

record submit_flags =
  sf_nodes :: int
  sf_cpus :: int
  sf_limit :: duration

definition submit_defaults :: submit_flags where
  "submit_defaults = \<lparr>sf_nodes = 1, sf_cpus = 1, sf_limit = 0\<rparr>"

definition submit_known :: "string \<Rightarrow> bool" where
  "submit_known f \<longleftrightarrow> f = ''nodes'' \<or> f = ''cpus-per-node'' \<or> f = ''time''"

definition submit_spec :: "(duration \<Rightarrow> 'dur) \<Rightarrow> submit_flags \<Rightarrow> string \<Rightarrow> string list \<Rightarrow> 'dur pb_JobSpec" where
  "submit_spec dNew f cmd args =
     \<lparr>JobSpec_Resources = Some
        \<lparr>ResourceRequest_NodesRequired = word_of_int (sf_nodes f),
         ResourceRequest_CpusPerNode = word_of_int (sf_cpus f),
         ResourceRequest_MaxDuration = (if sf_limit f > 0 then Some (dNew (sf_limit f)) else None)\<rparr>,
      JobSpec_Command = cmd, JobSpec_Args = args, JobSpec_Env = fmempty\<rparr>"

definition submitted_line :: "submit_flags \<Rightarrow> ('dur, 'ts) pb_Job option \<Rightarrow> string" where
  "submitted_line f j =
     ''submitted '' @ Job_GetId j @ ''  '' @ jobStatusName (Job_GetStatus j) @ ''  nodes='' @ itoa (sf_nodes f) @
     '' cpus/node='' @ itoa (sf_cpus f) @
     (if sf_limit f > 0 then ''  time='' @ duration_text (sf_limit f) else []) @
     ''  '' @ formatCommand (Job_GetSpec j) @ [CHR 0x0A]"

definition runSubmit ::
  "(string \<Rightarrow> string \<Rightarrow> submit_flags \<Rightarrow> submit_flags option) \<Rightarrow> (duration \<Rightarrow> 'dur) \<Rightarrow>
   ('w, 'e, 'dur, 'ts) CtlClient \<Rightarrow> string list \<Rightarrow> 'w \<Rightarrow> ('e, string) outcome_of \<times> 'w" where
  "runSubmit setv dNew cl args w = (case parse_flags submit_known setv args submit_defaults of
     Exit c \<Rightarrow> (ExitStatus c, w)
   | Parsed f [] \<Rightarrow> (OwnError ''submit: command is required'', w)
   | Parsed f (cmd # args) \<Rightarrow>
       (case ctl_SubmitJob cl \<lparr>SubmitJobRequest_Spec = Some (submit_spec dNew f cmd args)\<rparr> w of
          (Inl err, w) \<Rightarrow> (CallError err, w)
        | (Inr resp, w) \<Rightarrow> (Output (submitted_line f (SubmitJobResponse_GetJob (Some resp))), w)))"

definition no_flags :: "string list \<Rightarrow> unit parsed" where
  "no_flags args = parse_flags (\<lambda>f. False) (\<lambda>f v st. None) args ()"

definition queue_row :: "('dur \<Rightarrow> duration) \<Rightarrow> ('dur, 'ts) pb_Job option \<Rightarrow> string list" where
  "queue_row asDur j =
     (let res = JobSpec_GetResources (Job_GetSpec j)
      in [Job_GetId j, jobStatusName (Job_GetStatus j),
          itoa (sint (ResourceRequest_GetNodesRequired res)),
          itoa (sint (ResourceRequest_GetCpusPerNode res)),
          formatDuration (case ResourceRequest_GetMaxDuration res of None \<Rightarrow> 0 | Some d \<Rightarrow> asDur d),
          joinIDs (Job_GetAssignedNodeIds j), formatCommand (Job_GetSpec j)])"

definition runQueue ::
  "('dur \<Rightarrow> duration) \<Rightarrow> ('w, 'e, 'dur, 'ts) CtlClient \<Rightarrow> string list \<Rightarrow> 'w \<Rightarrow>
   ('e, string list list) outcome_of \<times> 'w" where
  "runQueue asDur cl args w = (case no_flags args of
     Exit c \<Rightarrow> (ExitStatus c, w)
   | Parsed _ _ \<Rightarrow> (case ctl_ListJobs cl \<lparr>ListJobsRequest_Statuses = []\<rparr> w of
       (Inl err, w) \<Rightarrow> (CallError err, w)
     | (Inr resp, w) \<Rightarrow>
         (Output ([''ID'', ''STATUS'', ''NODES'', ''CPUS'', ''TIME'', ''ASSIGNED'', ''COMMAND''] #
            map (\<lambda>j. queue_row asDur (Some j)) (ListJobsResponse_GetJobs (Some resp))), w)))"

definition runCancel ::
  "('w, 'e, 'dur, 'ts) CtlClient \<Rightarrow> string list \<Rightarrow> 'w \<Rightarrow> ('e, string) outcome_of \<times> 'w" where
  "runCancel cl args w = (case no_flags args of
     Exit c \<Rightarrow> (ExitStatus c, w)
   | Parsed _ [jid] \<Rightarrow> (case ctl_CancelJob cl \<lparr>CancelJobRequest_JobId = jid\<rparr> w of
       (Inl err, w) \<Rightarrow> (CallError err, w)
     | (Inr resp, w) \<Rightarrow>
         let j = CancelJobResponse_GetJob (Some resp)
         in (Output (''cancelled '' @ Job_GetId j @ ''  '' @ jobStatusName (Job_GetStatus j) @ [CHR 0x0A]), w))
   | Parsed _ _ \<Rightarrow> (OwnError ''cancel: job id is required'', w))"

definition node_row :: "('ts \<Rightarrow> string) \<Rightarrow> 'ts pb_Node option \<Rightarrow> string list" where
  "node_row local_time n =
     [Node_GetId n, nodeStatusName (Node_GetStatus n), itoa (sint (Node_GetTotalCpus n)),
      itoa (sint (Node_GetAllocatedCpus n)), dash (Node_GetCurrentJobId n),
      (case Node_GetLastHeartbeat n of None \<Rightarrow> ''-'' | Some t \<Rightarrow> local_time t), dash (Node_GetHostname n)]"

definition runNodes ::
  "('ts \<Rightarrow> string) \<Rightarrow> ('w, 'e, 'dur, 'ts) CtlClient \<Rightarrow> string list \<Rightarrow> 'w \<Rightarrow>
   ('e, string list list) outcome_of \<times> 'w" where
  "runNodes local_time cl args w = (case no_flags args of
     Exit c \<Rightarrow> (ExitStatus c, w)
   | Parsed _ _ \<Rightarrow> (case ctl_ListNodes cl ListNodesRequest w of
       (Inl err, w) \<Rightarrow> (CallError err, w)
     | (Inr resp, w) \<Rightarrow>
         (Output ([''ID'', ''STATUS'', ''CPUS'', ''USED'', ''JOB'', ''HEARTBEAT'', ''HOST''] #
            map (\<lambda>n. node_row local_time (Some n)) (ListNodesResponse_GetNodes (Some resp))), w)))"

section \<open>The program\<close>

definition envOr :: "(string \<Rightarrow> string) \<Rightarrow> string \<Rightarrow> string \<Rightarrow> string" where
  "envOr getenv key fallback = (let v = getenv key in if v \<noteq> [] then v else fallback)"

text \<open>The exit status of a command, whatever it prints.\<close>

definition exit_of :: "('e, 'out) outcome_of \<Rightarrow> nat" where
  "exit_of r = (case r of ExitStatus c \<Rightarrow> c | OwnError msg \<Rightarrow> 1 | CallError err \<Rightarrow> 1 | Output out \<Rightarrow> 0)"

text \<open>
  \<open>main\<close>, for a controller address that can be dialled (\<open>grpc.NewClient\<close> is not modelled): the address
  it uses, its exit status, and the state of the controller afterwards.
\<close>

definition slctl_main ::
  "(string \<Rightarrow> string) \<Rightarrow> (string \<Rightarrow> string \<Rightarrow> submit_flags \<Rightarrow> submit_flags option) \<Rightarrow> (duration \<Rightarrow> 'dur) \<Rightarrow>
   ('dur \<Rightarrow> duration) \<Rightarrow> ('ts \<Rightarrow> string) \<Rightarrow> (string \<Rightarrow> ('w, 'e, 'dur, 'ts) CtlClient) \<Rightarrow> string list \<Rightarrow> 'w \<Rightarrow> nat \<times> 'w" where
  "slctl_main getenv setv dNew asDur local_time dial args w =
     (case parse_flags (\<lambda>f. f = ''controller'') (\<lambda>f v st. Some v) args
             (envOr getenv ''SLURMLITE_CONTROLLER'' ''127.0.0.1:50051'') of
        Exit c \<Rightarrow> (c, w)
      | Parsed addr [] \<Rightarrow> (2, w)
      | Parsed addr (cmd # rest) \<Rightarrow>
          (if cmd = ''submit'' then (case runSubmit setv dNew (dial addr) rest w of (r, w) \<Rightarrow> (exit_of r, w))
           else if cmd = ''queue'' then (case runQueue asDur (dial addr) rest w of (r, w) \<Rightarrow> (exit_of r, w))
           else if cmd = ''cancel'' then (case runCancel (dial addr) rest w of (r, w) \<Rightarrow> (exit_of r, w))
           else if cmd = ''nodes'' then (case runNodes local_time (dial addr) rest w of (r, w) \<Rightarrow> (exit_of r, w))
           else (2, w)))"

section \<open>The client over the controller\<close>

definition server_ctl ::
  "('dur \<Rightarrow> duration) \<Rightarrow> (duration \<Rightarrow> 'dur) \<Rightarrow> (instant \<Rightarrow> 'ts) \<Rightarrow> string list \<Rightarrow> instant \<Rightarrow>
   ('dur Server, rpc_code \<times> string, 'dur, 'ts) CtlClient" where
  "server_ctl asDur dNew tsNew ks now =
     \<lparr>ctl_SubmitJob = \<lambda>req. Server_SubmitJob asDur dNew tsNew now (Some req),
      ctl_ListJobs = \<lambda>req s. (Server_ListJobs dNew tsNew ks (Some req) s, s),
      ctl_CancelJob = \<lambda>req. Server_CancelJob dNew tsNew now (Some req),
      ctl_ListNodes = \<lambda>req s. (Server_ListNodes tsNew s, s)\<rparr>"

section \<open>Facts\<close>

lemma append_args_eq: "append_args out args = out @ concat (map (\<lambda>a. '' '' @ a) args)"
  by (induction args arbitrary: out) simp_all

lemma join_loop_eq: "join_loop out ids = out @ concat (map (\<lambda>i. '','' @ i) ids)"
  by (induction ids arbitrary: out) simp_all

lemma sint_word_of_int_wrap32: "sint (word_of_int n :: int32) = wrap32 n"
  by (simp add: wrap32_def sint_sbintrunc')

text \<open>What the controller reads of the specification that \<open>submit\<close> sends.\<close>

lemma submit_spec_accepted:
  assumes "\<And>d. asDur (dNew d) = d" "\<not> blank cmd" "1 \<le> wrap32 (sf_nodes f)" "1 \<le> wrap32 (sf_cpus f)"
  shows "specFromProto asDur (Some (submit_spec dNew f cmd args)) = Inr
    \<lparr>Resources = \<lparr>NodesRequired = wrap32 (sf_nodes f), CPUsPerNode = wrap32 (sf_cpus f), MaxDuration = max 0 (sf_limit f)\<rparr>,
     Command = cmd, Args = args, Env = fmempty\<rparr>"
  using assms by (auto simp: spec_accepted_iff submit_spec_def sint_word_of_int_wrap32)

section \<open>Properties\<close>

text \<open>C13.  What \<open>slctl submit\<close> asks for is what the controller queues: on any reachable controller the command
  is what follows the flags, word for word, a new pending job with that command, the limit and the
  requested nodes and CPUs joins the end of the queue, and the line that is printed describes it.  The
  counts reach the controller as 32-bit integers, so they are the flags' own only when these fit.\<close>

theorem submit_reaches_the_queue:
  assumes "s = srv_run asDur dNew cs" "length cs + 1 < 2 ^ 64" "\<forall>d. asDur (dNew d) = d"
    and "parse_flags submit_known setv args submit_defaults = Parsed f (cmd # rest)"
    and "\<not> blank cmd" "1 \<le> wrap32 (sf_nodes f)" "1 \<le> wrap32 (sf_cpus f)"
    and "runSubmit setv dNew (server_ctl asDur dNew tsNew ks now) args s = (r, s')"
  shows "\<exists>j pre. args = pre @ cmd # rest \<and>
    r = Output (submitted_line f (jobToProto dNew tsNew (Some j))) \<and> job_Status j = StatusPending \<and>
    Command (job_Spec j) = cmd \<and> Args (job_Spec j) = rest \<and>
    NodesRequired (Resources (job_Spec j)) = wrap32 (sf_nodes f) \<and>
    CPUsPerNode (Resources (job_Spec j)) = wrap32 (sf_cpus f) \<and>
    MaxDuration (Resources (job_Spec j)) = max 0 (sf_limit f) \<and>
    fmlookup (jobs (srv_jobs s')) (job_ID j) = Some j \<and> pending (srv_jobs s') = pending (srv_jobs s) @ [job_ID j]"
proof -
  let ?req = "Some \<lparr>SubmitJobRequest_Spec = Some (submit_spec dNew f cmd rest)\<rparr>"
  have "specFromProto asDur (Some (submit_spec dNew f cmd rest)) = Inr
    \<lparr>Resources = \<lparr>NodesRequired = wrap32 (sf_nodes f), CPUsPerNode = wrap32 (sf_cpus f), MaxDuration = max 0 (sf_limit f)\<rparr>,
     Command = cmd, Args = rest, Env = fmempty\<rparr>" (is "_ = Inr ?spec")
    using assms(3) by (intro submit_spec_accepted [OF _ assms(5-7)]) blast
  then have "specFromProto asDur (SubmitJobRequest_GetSpec ?req) = Inr ?spec" by (simp add: pb_getters)
  from submission [OF assms(1,2) this, of tsNew now] obtain j where
    j: "fst (Server_SubmitJob asDur dNew tsNew now ?req s) = Inr \<lparr>SubmitJobResponse_Job = jobToProto dNew tsNew (Some j)\<rparr>"
    "job_Status j = StatusPending" "job_Spec j = ?spec"
    "jobs (srv_jobs (snd (Server_SubmitJob asDur dNew tsNew now ?req s))) = fmupd (job_ID j) j (jobs (srv_jobs s))"
    "pending (srv_jobs (snd (Server_SubmitJob asDur dNew tsNew now ?req s))) = pending (srv_jobs s) @ [job_ID j]"
    by blast
  have call: "ctl_SubmitJob (server_ctl asDur dNew tsNew ks now) (the ?req) s = Server_SubmitJob asDur dNew tsNew now ?req s"
    by (simp add: server_ctl_def)
  obtain s1 where s1: "Server_SubmitJob asDur dNew tsNew now ?req s =
      (Inr \<lparr>SubmitJobResponse_Job = jobToProto dNew tsNew (Some j)\<rparr>, s1)"
    using j(1) by (metis prod.collapse)
  with call assms(4,8) have "r = Output (submitted_line f (jobToProto dNew tsNew (Some j)))" "s' = s1"
    by (simp_all add: runSubmit_def pb_getters)
  moreover obtain pre where "args = pre @ cmd # rest" using parse_flags_suffix [OF assms(4)] by (auto simp: suffix_def)
  ultimately show ?thesis using j(2-5) s1 by (intro exI [of _ j] exI [of _ pre]) simp
qed

text \<open>The values \<open>-nodes\<close> takes in the witness: one number that fits in 32 bits and one that does not.\<close>

definition sample_setv :: "string \<Rightarrow> string \<Rightarrow> submit_flags \<Rightarrow> submit_flags option" where
  "sample_setv flag v f =
     (if flag = ''nodes'' \<and> v = ''2'' then Some (f\<lparr>sf_nodes := 2\<rparr>)
      else if flag = ''nodes'' \<and> v = ''4294967297'' then Some (f\<lparr>sf_nodes := 4294967297\<rparr>)
      else None)"

theorem submit_reaches_the_queue_witness:
  "\<exists>j. fst (runSubmit sample_setv (\<lambda>d. d) (server_ctl (\<lambda>d. d) (\<lambda>d. d) (\<lambda>t. t) [] 7)
         [''-nodes=4294967297'', ''hello'', ''-x''] sample_run) =
       Output (submitted_line \<lparr>sf_nodes = 4294967297, sf_cpus = 1, sf_limit = 0\<rparr> (jobToProto (\<lambda>d. d) (\<lambda>t. t) (Some j))) \<and>
     NodesRequired (Resources (job_Spec j)) = 1 \<and> Args (job_Spec j) = [''-x'']"
proof -
  let ?f = "\<lparr>sf_nodes = 4294967297, sf_cpus = 1, sf_limit = 0\<rparr>"
  have p: "parse_flags submit_known sample_setv [''-nodes=4294967297'', ''hello'', ''-x''] submit_defaults = Parsed ?f [''hello'', ''-x'']"
    by code_simp
  have w: "wrap32 4294967297 = 1" "wrap32 1 = 1" by (code_simp, code_simp)
  obtain r s' where "runSubmit sample_setv (\<lambda>d. d) (server_ctl (\<lambda>d. d) (\<lambda>d. d) (\<lambda>t. t) [] 7)
      [''-nodes=4294967297'', ''hello'', ''-x''] sample_run = (r, s')" by fastforce
  from submit_reaches_the_queue [OF sample_run_def _ _ p _ _ _ this] this w show ?thesis
    by (auto simp del: blank.simps)
qed

text \<open>The client and the controller call every status by the same name: a job status that the
  controller can hold is shown by its own text, and a node is shown as offline, busy or online as its
  registry entry has it.\<close>

theorem status_names_agree:
  "(Valid st \<longrightarrow> jobStatusName (jobStatusToProto st) = status_text st) \<and>
   nodeStatusName (Node_Status (nodeToProto tsNew n)) =
     (case node_Status n of
        StatusOffline \<Rightarrow> ''offline''
      | StatusOnline \<Rightarrow> if CurrentJobID n = [] then ''online'' else ''busy''
      | NodeStatusOther t \<Rightarrow> ''unknown'')"
  by (cases st; cases "node_Status n") (auto simp: jobStatusName_def jobStatusToProto_def status_text_def Valid_def
      nodeStatusName_def nodeToProto_def)

theorem status_names_agree_witness:
  "jobStatusName (jobStatusToProto StatusFailed) = ''failed''"
  using status_names_agree [of StatusFailed "\<lambda>t. t" zero_Node] by (simp add: Valid_def status_text_def)

end
