(* ===== verification/GangReports.thy ===== *)
theory GangReports
  imports JobManager
begin

text \<open>
  The contract of \<open>ReportNodeEvent\<close>, seen from outside: a running gang and the sequence of reports
  that arrive for it.  \<open>gang_outcome\<close> is the abstract specification, with the successes so far in
  order of arrival as its only state; the job manager, with its nested map of reports, refines it.
\<close>

record report =
  rp_node :: string
  rp_failed :: bool
  rp_code :: int
  rp_msg :: string

datatype outcome =
    StillRunning "(string \<times> int) list"
  | GangFailed int string
  | GangCompleted int

fun gang_outcome :: "string list \<Rightarrow> (string \<times> int) list \<Rightarrow> report list \<Rightarrow> outcome" where
  "gang_outcome ids seen [] = StillRunning seen"
| "gang_outcome ids seen (r # rs) =
     (if rp_node r \<notin> set ids \<or> rp_node r \<in> fst ` set seen then gang_outcome ids seen rs
      else if rp_failed r then GangFailed (rp_code r) (rp_msg r)
      else
        let seen' = seen @ [(rp_node r, rp_code r)]
        in if set ids \<subseteq> fst ` set seen' then GangCompleted (Max (insert 0 (snd ` set seen')))
           else gang_outcome ids seen' rs)"

text \<open>The reports delivered to the manager, at whatever clock readings.\<close>

fun deliver :: "string \<Rightarrow> (instant \<times> report) list \<Rightarrow> JobManager \<Rightarrow> JobManager" where
  "deliver jid [] m = m"
| "deliver jid ((now, r) # rs) m =
     deliver jid rs (snd (ReportNodeEvent now jid (rp_node r) (rp_failed r) (rp_code r) (rp_msg r) m))"

text \<open>What the outcome says of the job record.\<close>

definition shows_outcome :: "Job \<Rightarrow> Job \<Rightarrow> outcome \<Rightarrow> bool" where
  "shows_outcome j j' oc \<longleftrightarrow> (case oc of
     StillRunning seen \<Rightarrow> j' = j
   | GangFailed c msg \<Rightarrow> job_Status j' = StatusFailed \<and> ExitCode j' = c \<and> ErrorMessage j' = msg
   | GangCompleted c \<Rightarrow> job_Status j' = StatusCompleted \<and> ExitCode j' = c \<and> ErrorMessage j' = ErrorMessage j)"

text \<open>The abstraction: the report map holds the successes seen so far.\<close>

definition represents :: "(string, nodeReport) fmap \<Rightarrow> (string \<times> int) list \<Rightarrow> bool" where
  "represents rs seen \<longleftrightarrow> (\<forall>n. map_option nr_exitCode (fmlookup rs n) = map_of seen n) \<and> distinct (map fst seen)"

lemma represents_dom: "represents rs seen \<Longrightarrow> fmlookup rs n = None \<longleftrightarrow> n \<notin> fst ` set seen"
  unfolding represents_def by (metis map_of_eq_None_iff option.map_disc_iff)

lemma represents_upd:
  assumes "represents rs seen" "fmlookup rs n = None"
  shows "represents (fmupd n r rs) (seen @ [(n, nr_exitCode r)])"
proof -
  from assms represents_dom have "map_of seen n = None" by (simp add: map_of_eq_None_iff)
  then have "map_of (seen @ [(n, c)]) x = (if x = n then Some c else map_of seen x)" for x c
    by (simp add: map_add_def split: option.split)
  with assms represents_dom [OF assms(1), of n] show ?thesis by (simp add: represents_def)
qed

lemma represents_fmdom': "represents rs seen \<Longrightarrow> fmdom' rs = fst ` set seen"
  by (simp add: set_eq_iff mem_fmdom' represents_dom)

lemma go_len_card: "go_len rs = card (fmdom' rs)"
  by (simp add: go_len_def fcard.rep_eq fmdom'_alt_def)

lemma represents_codes:
  assumes "represents rs seen"
  shows "nr_exitCode ` set (go_values (go_keys rs) rs) = snd ` set seen"
proof -
  from assms have look: "map_option nr_exitCode (fmlookup rs n) = map_of seen n" for n
    by (simp add: represents_def)
  have "set (go_values (go_keys rs) rs) = {r. \<exists>n. fmlookup rs n = Some r}"
    by (auto simp: go_values_mem [OF go_range_keys])
  then have "nr_exitCode ` set (go_values (go_keys rs) rs) = {c. \<exists>n. map_option nr_exitCode (fmlookup rs n) = Some c}"
    by (auto simp: image_iff)
  also have "\<dots> = snd ` set seen"
    using assms by (auto simp: look represents_def image_iff dest: map_of_SomeD intro: map_of_is_SomeI) force
  finally show ?thesis .
qed

lemma represents_max_exit: "represents rs seen \<Longrightarrow> max_exit (go_keys rs) rs = Max (insert 0 (snd ` set seen))"
  by (simp add: max_exit_def fold_max_exit represents_codes)

lemma complete_iff:
  assumes "represents rs seen" "fst ` set seen \<subseteq> set ids" "distinct ids"
  shows "go_len rs < length ids \<longleftrightarrow> \<not> set ids \<subseteq> fst ` set seen"
proof -
  have "go_len rs = card (fst ` set seen)"
    by (simp add: go_len_card represents_fmdom' [OF assms(1)])
  moreover have "length ids = card (set ids)" using assms(3) by (simp add: distinct_card)
  ultimately show ?thesis
    using assms(2) by (metis List.finite_set card_seteq finite_imageI less_le_not_le linorder_not_le
        psubset_card_mono psubsetI)
qed

text \<open>Once the job is no longer running, deliveries change nothing.\<close>

lemma deliver_idle:
  assumes "fmlookup (jobs m) jid = Some j" "job_Status j \<noteq> StatusRunning"
  shows "deliver jid rs m = m"
  using assms by (induction rs) (auto simp: ReportNodeEvent_eq)

lemma deliver_outcome:
  assumes "fmlookup (jobs m) jid = Some j" "job_Status j = StatusRunning"
    and "distinct (AssignedNodeIDs j)" "represents (reports_of m jid) seen"
    and "fst ` set seen \<subseteq> set (AssignedNodeIDs j)"
  shows "\<exists>j'. fmlookup (jobs (deliver jid rs m)) jid = Some j' \<and>
              shows_outcome j j' (gang_outcome (AssignedNodeIDs j) seen (map snd rs))"
  using assms
proof (induction rs arbitrary: m seen)
  case Nil
  then show ?case by (simp add: shows_outcome_def)
next
  case (Cons tr rs)
  obtain now r where tr: "tr = (now, r)" by (cases tr)
  let ?ids = "AssignedNodeIDs j" and ?n = "rp_node r"
  let ?rep = "\<lparr>nr_failed = rp_failed r, nr_exitCode = rp_code r, nr_errMsg = rp_msg r\<rparr>"
  let ?rs' = "fmupd ?n ?rep (reports_of m jid)" and ?seen' = "seen @ [(?n, rp_code r)]"
  let ?m' = "snd (ReportNodeEvent now jid ?n (rp_failed r) (rp_code r) (rp_msg r) m)"
  note dom = represents_dom [OF Cons.prems(4), of ?n]
  show ?case
  proof (cases "?n \<notin> set ?ids \<or> ?n \<in> fst ` set seen")
    case True
    with Cons.prems dom have "?m' = m" by (auto simp: ReportNodeEvent_eq Let_def)
    with Cons.IH [OF Cons.prems] True tr show ?thesis by simp
  next
    case fresh: False
    with dom have none: "fmlookup (reports_of m jid) ?n = None" by simp
    from represents_upd [OF Cons.prems(4) none, of ?rep] have rep': "represents ?rs' ?seen'" by simp
    from fresh Cons.prems(5) have sub': "fst ` set ?seen' \<subseteq> set ?ids" by auto
    note full = complete_iff [OF rep' sub' Cons.prems(3)]
    show ?thesis
    proof (cases "rp_failed r")
      case True
      with Cons.prems fresh none obtain j' where
        "fmlookup (jobs ?m') jid = Some j'" "job_Status j' = StatusFailed"
        "ExitCode j' = rp_code r" "ErrorMessage j' = rp_msg r"
        by (simp add: ReportNodeEvent_eq Let_def)
      with True fresh tr show ?thesis by (auto simp: deliver_idle shows_outcome_def)
    next
      case ok: False
      show ?thesis
      proof (cases "set ?ids \<subseteq> fst ` set ?seen'")
        case True
        with full Cons.prems fresh none ok obtain j' where
          "fmlookup (jobs ?m') jid = Some j'" "job_Status j' = StatusCompleted"
          "ExitCode j' = max_exit (go_keys ?rs') ?rs'" "ErrorMessage j' = ErrorMessage j"
          by (simp add: ReportNodeEvent_eq Let_def del: go_len_fmupd go_keys_fmupd)
        moreover have "gang_outcome ?ids seen (r # map snd rs) = GangCompleted (max_exit (go_keys ?rs') ?rs')"
          using True fresh ok represents_max_exit [OF rep'] by (simp add: Let_def del: go_keys_fmupd)
        ultimately show ?thesis
          using tr by (auto simp: deliver_idle shows_outcome_def simp del: go_keys_fmupd gang_outcome.simps)
      next
        case False
        with full Cons.prems fresh none ok have m': "?m' = m\<lparr>reports := fmupd jid ?rs' (reports m)\<rparr>"
          by (simp add: ReportNodeEvent_eq Let_def del: go_len_fmupd)
        then have "fmlookup (jobs ?m') jid = Some j" "reports_of ?m' jid = ?rs'"
          using Cons.prems(1) by (simp_all add: reports_of_def)
        with Cons.IH [of ?m' ?seen'] Cons.prems(2,3) rep' sub' False fresh ok tr show ?thesis
          by (simp add: Let_def)
      qed
    qed
  qed
qed

section \<open>Properties\<close>

text \<open>C5.  Gang completion refines its abstract specification: from the start of a run, after any
  sequence of node reports, the job is failed with the first failure's code and message, or, once
  every assigned node has reported success, completed with the greatest exit code (at least 0), and
  until then it is running and unchanged; repeated and foreign reports count for nothing.\<close>

theorem reports_refine_gang_outcome:
  fixes t :: instant
  assumes "fmlookup (jobs m) jid = Some j" "job_Status j = StatusPending" "distinct ids"
  defines "j0 \<equiv> j\<lparr>job_Status := StatusRunning, AssignedNodeIDs := ids, StartedAt := t\<rparr>"
  shows "\<exists>j'. fmlookup (jobs (deliver jid rs (snd (JM_MarkRunning t jid ids m)))) jid = Some j' \<and>
              shows_outcome j0 j' (gang_outcome ids [] (map snd rs))"
proof -
  let ?m = "snd (JM_MarkRunning t jid ids m)"
  have "fmlookup (jobs ?m) jid = Some j0" "represents (reports_of ?m jid) []"
    using assms(1,2)
    by (simp_all add: JM_MarkRunning_def Job_MarkRunning_pending j0_def Let_def reports_of_def represents_def)
  with deliver_outcome [of ?m jid j0 "[]" rs] assms(3) show ?thesis by (simp add: j0_def)
qed

theorem reports_refine_gang_outcome_witness:
  "\<exists>j'. fmlookup (jobs (deliver ''a'' [(8, \<lparr>rp_node = ''n1'', rp_failed = False, rp_code = 0, rp_msg = []\<rparr>),
                                      (9, \<lparr>rp_node = ''n2'', rp_failed = False, rp_code = 3, rp_msg = []\<rparr>)]
            (snd (JM_MarkRunning 7 ''a'' [''n1'', ''n2''] (jm_run [OpSubmit (Some (sample_job ''a'' 2))]))))) ''a'' = Some j' \<and>
        job_Status j' = StatusCompleted \<and> ExitCode j' = 3"
proof -
  have "fmlookup (jobs (jm_run [OpSubmit (Some (sample_job ''a'' 2))])) ''a'' = Some (sample_job ''a'' 2)"
    by (simp add: Submit_def Make_JobManager_def)
  from reports_refine_gang_outcome [OF this, where ids = "[''n1'', ''n2'']" and t = 7
      and rs = "[(8, \<lparr>rp_node = ''n1'', rp_failed = False, rp_code = 0, rp_msg = []\<rparr>),
        (9, \<lparr>rp_node = ''n2'', rp_failed = False, rp_code = 3, rp_msg = []\<rparr>)]"]
  show ?thesis by (auto simp: shows_outcome_def Let_def simp del: deliver.simps)
qed

end
