(* ===== verification/Handlers.thy ===== *)
theory Handlers
  imports System GangReports
begin

text \<open>
  What each RPC handler of \<open>src/internal/controller/server.go\<close> promises its caller, stated over the
  invariant of \<open>System\<close>: the effect of \<open>CancelJob\<close>, \<open>ReportJobStatus\<close>, \<open>ListJobs\<close> and \<open>WatchWork\<close> on
  every branch that matters to a client, and that a gang whose nodes all report success is finished
  and freed.
\<close>

section \<open>Shared facts\<close>

lemma set_jobs_same [simp]: "set_jobs (srv_jobs s) s = s"
  by (simp add: set_jobs_def)

text \<open>Under the invariant a job that does not run is carried by no node.\<close>

definition carried :: "string \<Rightarrow> 'dur Server \<Rightarrow> bool" where
  "carried jid s \<longleftrightarrow> (\<exists>k n. fmlookup (nodes (srv_registry s)) k = Some n \<and> CurrentJobID n = jid)"

lemma not_carried:
  assumes "srv_inv s" "jid \<noteq> []" "\<And>j. fmlookup (jobs (srv_jobs s)) jid = Some j \<Longrightarrow> job_Status j \<noteq> StatusRunning"
  shows "\<not> carried jid s"
  using srv_inv_node [OF assms(1)] assms(2,3) by (fastforce simp: carried_def)

lemma nokey: "srv_inv s \<Longrightarrow> fmlookup (jobs (srv_jobs s)) jid = Some j \<Longrightarrow> jid \<noteq> []"
  by (auto simp: srv_inv_def sys_ok_def)

lemma running_nodes_named:
  assumes "srv_inv s" "fmlookup (jobs (srv_jobs s)) jid = Some j" "job_Status j = StatusRunning"
  shows "[] \<notin> set (AssignedNodeIDs j)"
proof
  assume "[] \<in> set (AssignedNodeIDs j)"
  with srv_inv_running(3) [OF assms] obtain n where "fmlookup (nodes (srv_registry s)) [] = Some n" by blast
  moreover have "reg_inv (srv_registry s)" using assms(1) by (simp add: srv_inv_def sys_ok_def)
  ultimately show False using reg_invD by blast
qed

lemma PendingCancel_Notify:
  "jid \<noteq> [] \<Longrightarrow> k \<in> set ids \<Longrightarrow> k \<noteq> [] \<Longrightarrow> PendingCancel k (NotifyCancel ids jid h) = jid"
  by (simp add: PendingCancel_def NotifyCancel_def cancel_of_notify)

section \<open>Cancelling\<close>

definition cancelled :: "instant \<Rightarrow> Job \<Rightarrow> Job" where
  "cancelled now j = j\<lparr>job_Status := StatusCancelled, FinishedAt := now\<rparr>"

lemma cancel_found_cases:
  assumes "fmlookup (jobs (srv_jobs s)) jid = Some j"
  shows "cancel_found dNew tsNew now jid j s =
    (if job_Status j = StatusPending \<or> job_Status j = StatusRunning
     then (Inr \<lparr>CancelJobResponse_Job = jobToProto dNew tsNew (Some (cancelled now j))\<rparr>,
           let s1 = set_jobs (snd (JM_Cancel now jid (srv_jobs s))) s
           in if job_Status j = StatusRunning
              then srv_kick (set_hub (NotifyCancel (AssignedNodeIDs j) jid (srv_hub s))
                     (set_registry (ReleaseNodes (AssignedNodeIDs j) (CPUsPerNode (Resources (job_Spec j))) (srv_registry s)) s1))
              else s1)
     else (Inl (FailedPrecondition, error_text (Errorf (''cannot cancel job '' @ jid @ '' in status '' @ status_text (job_Status j)))), s))"
  using assms by (auto simp: cancel_found_def JM_Cancel_eq Let_def JM_Get_def cancelled_def)

lemma cancel_of_stored_job:
  assumes "srv_inv s" "fmlookup (jobs (srv_jobs s)) (CancelJobRequest_GetJobId req) = Some j"
    and "Server_CancelJob dNew tsNew now req s = (resp, s')"
  shows "if job_Status j = StatusPending \<or> job_Status j = StatusRunning
    then resp = Inr \<lparr>CancelJobResponse_Job = jobToProto dNew tsNew (Some (cancelled now j))\<rparr> \<and>
      fmlookup (jobs (srv_jobs s')) (CancelJobRequest_GetJobId req) = Some (cancelled now j) \<and>
      CancelJobRequest_GetJobId req \<notin> set (pending (srv_jobs s')) \<and>
      \<not> carried (CancelJobRequest_GetJobId req) s' \<and>
      (job_Status j = StatusRunning \<longrightarrow>
        (\<forall>k \<in> set (AssignedNodeIDs j). PendingCancel k (srv_hub s') = CancelJobRequest_GetJobId req))
    else (\<exists>msg. resp = Inl (FailedPrecondition, msg)) \<and> s' = s"
proof -
  let ?jid = "CancelJobRequest_GetJobId req"
  note jid = nokey [OF assms(1,2)]
  have run: "cancel_found dNew tsNew now ?jid j s = (resp, s')"
    using assms(2,3) jid by (simp add: Server_CancelJob_def JM_Get_def)
  have inv: "srv_inv s'" using srv_inv_CancelJob [OF assms(1), of dNew tsNew now req] assms(3) by simp
  show ?thesis
  proof (cases "job_Status j = StatusPending \<or> job_Status j = StatusRunning")
    case True
    have resp: "resp = Inr \<lparr>CancelJobResponse_Job = jobToProto dNew tsNew (Some (cancelled now j))\<rparr>"
      and jm: "srv_jobs s' = snd (JM_Cancel now ?jid (srv_jobs s))"
      and hub: "job_Status j = StatusRunning \<longrightarrow> srv_hub s' = NotifyCancel (AssignedNodeIDs j) ?jid (srv_hub s)"
      using run True by (auto simp: cancel_found_cases [OF assms(2)] Let_def split: if_splits)
    have job: "fmlookup (jobs (srv_jobs s')) ?jid = Some (cancelled now j)"
      using True assms(2) unfolding jm by (auto simp: JM_Cancel_eq Let_def cancelled_def)
    have "?jid \<notin> set (pending (srv_jobs s'))"
      using inv job by (auto simp: srv_inv_def sys_ok_def jm_inv_pending is_job_def cancelled_def)
    moreover have "\<not> carried ?jid s'"
      using job by (intro not_carried [OF inv jid]) (auto simp: cancelled_def)
    moreover have "job_Status j = StatusRunning \<longrightarrow> (\<forall>k \<in> set (AssignedNodeIDs j). PendingCancel k (srv_hub s') = ?jid)"
      using hub running_nodes_named [OF assms(1,2)] PendingCancel_Notify [OF jid] by metis
    ultimately show ?thesis using True resp job by simp
  next
    case False
    with run show ?thesis by (auto simp: cancel_found_cases [OF assms(2)])
  qed
qed

text \<open>C20.  \<open>CancelJob\<close> on every branch.  Without a job id the answer is \<open>InvalidArgument\<close>, for an unknown job \<open>NotFound\<close>,
  and for a job that has ended \<open>FailedPrecondition\<close>, and nothing changes.  Cancelling a pending or running job
  answers the cancelled job, takes it off the queue, leaves no node carrying it, and leaves every node of its gang
  with the job as its pending cancel.\<close>

theorem cancel_frees_the_gang:
  assumes "srv_inv s" "Server_CancelJob dNew tsNew now req s = (resp, s')"
  shows "if CancelJobRequest_GetJobId req = [] then (\<exists>msg. resp = Inl (InvalidArgument, msg)) \<and> s' = s
    else case fmlookup (jobs (srv_jobs s)) (CancelJobRequest_GetJobId req) of
      None \<Rightarrow> (\<exists>msg. resp = Inl (NotFound, msg)) \<and> s' = s
    | Some j \<Rightarrow>
        if job_Status j = StatusPending \<or> job_Status j = StatusRunning
        then resp = Inr \<lparr>CancelJobResponse_Job = jobToProto dNew tsNew (Some (cancelled now j))\<rparr> \<and>
          fmlookup (jobs (srv_jobs s')) (CancelJobRequest_GetJobId req) = Some (cancelled now j) \<and>
          CancelJobRequest_GetJobId req \<notin> set (pending (srv_jobs s')) \<and>
          \<not> carried (CancelJobRequest_GetJobId req) s' \<and>
          (job_Status j = StatusRunning \<longrightarrow>
            (\<forall>k \<in> set (AssignedNodeIDs j). PendingCancel k (srv_hub s') = CancelJobRequest_GetJobId req))
        else (\<exists>msg. resp = Inl (FailedPrecondition, msg)) \<and> s' = s"
proof (cases "fmlookup (jobs (srv_jobs s)) (CancelJobRequest_GetJobId req)")
  case None
  with assms(2) show ?thesis
    by (cases "CancelJobRequest_GetJobId req = []") (auto simp: Server_CancelJob_def JM_Get_def get_error_def)
next
  case (Some j)
  from cancel_of_stored_job [OF assms(1) Some assms(2)] nokey [OF assms(1) Some] Some show ?thesis by simp
qed

section \<open>Reports\<close>

text \<open>A report that reaches the job manager, and what it does to it.\<close>

definition report_request :: "string \<Rightarrow> string \<Rightarrow> pb_JobEvent \<Rightarrow> int32 \<Rightarrow> string \<Rightarrow> pb_ReportJobStatusRequest" where
  "report_request n jid ev c msg = \<lparr>ReportJobStatusRequest_NodeId = n, ReportJobStatusRequest_JobId = jid,
     ReportJobStatusRequest_Event = ev, ReportJobStatusRequest_ExitCode = c, ReportJobStatusRequest_ErrorMessage = msg\<rparr>"

lemma report_request_get [simp]:
  "ReportJobStatusRequest_GetNodeId (Some (report_request n jid ev c msg)) = n"
  "ReportJobStatusRequest_GetJobId (Some (report_request n jid ev c msg)) = jid"
  "ReportJobStatusRequest_GetEvent (Some (report_request n jid ev c msg)) = ev"
  "ReportJobStatusRequest_GetExitCode (Some (report_request n jid ev c msg)) = c"
  "ReportJobStatusRequest_GetErrorMessage (Some (report_request n jid ev c msg)) = msg"
  by (simp_all add: report_request_def pb_getters)

definition ends :: "pb_JobEvent \<Rightarrow> bool" where
  "ends ev \<longleftrightarrow> ev \<noteq> JOB_EVENT_STARTED \<and> ev \<noteq> JOB_EVENT_UNSPECIFIED \<and> ev \<noteq> JOB_EVENT_CANCELLED"

lemma report_jobs:
  assumes "ends ev" "n \<noteq> []" "jid \<noteq> []" "Reg_Get n (srv_registry s) = Some x"
    and "fmlookup (jobs (srv_jobs s)) jid = Some j"
  shows "srv_jobs (snd (Server_ReportJobStatus now (Some (report_request n jid ev c msg)) s)) =
     snd (ReportNodeEvent now jid n (ev = JOB_EVENT_FAILED) (sint c) msg (srv_jobs s))"
proof -
  obtain e m where r: "ReportNodeEvent now jid n (ev = JOB_EVENT_FAILED) (sint c) msg (srv_jobs s) = (e, m)" by fastforce
  from ReportNodeEvent_job [OF assms(5) r] obtain j' where "fmlookup (jobs m) jid = Some j'" by blast
  with assms show ?thesis
    by (cases e) (simp_all add: Server_ReportJobStatus_def report_found_def ends_def Let_def JM_Get_def r)
qed

lemma released_known: "fmlookup (nodes (ReleaseNodes ks c r)) k = None \<longleftrightarrow> fmlookup (nodes r) k = None"
  by (induction ks arbitrary: r) (auto split: option.split)

lemma report_registered:
  "Reg_Get k (srv_registry (snd (Server_ReportJobStatus now req s))) = None \<longleftrightarrow> Reg_Get k (srv_registry s) = None"
  by (auto simp: Server_ReportJobStatus_def report_found_def Let_def Reg_Get_def released_known
      split: sum.split option.split prod.split)

lemma failure_report:
  assumes "srv_inv s" "fmlookup (jobs (srv_jobs s)) jid = Some j" "job_Status j = StatusRunning"
    and "n \<in> set (AssignedNodeIDs j)" "fmlookup (reports_of (srv_jobs s) jid) n = None"
    and "s' = snd (Server_ReportJobStatus now (Some (report_request n jid JOB_EVENT_FAILED c msg)) s)"
  shows "fmlookup (jobs (srv_jobs s')) jid =
      Some (j\<lparr>job_Status := StatusFailed, FinishedAt := now, ExitCode := sint c, ErrorMessage := msg\<rparr>) \<and>
    \<not> carried jid s' \<and>
    (\<forall>k \<in> set (AssignedNodeIDs j). k \<noteq> n \<longrightarrow> PendingCancel k (srv_hub s') = jid)"
proof -
  note jid = nokey [OF assms(1,2)]
  note named = running_nodes_named [OF assms(1-3)]
  with assms(4) have n: "n \<noteq> []" by metis
  from srv_inv_running(3) [OF assms(1-3)] assms(4) obtain x where reg: "Reg_Get n (srv_registry s) = Some x"
    by (auto simp: Reg_Get_def)
  let ?m = "(srv_jobs s)\<lparr>jobs := fmupd jid (j\<lparr>job_Status := StatusFailed, FinishedAt := now, ExitCode := sint c,
      ErrorMessage := msg\<rparr>) (jobs (srv_jobs s)), reports := fmdrop jid (reports (srv_jobs s))\<rparr>"
  have r: "ReportNodeEvent now jid n True (sint c) msg (srv_jobs s) = (None, ?m)"
    using assms(2-5) by (simp add: ReportNodeEvent_eq Let_def)
  have inv: "srv_inv s'" unfolding assms(6) by (rule srv_inv_ReportJobStatus [OF assms(1)])
  have jm: "srv_jobs s' = ?m"
    unfolding assms(6) using report_jobs [OF _ n jid reg assms(2), of JOB_EVENT_FAILED] r by (simp add: ends_def)
  have "srv_hub s' = NotifyCancel (filter (\<lambda>k. k \<noteq> n) (AssignedNodeIDs j)) jid (ClearCancel n jid (srv_hub s))"
    unfolding assms(6) using n jid reg assms(2,3) r
    by (simp add: Server_ReportJobStatus_def report_found_def Let_def JM_Get_def Terminal_def)
  then have "PendingCancel k (srv_hub s') = jid" if "k \<in> set (AssignedNodeIDs j)" "k \<noteq> n" for k
    using that named jid PendingCancel_Notify [of jid k "filter (\<lambda>k. k \<noteq> n) (AssignedNodeIDs j)"] by fastforce
  moreover have "\<not> carried jid s'"
    by (rule not_carried [OF inv jid]) (simp add: jm)
  ultimately show ?thesis by (simp add: jm)
qed

text \<open>C11.  The first failure stops the gang: when an assigned node that has not reported reports failure,
  the job has failed with the node's exit code and message, no node carries it any more, and every
  other node of the gang has it as its pending cancel.\<close>

theorem failure_report_stops_the_gang:
  assumes "srv_inv s" "fmlookup (jobs (srv_jobs s)) jid = Some j" "job_Status j = StatusRunning"
    and "n \<in> set (AssignedNodeIDs j)" "fmlookup (reports_of (srv_jobs s) jid) n = None"
    and "s' = snd (Server_ReportJobStatus now (Some (report_request n jid JOB_EVENT_FAILED c msg)) s)"
  shows "fmlookup (jobs (srv_jobs s')) jid =
      Some (j\<lparr>job_Status := StatusFailed, FinishedAt := now, ExitCode := sint c, ErrorMessage := msg\<rparr>) \<and>
    \<not> carried jid s' \<and>
    (\<forall>k \<in> set (AssignedNodeIDs j). k \<noteq> n \<longrightarrow> PendingCancel k (srv_hub s') = jid)"
  using assms by (rule failure_report)

lemma single_node_unreported:
  assumes "srv_inv s" "fmlookup (jobs (srv_jobs s)) jid = Some j" "job_Status j = StatusRunning"
    and "length (AssignedNodeIDs j) = 1"
  shows "reports_of (srv_jobs s) jid = fmempty"
proof (cases "fmlookup (reports (srv_jobs s)) jid")
  case (Some rs)
  with assms have "rs = fmempty \<or> go_len rs < 1"
    unfolding srv_inv_def sys_ok_def jm_inv_def reports_ok_def by fastforce
  then have "rs = fmempty" by (auto simp: go_len_def intro!: fmap_ext fmdom_notD)
  with Some show ?thesis by (simp add: reports_of_def)
qed (simp add: reports_of_def)

definition sample_started :: "int Server" where
  "sample_started = srv_schedule (\<lambda>d. d) 5 6 sample_run"

definition sample_active :: Job where
  "sample_active = sample_stored\<lparr>job_Status := StatusRunning, AssignedNodeIDs := [''n1''], StartedAt := 5\<rparr>"

lemma sample_started_jobs: "fmlookup (jobs (srv_jobs sample_started)) ''job-2'' = None"
  by code_simp

lemma sample_started_facts:
  "srv_inv sample_started"
  "fmlookup (jobs (srv_jobs sample_started)) ''job-1'' = Some sample_active"
  "job_Status sample_active = StatusRunning" "AssignedNodeIDs sample_active = [''n1'']"
  "reports_of (srv_jobs sample_started) ''job-1'' = fmempty"
proof -
  show inv: "srv_inv sample_started"
  proof -
    have "srv_inv sample_run" unfolding sample_run_def by (rule controller.inv_run)
    from srv_inv_apply [OF this, of "\<lambda>d. d" "\<lambda>d. d" "SchedulerTurn 5 6"] show ?thesis
      by (simp add: sample_started_def)
  qed
  show job: "fmlookup (jobs (srv_jobs sample_started)) ''job-1'' = Some sample_active"
    unfolding sample_started_def sample_active_def by (rule sample_placed)
  show st: "job_Status sample_active = StatusRunning" "AssignedNodeIDs sample_active = [''n1'']"
    by (simp_all add: sample_active_def)
  show "reports_of (srv_jobs sample_started) ''job-1'' = fmempty"
    by (rule single_node_unreported [OF inv job st(1)]) (simp add: st(2))
qed

text \<open>The running job of the sample is cancelled, and then a second time, and an unknown one.\<close>

definition cancel_sample :: "string \<Rightarrow> int Server \<Rightarrow> (int, instant) pb_CancelJobResponse rpc \<times> int Server" where
  "cancel_sample jid s = Server_CancelJob (\<lambda>d. d) (\<lambda>t. t) 9 (Some \<lparr>CancelJobRequest_JobId = jid\<rparr>) s"

theorem cancel_frees_the_gang_witness:
  "fmlookup (jobs (srv_jobs (snd (cancel_sample ''job-1'' sample_started)))) ''job-1'' = Some (cancelled 9 sample_active) \<and>
   \<not> carried ''job-1'' (snd (cancel_sample ''job-1'' sample_started)) \<and>
   PendingCancel ''n1'' (srv_hub (snd (cancel_sample ''job-1'' sample_started))) = ''job-1'' \<and>
   (\<exists>msg. fst (cancel_sample ''job-2'' sample_started) = Inl (NotFound, msg)) \<and>
   (\<exists>msg. fst (cancel_sample [] sample_started) = Inl (InvalidArgument, msg))"
proof -
  have "(jid = ''job-1'' \<longrightarrow> fmlookup (jobs (srv_jobs (snd (cancel_sample jid sample_started)))) jid = Some (cancelled 9 sample_active) \<and>
      \<not> carried jid (snd (cancel_sample jid sample_started)) \<and> PendingCancel ''n1'' (srv_hub (snd (cancel_sample jid sample_started))) = jid) \<and>
    (jid = ''job-2'' \<longrightarrow> (\<exists>msg. fst (cancel_sample jid sample_started) = Inl (NotFound, msg))) \<and>
    (jid = [] \<longrightarrow> (\<exists>msg. fst (cancel_sample jid sample_started) = Inl (InvalidArgument, msg)))" for jid
    using cancel_frees_the_gang [where dNew = "\<lambda>d. d" and tsNew = "\<lambda>t. t" and now = 9 and req = "Some \<lparr>CancelJobRequest_JobId = jid\<rparr>",
        OF sample_started_facts(1) surjective_pairing]
      sample_started_facts(2-4) sample_started_jobs
    by (auto simp: cancel_sample_def pb_getters)
  then show ?thesis by blast
qed

theorem failure_report_stops_the_gang_witness:
  "fmlookup (jobs (srv_jobs (snd (Server_ReportJobStatus 8
      (Some (report_request ''n1'' ''job-1'' JOB_EVENT_FAILED 7 ''boom'')) sample_started)))) ''job-1'' =
     Some (sample_active\<lparr>job_Status := StatusFailed, FinishedAt := 8, ExitCode := 7, ErrorMessage := ''boom''\<rparr>)"
  using failure_report_stops_the_gang [OF sample_started_facts(1-3) _ _ refl, of "''n1''" 8 7 "''boom''"]
  by (simp add: sample_started_facts)

section \<open>Completion\<close>

text \<open>A success report, and a batch of them delivered in order at their clock readings.\<close>

record success =
  sc_at :: instant
  sc_node :: string
  sc_code :: int32
  sc_msg :: string

definition success_report :: "string \<Rightarrow> success \<Rightarrow> 'dur Server \<Rightarrow> 'dur Server" where
  "success_report jid r s =
     snd (Server_ReportJobStatus (sc_at r) (Some (report_request (sc_node r) jid JOB_EVENT_COMPLETED (sc_code r) (sc_msg r))) s)"

definition as_report :: "success \<Rightarrow> instant \<times> report" where
  "as_report r = (sc_at r, \<lparr>rp_node = sc_node r, rp_failed = False, rp_code = sint (sc_code r), rp_msg = sc_msg r\<rparr>)"

lemma gang_outcome_success:
  assumes "set ids \<subseteq> fst ` set seen \<union> rp_node ` set rs" "\<forall>r \<in> set rs. \<not> rp_failed r \<and> rp_node r \<in> set ids"
    and "\<not> set ids \<subseteq> fst ` set seen"
  shows "\<exists>c. gang_outcome ids seen rs = GangCompleted c"
  using assms
proof (induction rs arbitrary: seen)
  case (Cons r rs)
  show ?case
  proof (cases "rp_node r \<in> fst ` set seen \<or> set ids \<subseteq> fst ` set (seen @ [(rp_node r, rp_code r)])")
    case True
    with Cons.IH [of seen] Cons.prems show ?thesis by (auto simp: Let_def insert_absorb)
  next
    case False
    with Cons.IH [of "seen @ [(rp_node r, rp_code r)]"] Cons.prems show ?thesis by (simp add: Let_def)
  qed
qed simp

lemma success_reports_deliver:
  assumes "\<forall>r \<in> set rs. sc_node r \<noteq> [] \<and> Reg_Get (sc_node r) (srv_registry s) \<noteq> None"
    and "jid \<noteq> []" "fmlookup (jobs (srv_jobs s)) jid \<noteq> None"
  shows "srv_jobs (fold (success_report jid) rs s) = deliver jid (map as_report rs) (srv_jobs s)"
  using assms
proof (induction rs arbitrary: s)
  case (Cons r rs)
  let ?s = "success_report jid r s"
  from Cons.prems obtain j x where jx: "fmlookup (jobs (srv_jobs s)) jid = Some j"
    "Reg_Get (sc_node r) (srv_registry s) = Some x" by auto
  then have jobs: "srv_jobs ?s = snd (ReportNodeEvent (sc_at r) jid (sc_node r) False (sint (sc_code r)) (sc_msg r) (srv_jobs s))"
    using Cons.prems report_jobs [of JOB_EVENT_COMPLETED "sc_node r" jid s x j "sc_at r" "sc_code r" "sc_msg r"]
    by (simp add: success_report_def ends_def)
  then have "fmdom' (jobs (srv_jobs ?s)) = fmdom' (jobs (srv_jobs s))" by simp
  then have "fmlookup (jobs (srv_jobs ?s)) jid \<noteq> None" using jx(1) by (metis mem_fmdom' option.discI)
  with Cons.IH [of ?s] Cons.prems jobs show ?case
    by (simp add: success_report_def report_registered as_report_def)
qed simp

lemma represents_exists: "\<exists>seen. represents rs seen"
proof -
  let ?ks = "go_keys rs"
  have ks: "distinct ?ks" "set ?ks = fmdom' rs" using go_range_keys [of rs] by (simp_all add: go_range_def)
  let ?seen = "map (\<lambda>k. (k, nr_exitCode (the (fmlookup rs k)))) ?ks"
  have "map_of ?seen n = map_option nr_exitCode (fmlookup rs n)" for n
    using ks(2) mem_fmdom' [of n rs]
    by (cases "fmlookup rs n") (auto simp: map_of_map_restrict restrict_map_def)
  with ks(1) have "represents rs ?seen" by (simp add: represents_def comp_def)
  then show ?thesis ..
qed


lemma reports_incomplete:
  assumes "srv_inv s" "fmlookup (jobs (srv_jobs s)) jid = Some j" "job_Status j = StatusRunning"
    and "represents (reports_of (srv_jobs s) jid) seen"
  shows "fst ` set seen \<subseteq> set (AssignedNodeIDs j)" "\<not> set (AssignedNodeIDs j) \<subseteq> fst ` set seen"
proof -
  let ?rs = "reports_of (srv_jobs s) jid"
  have jm: "jm_inv (srv_jobs s)" using assms(1) by (simp add: srv_inv_def sys_ok_def)
  with assms(2,3) obtain rs where rs: "fmlookup (reports (srv_jobs s)) jid = Some rs"
    by (auto simp: is_job_def dest!: jm_inv_reports [of _ jid])
  then have eq: "?rs = rs" by (simp add: reports_of_def)
  from jm rs assms(2) have ok: "reports_ok j rs" by (auto simp: jm_inv_def)
  have ids: "AssignedNodeIDs j \<noteq> []"
    using srv_inv_running(2) [OF assms(1-3)] assms(1,2) by (fastforce simp: srv_inv_def sys_ok_def sized_def Spec_Validate_None_iff)
  show sub: "fst ` set seen \<subseteq> set (AssignedNodeIDs j)"
    using ok represents_fmdom' [OF assms(4)] by (simp add: eq reports_ok_def)
  from ok ids have "go_len rs < length (AssignedNodeIDs j)" by (auto simp: reports_ok_def)
  with complete_iff [OF assms(4) sub srv_inv_running(1) [OF assms(1-3)]] eq
  show "\<not> set (AssignedNodeIDs j) \<subseteq> fst ` set seen" by simp
qed

text \<open>C10.  A gang that succeeds finishes: once every node of a running gang has reported success, in any
  order, with any codes and with repetitions, the job is completed and no node carries it.\<close>

theorem gang_completes:
  assumes "srv_inv s" "fmlookup (jobs (srv_jobs s)) jid = Some j" "job_Status j = StatusRunning"
    and "sc_node ` set rs = set (AssignedNodeIDs j)"
  shows "\<exists>j'. fmlookup (jobs (srv_jobs (fold (success_report jid) rs s))) jid = Some j' \<and>
     job_Status j' = StatusCompleted \<and> ErrorMessage j' = ErrorMessage j \<and>
     \<not> carried jid (fold (success_report jid) rs s)"
proof -
  let ?s' = "fold (success_report jid) rs s"
  note jid = nokey [OF assms(1,2)]
  have "sc_node r \<noteq> [] \<and> Reg_Get (sc_node r) (srv_registry s) \<noteq> None" if "r \<in> set rs" for r
  proof -
    from that assms(4) have n: "sc_node r \<in> set (AssignedNodeIDs j)" by blast
    with srv_inv_running(3) [OF assms(1-3)] have "Reg_Get (sc_node r) (srv_registry s) \<noteq> None"
      by (auto simp: Reg_Get_def)
    moreover from n running_nodes_named [OF assms(1-3)] have "sc_node r \<noteq> []" by metis
    ultimately show ?thesis by simp
  qed
  then have jobs: "srv_jobs ?s' = deliver jid (map as_report rs) (srv_jobs s)"
    using jid assms(2) by (intro success_reports_deliver) simp_all
  obtain seen where seen: "represents (reports_of (srv_jobs s) jid) seen" using represents_exists by blast
  note inc = reports_incomplete [OF assms(1-3) seen]
  have nodes: "rp_node ` set (map snd (map as_report rs)) = sc_node ` set rs" by (simp add: image_image as_report_def)
  have "\<exists>c. gang_outcome (AssignedNodeIDs j) seen (map snd (map as_report rs)) = GangCompleted c"
    by (rule gang_outcome_success [OF _ _ inc(2)], unfold nodes assms(4)) (use assms(4) in \<open>auto simp: as_report_def\<close>)
  with deliver_outcome [OF assms(2,3) srv_inv_running(1) [OF assms(1-3)] seen inc(1), of "map as_report rs"] jobs
  obtain j' where j': "fmlookup (jobs (srv_jobs ?s')) jid = Some j'" "job_Status j' = StatusCompleted"
    "ErrorMessage j' = ErrorMessage j"
    by (auto simp: shows_outcome_def)
  have "srv_inv ?s'"
    using assms(1) by (induction rs arbitrary: s) (simp_all add: success_report_def srv_inv_ReportJobStatus)
  with j' jid have "\<not> carried jid ?s'" by (intro not_carried) auto
  with j' show ?thesis by blast
qed

theorem gang_completes_witness:
  "\<exists>j'. fmlookup (jobs (srv_jobs (fold (success_report ''job-1'')
       [\<lparr>sc_at = 8, sc_node = ''n1'', sc_code = 0, sc_msg = []\<rparr>, \<lparr>sc_at = 9, sc_node = ''n1'', sc_code = 1, sc_msg = []\<rparr>]
       sample_started))) ''job-1'' = Some j' \<and> job_Status j' = StatusCompleted"
proof -
  have "sc_node ` set [\<lparr>sc_at = 8, sc_node = ''n1'', sc_code = 0, sc_msg = []\<rparr>, \<lparr>sc_at = 9, sc_node = ''n1'', sc_code = 1, sc_msg = []\<rparr>]
      = set (AssignedNodeIDs sample_active)" by (simp add: sample_started_facts)
  from gang_completes [OF sample_started_facts(1-3) this] show ?thesis by blast
qed

section \<open>Branches that lose information\<close>

text \<open>A cancelled report is only acknowledged: whatever the state of the job it names, the job manager
  and the registry stay as they were, so a node that stops a running job on its own leaves it running
  and its gang reserved.\<close>

theorem cancelled_report_is_ignored:
  assumes "n \<noteq> []" "jid \<noteq> []" "Reg_Get n (srv_registry s) = Some x" "JM_Get jid (srv_jobs s) = Inr j"
  shows "Server_ReportJobStatus now (Some (report_request n jid JOB_EVENT_CANCELLED c msg)) s =
     (Inr \<lparr>ReportJobStatusResponse_Acknowledged = True\<rparr>, set_hub (ClearCancel n jid (srv_hub s)) s)"
  using assms by (simp add: Server_ReportJobStatus_def report_found_def Let_def)

theorem cancelled_report_is_ignored_witness:
  "snd (Server_ReportJobStatus 8 (Some (report_request ''n1'' ''job-1'' JOB_EVENT_CANCELLED 1 ''cancelled'')) sample_started) =
   set_hub (ClearCancel ''n1'' ''job-1'' (srv_hub sample_started)) sample_started"
proof -
  from sample_started_facts(2) have get: "JM_Get ''job-1'' (srv_jobs sample_started) = Inr sample_active"
    by (simp add: JM_Get_def)
  from srv_inv_running(3) [OF sample_started_facts(1-3)] sample_started_facts(4)
  obtain x where "Reg_Get ''n1'' (srv_registry sample_started) = Some x" by (auto simp: Reg_Get_def)
  from cancelled_report_is_ignored [OF _ _ this get, of 8 1 "''cancelled''"] show ?thesis by simp
qed

text \<open>An event number that the protocol does not define counts as success: it is handled exactly as
  \<open>JOB_EVENT_COMPLETED\<close>.\<close>

theorem unknown_event_counts_as_success:
  "Server_ReportJobStatus now (Some (report_request n jid (JobEvent_unnamed v) c msg)) s =
   Server_ReportJobStatus now (Some (report_request n jid JOB_EVENT_COMPLETED c msg)) s"
  by (cases "JM_Get jid (srv_jobs s)") (simp_all add: Server_ReportJobStatus_def report_found_def Let_def)

text \<open>A filter none of whose statuses decodes selects every job, just as an empty filter does.\<close>

theorem undecodable_filter_lists_every_job:
  assumes "\<forall>st \<in> set sts. \<not> snd (jobStatusFromProto st)"
  shows "Server_ListJobs dNew tsNew ks (Some \<lparr>ListJobsRequest_Statuses = sts\<rparr>) s =
     Server_ListJobs dNew tsNew ks (Some \<lparr>ListJobsRequest_Statuses = []\<rparr>) s"
proof -
  have "filter snd (map jobStatusFromProto sts) = []" using assms by (simp add: filter_empty_conv)
  then show ?thesis by (simp add: Server_ListJobs_def pb_getters)
qed

theorem undecodable_filter_lists_every_job_witness:
  "Server_ListJobs (\<lambda>d. d) (\<lambda>t. t) [''job-1''] (Some \<lparr>ListJobsRequest_Statuses = [JOB_STATUS_UNSPECIFIED]\<rparr>) sample_run =
   Server_ListJobs (\<lambda>d. d) (\<lambda>t. t) [''job-1''] (Some \<lparr>ListJobsRequest_Statuses = []\<rparr>) sample_run"
  by (rule undecodable_filter_lists_every_job) (simp add: jobStatusFromProto_def)

section \<open>The work stream\<close>

lemma watch_loop_append:
  "watch_loop n ch (cs @ ds) h = (case watch_loop n ch cs h of
     (msgs, Ended e, h') \<Rightarrow> (msgs, Ended e, h')
   | (msgs, Running, h') \<Rightarrow> (case watch_loop n ch ds h' of (msgs', e, h'') \<Rightarrow> (msgs @ msgs', e, h'')))"
proof (induction cs arbitrary: h)
  case (Cons c cs)
  then show ?case
    by (cases "watch_step n ch c h"; cases "fst (snd (watch_step n ch c h))") (auto split: prod.split watch_end.split)
qed simp

lemma watch_loop_drains:
  assumes "fmlookup (hub_chans h) ch = Some c"
  obtains h' where
    "watch_loop n ch (replicate (length (ch_buf c)) (FromChannel None)) h = (ch_buf c, Running, h')"
    "fmlookup (hub_chans h') ch = Some (c\<lparr>ch_buf := []\<rparr>)" "hub_sub h' = hub_sub h" "hub_queue h' = hub_queue h"
    "hub_cancel h' = hub_cancel h"
  using assms
proof (induction "ch_buf c" arbitrary: h c thesis)
  case Nil
  then have "c\<lparr>ch_buf := []\<rparr> = c" by (metis Chan.surjective Chan.update_convs(1))
  with Nil show ?case by (simp flip: Nil.hyps)
next
  case (Cons m ms)
  let ?c = "c\<lparr>ch_buf := ms\<rparr>"
  let ?h = "h\<lparr>hub_chans := fmupd ch ?c (hub_chans h)\<rparr>"
  have step: "watch_step n ch (FromChannel None) h = ([m], Running, ?h)"
    using Cons.prems(2) by (simp add: watch_step_def receive_def flip: Cons.hyps(2))
  show ?case
  proof (rule Cons.hyps(1) [of ?c ?h])
    fix h' assume "watch_loop n ch (replicate (length (ch_buf ?c)) (FromChannel None)) ?h = (ch_buf ?c, Running, h')"
      "fmlookup (hub_chans h') ch = Some (?c\<lparr>ch_buf := []\<rparr>)" "hub_sub h' = hub_sub ?h" "hub_queue h' = hub_queue ?h"
      "hub_cancel h' = hub_cancel ?h"
    then show thesis by (intro Cons.prems(1) [of h']) (simp_all add: step flip: Cons.hyps(2))
  qed simp_all
qed

lemma Subscribe_chan:
  "fmlookup (hub_chans (snd (Subscribe n h))) (fst (Subscribe n h)) =
     Some \<lparr>ch_buf = queue_of h n, ch_cap = workBuf + length (queue_of h n), ch_closed = False\<rparr>"
  "hub_cancel (snd (Subscribe n h)) = hub_cancel h"
  by (auto simp: Subscribe_def Let_def close_chan_def queue_of_def split: option.split)

text \<open>A node that opens its stream is sent its whole backlog, in the order it was queued, and then
  nothing waits for it any more.\<close>

theorem stream_sends_the_backlog:
  assumes "WatchWork_open req s = (Inr ch, s')" "n = WatchWorkRequest_GetNodeId req"
  shows "\<exists>h'. watch_loop n ch (replicate (length (queue_of (srv_hub s) n)) (FromChannel None)) (srv_hub s') =
       (queue_of (srv_hub s) n, Running, h') \<and> mailbox h' n = [] \<and> PendingCancel n h' = PendingCancel n (srv_hub s)"
proof -
  let ?h = "srv_hub s'" and ?q = "queue_of (srv_hub s) n"
  have sub: "Subscribe n (srv_hub s) = (ch, ?h)"
    using assms by (auto simp: WatchWork_open_def Let_def set_hub_def split: if_splits prod.splits)
  obtain c where c: "fmlookup (hub_chans ?h) ch = Some c" "ch_buf c = ?q" "hub_cancel ?h = hub_cancel (srv_hub s)"
    using Subscribe_chan [of n "srv_hub s"] sub by auto
  note new = Subscribe_mailbox [of n "srv_hub s", unfolded sub, simplified]
  from watch_loop_drains [OF c(1), of n] obtain h' where
    "watch_loop n ch (replicate (length ?q) (FromChannel None)) ?h = (?q, Running, h')"
    "fmlookup (hub_chans h') ch = Some (c\<lparr>ch_buf := []\<rparr>)" "hub_sub h' = hub_sub ?h" "hub_queue h' = hub_queue ?h"
    "hub_cancel h' = hub_cancel ?h"
    unfolding c(2) by blast
  with new c(3) show ?thesis
    by (auto simp: mailbox_def stream_buf_def queue_of_def PendingCancel_def cancel_of_def)
qed

definition sample_watched :: "int Server" where
  "sample_watched = set_hub (send ''n1'' (cancel_msg ''x'') NewHub) sample_run"

theorem stream_sends_the_backlog_witness:
  "\<exists>h'. watch_loop ''n1'' 0 [FromChannel None]
       (srv_hub (snd (WatchWork_open (Some \<lparr>WatchWorkRequest_NodeId = ''n1''\<rparr>) sample_watched))) = ([cancel_msg ''x''], Running, h') \<and>
     mailbox h' ''n1'' = []"
proof -
  let ?req = "Some \<lparr>WatchWorkRequest_NodeId = ''n1''\<rparr>"
  have "fmlookup (hub_sub NewHub) ''n1'' = None" by (simp add: NewHub_def)
  from send_offline(1) [OF this] have q: "queue_of (srv_hub sample_watched) ''n1'' = [cancel_msg ''x'']"
    by (simp add: sample_watched_def set_hub_def sample_queue keep_last_def maxQueue_def)
  have "fst (WatchWork_open ?req sample_watched) = Inr 0"
    by (simp add: WatchWork_open_def pb_getters Let_def sample_watched_def set_hub_def sample_run_fields Reg_Get_def
        Subscribe_def send_def enqueue_def NewHub_def split_beta)
  then have "WatchWork_open ?req sample_watched = (Inr 0, snd (WatchWork_open ?req sample_watched))"
    by (metis prod.collapse)
  from stream_sends_the_backlog [OF this refl] show ?thesis by (auto simp: pb_getters q)
qed

text \<open>A stream that the node has replaced still sends what its channel holds, then ends without an
  error, and its clean-up leaves the new subscription alone.\<close>

theorem replaced_stream_ends_cleanly:
  assumes "fmlookup (hub_chans h) ch = Some c" "ch_closed c" "fmlookup (hub_sub h) n \<noteq> Some ch"
  shows "\<exists>h'. watch_loop n ch (replicate (length (ch_buf c) + 1) (FromChannel None)) h = (ch_buf c, Ended None, h') \<and>
     hub_sub h' = hub_sub h \<and> hub_queue h' = hub_queue h"
proof -
  from watch_loop_drains [OF assms(1), of n] obtain h' where h':
    "watch_loop n ch (replicate (length (ch_buf c)) (FromChannel None)) h = (ch_buf c, Running, h')"
    "fmlookup (hub_chans h') ch = Some (c\<lparr>ch_buf := []\<rparr>)" "hub_sub h' = hub_sub h" "hub_queue h' = hub_queue h" by blast
  then have "watch_step n ch (FromChannel None) h' = ([], Ended None, h')"
    using assms(2,3) by (simp add: watch_step_def receive_def Unsubscribe_def)
  moreover have "replicate (length (ch_buf c) + 1) (FromChannel None) =
      replicate (length (ch_buf c)) (FromChannel None) @ [FromChannel None]"
    by (simp add: replicate_append_same)
  ultimately show ?thesis using h' unfolding watch_loop_append by (simp add: watch_loop_append)
qed


theorem replaced_stream_ends_cleanly_witness:
  "\<exists>h'. watch_loop ''n1'' 0 [FromChannel None, FromChannel None]
       (snd (Subscribe ''n1'' (send ''n1'' (cancel_msg ''x'') (snd (Subscribe ''n1'' NewHub))))) =
     ([cancel_msg ''x'' :: int message], Ended None, h')"
proof -
  let ?h = "snd (Subscribe ''n1'' (send ''n1'' (cancel_msg ''x'') (snd (Subscribe ''n1'' NewHub)))) :: int Hub"
  let ?c = "\<lparr>ch_buf = [cancel_msg ''x''], ch_cap = workBuf, ch_closed = True\<rparr>"
  have "fmlookup (hub_chans ?h) 0 = Some ?c" "fmlookup (hub_sub ?h) ''n1'' \<noteq> Some 0"
    by (simp_all add: Subscribe_def send_def NewHub_def close_chan_def Let_def queue_of_def workBuf_def)
  from replaced_stream_ends_cleanly [OF this(1) _ this(2)] show ?thesis
    by (auto simp del: watch_loop.simps)
qed

section \<open>Waking the scheduler\<close>

lemma kicked: "srv_sched s \<Longrightarrow> wake_ready (comps (srv_kick s))"
  by (simp add: wake_ready_def srv_kick_def Kick_def)

lemma srv_sched_frame [simp]:
  "srv_sched (set_jobs m s) = srv_sched s" "srv_sched (set_registry r s) = srv_sched s"
  "srv_sched (set_hub h s) = srv_sched s"
  by (simp_all add: set_jobs_def set_registry_def set_hub_def)

lemma Report_pending [simp]: "pending (snd (ReportNodeEvent now jid n failed c msg m)) = pending m"
  by (auto simp: ReportNodeEvent_eq Let_def split: option.split)

lemma Report_pending_eq: "ReportNodeEvent now jid n failed c msg m = (e, m') \<Longrightarrow> pending m' = pending m"
  using Report_pending [of now jid n failed c msg m] by simp

lemma Cancel_pending: "JM_Cancel now jid m = (res, m') \<Longrightarrow> set (pending m') \<subseteq> set (pending m)"
  by (auto simp: JM_Cancel_eq Let_def split: option.splits if_splits dest: subsetD [OF set_remove1_subset])

lemma Report_wakes:
  fixes s :: "'dur Server" and req :: "pb_ReportJobStatusRequest option" and now :: instant
  assumes "srv_sched s"
  defines "s' \<equiv> snd (Server_ReportJobStatus now req s)"
  shows "pending (srv_jobs s') = pending (srv_jobs s) \<and> (srv_registry s' = srv_registry s \<or> wake_ready (comps s'))"
proof -
  let ?jid = "ReportJobStatusRequest_GetJobId req" and ?n = "ReportJobStatusRequest_GetNodeId req"
    and ?ev = "ReportJobStatusRequest_GetEvent req"
  obtain e m where r: "ReportNodeEvent now ?jid ?n (?ev = JOB_EVENT_FAILED)
      (sint (ReportJobStatusRequest_GetExitCode req)) (ReportJobStatusRequest_GetErrorMessage req) (srv_jobs s) = (e, m)"
    by fastforce
  note p = Report_pending_eq [OF r]
  show ?thesis unfolding s'_def
    by (cases "JM_Get ?jid (srv_jobs s)"; cases e; cases "JM_Get ?jid m")
      (simp_all add: Server_ReportJobStatus_def report_found_def Let_def r p kicked assms(1))
qed

definition is_rpc :: "'dur srv_op \<Rightarrow> bool" where
  "is_rpc c \<longleftrightarrow> (case c of StreamTurn n ch w \<Rightarrow> False | SchedulerTurn t1 t2 \<Rightarrow> False | MonitorBeat t \<Rightarrow> False
     | MonitorTick clk ks now clk' \<Rightarrow> False | _ \<Rightarrow> True)"

text \<open>No wake-up is lost: an RPC that adds to the queue or touches the registry leaves a token on the
  kick channel, so the scheduler's next wait does not block.  (Cancelling a job that still waits is the
  exception that the premise leaves out: the queue only shrinks, and the tick finds the new head.)\<close>

theorem handlers_wake_the_scheduler:
  assumes "srv_sched s" "is_rpc c" "s' = srv_apply asDur dNew c s"
    and "\<not> set (pending (srv_jobs s')) \<subseteq> set (pending (srv_jobs s)) \<or> srv_registry s' \<noteq> srv_registry s"
  shows "wake_ready (comps s') \<and> (\<exists>s''. wake_up WakeKick (comps s') = Some s'')"
proof -
  have "wake_ready (comps s')"
  proof (cases c)
    case (RegisterNodeRPC now req)
    with assms show ?thesis by (auto simp: Server_RegisterNode_def Let_def kicked split: if_splits)
  next
    case (SubmitJobRPC now req)
    with assms show ?thesis
      by (auto simp: Server_SubmitJob_def Let_def kicked Submit_def split: sum.splits option.splits prod.splits if_splits)
  next
    case (CancelJobRPC now req)
    with assms show ?thesis
      by (auto simp: Server_CancelJob_def cancel_found_def Let_def kicked dest!: Cancel_pending
          split: sum.splits prod.splits if_splits)
  next
    case (ReportJobStatusRPC now req)
    with assms Report_wakes [OF assms(1), of now req] show ?thesis by auto
  qed (use assms in \<open>auto simp: is_rpc_def Server_Heartbeat_def WatchWork_open_def Let_def split: prod.splits if_splits\<close>)
  then show ?thesis by (simp add: wake_ready_def wake_up_def)
qed

theorem handlers_wake_the_scheduler_witness:
  "wake_ready (comps (srv_apply (\<lambda>d. d) (\<lambda>d. d) (SubmitJobRPC 2 (Some sample_request))
     (srv_apply (\<lambda>d. d) (\<lambda>d. d) (RegisterNodeRPC 1 (Some sample_node_request)) (New_Server None None None None True))))"
proof -
  let ?s = "srv_apply (\<lambda>d. d) (\<lambda>d. d) (RegisterNodeRPC 1 (Some sample_node_request)) (New_Server None None None None True)"
  have "pending (srv_jobs ?s) = []" "srv_sched ?s"
    by (simp_all add: Server_RegisterNode_def New_Server_def Let_def Make_Scheduler_def Make_JobManager_def
        srv_kick_def Kick_def sample_node_request_def pb_getters set_registry_def)
  moreover have "pending (srv_jobs (srv_apply (\<lambda>d. d) (\<lambda>d. d) (SubmitJobRPC 2 (Some sample_request)) ?s)) = [''job-1'']"
    using sample_run_fields(2) by (simp add: sample_run_def)
  ultimately show ?thesis
    using handlers_wake_the_scheduler [OF _ _ refl, of ?s "SubmitJobRPC 2 (Some sample_request)"] by (simp add: is_rpc_def)
qed

section \<open>A report that comes back too late\<close>

lemma Terminal_not_running: "Terminal st \<Longrightarrow> st \<noteq> StatusRunning"
  by (auto simp: Terminal_def)

text \<open>C35.  \<open>ReportJobStatus\<close> decides to release the gang from a copy of the job that it read before it
  delivered the report.  If meanwhile the job has ended by another report or a cancellation, its nodes
  were released then, and the scheduler may have given one of them to the next job: the late report
  releases it once more, so that job keeps running while its node counts as free and can be given
  away again.\<close>

theorem late_report_frees_the_next_job:
  assumes "ReportJobStatusRequest_GetEvent req \<noteq> JOB_EVENT_CANCELLED" "jid = ReportJobStatusRequest_GetJobId req"
    and "\<not> Terminal (job_Status before)"
    and "fmlookup (jobs (srv_jobs s)) jid = Some j" "Terminal (job_Status j)" "k \<in> set (AssignedNodeIDs j)"
    and "fmlookup (jobs (srv_jobs s)) jid2 = Some j2" "job_Status j2 = StatusRunning" "k \<in> set (AssignedNodeIDs j2)"
    and "fmlookup (nodes (srv_registry s)) k = Some n" "CurrentJobID n = jid2"
    and "report_found now req before s = (resp, s')"
  shows "fmlookup (jobs (srv_jobs s')) jid2 = Some j2 \<and> resp = Inr \<lparr>ReportJobStatusResponse_Acknowledged = True\<rparr> \<and>
    (\<exists>n'. fmlookup (nodes (srv_registry s')) k = Some n' \<and> CurrentJobID n' = [])"
proof -
  have "ReportNodeEvent now jid m failed c msg (srv_jobs s) = (None, srv_jobs s)" for m failed c msg
    using assms(4,5) Terminal_not_running by (simp add: ReportNodeEvent_eq Let_def)
  then have run: "resp = Inr \<lparr>ReportJobStatusResponse_Acknowledged = True\<rparr>" "srv_jobs s' = srv_jobs s"
    "srv_registry s' = ReleaseNodes (AssignedNodeIDs j) (CPUsPerNode (Resources (job_Spec j))) (srv_registry s)"
    using assms(1,3-5,12) by (auto simp: report_found_def JM_Get_def Let_def simp flip: assms(2))
  obtain n' where n': "fmlookup (nodes (srv_registry s')) k = Some n'"
    unfolding run(3) using assms(10) released_known [where k = k] by (metis not_None_eq)
  with idle_ReleaseNodes [OF assms(6), of "CPUsPerNode (Resources (job_Spec j))" "srv_registry s"] run assms(7)
  show ?thesis by (auto simp: idle_def)
qed

text \<open>The schedule: node n1 runs job-1; a report of n1 is past its first read when the job is cancelled; n1
  then takes job-2.\<close>

definition sample_reused :: "int Server" where
  "sample_reused = srv_run (\<lambda>d. d) (\<lambda>d. d) [RegisterNodeRPC 1 (Some sample_node_request), SubmitJobRPC 2 (Some sample_request),
     SchedulerTurn 5 6, CancelJobRPC 7 (Some \<lparr>CancelJobRequest_JobId = ''job-1''\<rparr>), SubmitJobRPC 8 (Some sample_request),
     SchedulerTurn 9 10]"

lemma sample_reused_state:
  "map_option job_Status (fmlookup (jobs (srv_jobs sample_reused)) ''job-1'') = Some StatusCancelled"
  "map_option AssignedNodeIDs (fmlookup (jobs (srv_jobs sample_reused)) ''job-1'') = Some [''n1'']"
  "map_option job_Status (fmlookup (jobs (srv_jobs sample_reused)) ''job-2'') = Some StatusRunning"
  "map_option AssignedNodeIDs (fmlookup (jobs (srv_jobs sample_reused)) ''job-2'') = Some [''n1'']"
  "map_option CurrentJobID (fmlookup (nodes (srv_registry sample_reused)) ''n1'') = Some ''job-2''"
  by code_simp+

theorem late_report_frees_the_next_job_witness:
  "\<exists>n j. fmlookup (nodes (srv_registry (snd (report_found 11
      (Some (report_request ''n1'' ''job-1'' JOB_EVENT_COMPLETED 0 [])) sample_active sample_reused)))) ''n1'' = Some n \<and>
     CurrentJobID n = [] \<and>
     fmlookup (jobs (srv_jobs (snd (report_found 11
      (Some (report_request ''n1'' ''job-1'' JOB_EVENT_COMPLETED 0 [])) sample_active sample_reused)))) ''job-2'' = Some j \<and>
     job_Status j = StatusRunning"
proof -
  obtain j where j: "fmlookup (jobs (srv_jobs sample_reused)) ''job-1'' = Some j" "Terminal (job_Status j)" "''n1'' \<in> set (AssignedNodeIDs j)"
    using sample_reused_state(1,2) by auto
  obtain j2 where j2: "fmlookup (jobs (srv_jobs sample_reused)) ''job-2'' = Some j2" "job_Status j2 = StatusRunning" "''n1'' \<in> set (AssignedNodeIDs j2)"
    using sample_reused_state(3,4) by auto
  obtain n where n: "fmlookup (nodes (srv_registry sample_reused)) ''n1'' = Some n" "CurrentJobID n = ''job-2''"
    using sample_reused_state(5) by auto
  let ?req = "Some (report_request ''n1'' ''job-1'' JOB_EVENT_COMPLETED 0 [])"
  from late_report_frees_the_next_job [of ?req "''job-1''" sample_active, OF _ _ _ j j2 n surjective_pairing]
  show ?thesis using j2(2) by (auto simp: sample_started_facts)
qed

end
