(* ===== verification/Threads.thy ===== *)
theory Threads
  imports Handlers
begin

text \<open>
  The controller call by call.  In \<open>System\<close> a whole handler is one step; here a handler, an attempt of
  the scheduler and a turn of the monitor are threads, and a step of a thread is one call of a locked
  method of a component (one locked section, where a method of the hub has several) with the local
  computation up to the next one.  Other threads may run between any two steps.  A value of \<open>pc\<close> is a
  place in a handler of \<open>src/internal/controller/server.go\<close> with the local variables that are still
  needed there; \<open>sched_pc\<close> is a place in \<open>Run\<close> and \<open>trySchedule\<close> of
  \<open>src/internal/scheduler/scheduler.go\<close>, \<open>mon_pc\<close> one in \<open>Run\<close> of \<open>src/internal/cluster/heartbeat.go\<close>
  and \<open>handleDeadNodes\<close> of \<open>src/internal/cluster/reaper.go\<close>.
\<close>

section \<open>Calls of the hub, section by section\<close>

definition notify_sections :: "string list \<Rightarrow> string \<Rightarrow> 'dur hub_op list" where
  "notify_sections nodeIDs jobID =
     (if jobID = [] then []
      else concat (map (\<lambda>n. [SetCancelOp n jobID, SendOp n (cancel_msg jobID)]) (filter (\<lambda>n. n \<noteq> []) nodeIDs)))"

definition dispatch_sections :: "(duration \<Rightarrow> 'dur) \<Rightarrow> string \<Rightarrow> Assignment \<Rightarrow> 'dur hub_op list" where
  "dispatch_sections dNew nodeID a = [DropCancelOp nodeID, SendOp nodeID (assignment_msg dNew a)]"

section \<open>Handlers\<close>

datatype 'dur request =
    RegisterNodeReq "pb_RegisterNodeRequest option"
  | HeartbeatReq "pb_HeartbeatRequest option"
  | SubmitJobReq "'dur pb_SubmitJobRequest option"
  | ListJobsReq "pb_ListJobsRequest option"
  | CancelJobReq "pb_CancelJobRequest option"
  | ListNodesReq
  | ReportJobStatusReq "pb_ReportJobStatusRequest option"
  | WatchWorkReq "pb_WatchWorkRequest option"

datatype ('dur, 'ts) reply =
    RegisterNodeReply "pb_RegisterNodeResponse rpc"
  | HeartbeatReply "pb_HeartbeatResponse rpc"
  | SubmitJobReply "('dur, 'ts) pb_SubmitJobResponse rpc"
  | ListJobsReply "('dur, 'ts) pb_ListJobsResponse rpc"
  | CancelJobReply "('dur, 'ts) pb_CancelJobResponse rpc"
  | ListNodesReply "'ts pb_ListNodesResponse rpc"
  | ReportJobStatusReply "pb_ReportJobStatusResponse rpc"
  | WatchWorkRefused "rpc_code \<times> string"
  | WatchWorkReply "go_error option"

text \<open>The places of a handler; \<open>WatchLoop\<close> keeps the messages sent on the stream so far.\<close>

datatype ('dur, 'ts) pc =
    Entered "'dur request"
  | RegisterKick string
  | HeartbeatRecord string
  | HeartbeatPending string
  | SubmitStore string Spec
  | SubmitKick string
  | SubmitGet string
  | CancelCancel string Job
  | CancelRelease string Job
  | CancelNotify string "'dur hub_op list"
  | CancelKick string
  | CancelGet string
  | ReportGet "pb_ReportJobStatusRequest option"
  | ReportDropCancel "pb_ReportJobStatusRequest option"
  | ReportEvent "pb_ReportJobStatusRequest option" Job
  | ReportClear "pb_ReportJobStatusRequest option" Job
  | ReportAfter "pb_ReportJobStatusRequest option" Job
  | ReportRelease "pb_ReportJobStatusRequest option" Job
  | ReportNotify "'dur hub_op list"
  | ReportKick
  | WatchSubscribe string
  | WatchLoop string nat "'dur message list"
  | WatchUnsubscribe string nat "go_error option"
  | Returned "('dur, 'ts) reply"

text \<open>
  What a step takes from outside: the clock, the order in which a map is visited, and the case of
  the \<open>select\<close> in \<open>WatchWork\<close> with the result of sending.
\<close>

record input =
  in_now :: instant
  in_order :: "string list"
  in_case :: watch_case

text \<open>The first step of a handler: its checks and its first call.\<close>

fun enter ::
  "('dur \<Rightarrow> duration) \<Rightarrow> (duration \<Rightarrow> 'dur) \<Rightarrow> (instant \<Rightarrow> 'ts) \<Rightarrow> input \<Rightarrow> 'dur request \<Rightarrow> 'dur Server \<Rightarrow>
   ('dur, 'ts) pc \<times> 'dur Server" where
  "enter asDur dNew tsNew i (RegisterNodeReq req) s =
     (let spec = RegisterNodeRequest_GetSpec req
      in if spec = None then (Returned (RegisterNodeReply (Inl (InvalidArgument, ''spec is required''))), s)
      else
        let nid = NodeSpec_GetId spec;
            nid = (if nid = [] then NodeSpec_GetHostname spec else nid)
        in if nid = [] then (Returned (RegisterNodeReply (Inl (InvalidArgument, ''node id or hostname is required''))), s)
        else
          let cpus = sint (NodeSpec_GetTotalCpus spec);
              cpus = (if cpus < 1 then 1 else cpus);
              node = zero_Node\<lparr>node_ID := nid, Hostname := NodeSpec_GetHostname spec,
                       Address := NodeSpec_GetAddress spec, TotalCPUs := cpus, node_Status := StatusOnline\<rparr>
          in (RegisterKick nid, set_registry (RegisterNode (in_now i) node (srv_registry s)) s))"
| "enter asDur dNew tsNew i (HeartbeatReq req) s =
     (let nid = HeartbeatRequest_GetNodeId req
      in if nid = [] then (Returned (HeartbeatReply (Inl (InvalidArgument, ''node_id is required''))), s)
      else if Reg_Get nid (srv_registry s) = None
      then (Returned (HeartbeatReply (Inl (NotFound, ''node not registered''))), s)
      else (HeartbeatRecord nid, s))"
| "enter asDur dNew tsNew i (SubmitJobReq req) s =
     (case specFromProto asDur (SubmitJobRequest_GetSpec req) of
        Inl err \<Rightarrow> (Returned (SubmitJobReply (Inl (InvalidArgument, error_text err))), s)
      | Inr spec \<Rightarrow>
          let s1 = s\<lparr>idSeq := idSeq s + 1\<rparr>
          in (SubmitStore (job_name (idSeq s1)) spec, s1))"
| "enter asDur dNew tsNew i (ListJobsReq req) s =
     (Returned (ListJobsReply (Server_ListJobs dNew tsNew (in_order i) req s)), s)"
| "enter asDur dNew tsNew i (CancelJobReq req) s =
     (let jid = CancelJobRequest_GetJobId req
      in if jid = [] then (Returned (CancelJobReply (Inl (InvalidArgument, ''job_id is required''))), s)
      else case JM_Get jid (srv_jobs s) of
        Inl err \<Rightarrow> (Returned (CancelJobReply (Inl (get_error err))), s)
      | Inr j \<Rightarrow> (CancelCancel jid j, s))"
| "enter asDur dNew tsNew i ListNodesReq s = (Returned (ListNodesReply (Server_ListNodes tsNew s)), s)"
| "enter asDur dNew tsNew i (ReportJobStatusReq req) s =
     (let nodeID = ReportJobStatusRequest_GetNodeId req;
          jobID = ReportJobStatusRequest_GetJobId req;
          event = ReportJobStatusRequest_GetEvent req
      in if nodeID = [] \<or> jobID = []
      then (Returned (ReportJobStatusReply (Inl (InvalidArgument, ''node_id and job_id are required''))), s)
      else if Reg_Get nodeID (srv_registry s) = None
      then (Returned (ReportJobStatusReply (Inl (NotFound, ''node not registered''))), s)
      else if event = JOB_EVENT_STARTED \<or> event = JOB_EVENT_UNSPECIFIED
      then (Returned (ReportJobStatusReply (Inr \<lparr>ReportJobStatusResponse_Acknowledged = True\<rparr>)), s)
      else (ReportGet req, s))"
| "enter asDur dNew tsNew i (WatchWorkReq req) s =
     (let nodeID = WatchWorkRequest_GetNodeId req
      in if nodeID = [] then (Returned (WatchWorkRefused (InvalidArgument, ''node_id is required'')), s)
      else if Reg_Get nodeID (srv_registry s) = None
      then (Returned (WatchWorkRefused (NotFound, ''node not registered'')), s)
      else (WatchSubscribe nodeID, s))"

text \<open>Every later step.\<close>

fun call_step ::
  "('dur \<Rightarrow> duration) \<Rightarrow> (duration \<Rightarrow> 'dur) \<Rightarrow> (instant \<Rightarrow> 'ts) \<Rightarrow> input \<Rightarrow> ('dur, 'ts) pc \<Rightarrow> 'dur Server \<Rightarrow>
   ('dur, 'ts) pc \<times> 'dur Server" where
  "call_step asDur dNew tsNew i (Entered req) s = enter asDur dNew tsNew i req s"
| "call_step asDur dNew tsNew i (RegisterKick nid) s =
     (Returned (RegisterNodeReply (Inr \<lparr>RegisterNodeResponse_NodeId = nid\<rparr>)), srv_kick s)"
| "call_step asDur dNew tsNew i (HeartbeatRecord nid) s =
     (HeartbeatPending nid, s\<lparr>srv_monitor := Record nid (srv_monitor s)\<rparr>)"
| "call_step asDur dNew tsNew i (HeartbeatPending nid) s =
     (Returned (HeartbeatReply (Inr \<lparr>HeartbeatResponse_Acknowledged = True,
        HeartbeatResponse_CancelJobId = PendingCancel nid (srv_hub s)\<rparr>)), s)"
| "call_step asDur dNew tsNew i (SubmitStore jid spec) s =
     (case New_Job (in_now i) jid spec of
        Inl err \<Rightarrow> (Returned (SubmitJobReply (Inl (InvalidArgument, error_text err))), s)
      | Inr j \<Rightarrow>
          (case Submit (Some j) (srv_jobs s) of
             (Some err, m) \<Rightarrow> (Returned (SubmitJobReply (Inl (Internal, ''submit: '' @ error_text err))), set_jobs m s)
           | (None, m) \<Rightarrow> (SubmitKick jid, set_jobs m s)))"
| "call_step asDur dNew tsNew i (SubmitKick jid) s = (SubmitGet jid, srv_kick s)"
| "call_step asDur dNew tsNew i (SubmitGet jid) s =
     (case JM_Get jid (srv_jobs s) of
        Inl err \<Rightarrow> (Returned (SubmitJobReply (Inl (Internal, ''submit: '' @ error_text err))), s)
      | Inr stored \<Rightarrow>
          (Returned (SubmitJobReply (Inr \<lparr>SubmitJobResponse_Job = jobToProto dNew tsNew (Some stored)\<rparr>)), s))"
| "call_step asDur dNew tsNew i (CancelCancel jid j) s =
     (case JM_Cancel (in_now i) jid (srv_jobs s) of
        (Inl err, m) \<Rightarrow> (Returned (CancelJobReply (Inl (FailedPrecondition, error_text err))), set_jobs m s)
      | (Inr signal, m) \<Rightarrow> (if signal then CancelRelease jid j else CancelGet jid, set_jobs m s))"
| "call_step asDur dNew tsNew i (CancelRelease jid j) s =
     (CancelNotify jid (notify_sections (AssignedNodeIDs j) jid),
      set_registry (ReleaseNodes (AssignedNodeIDs j) (CPUsPerNode (Resources (job_Spec j))) (srv_registry s)) s)"
| "call_step asDur dNew tsNew i (CancelNotify jid ops) s =
     (case ops of
        [] \<Rightarrow> (CancelKick jid, s)
      | c # cs \<Rightarrow> (CancelNotify jid cs, set_hub (hub_apply c (srv_hub s)) s))"
| "call_step asDur dNew tsNew i (CancelKick jid) s = (CancelGet jid, srv_kick s)"
| "call_step asDur dNew tsNew i (CancelGet jid) s =
     (case JM_Get jid (srv_jobs s) of
        Inl err \<Rightarrow> (Returned (CancelJobReply (Inl (Internal, error_text err))), s)
      | Inr job \<Rightarrow>
          (Returned (CancelJobReply (Inr \<lparr>CancelJobResponse_Job = jobToProto dNew tsNew (Some job)\<rparr>)), s))"
| "call_step asDur dNew tsNew i (ReportGet req) s =
     (case JM_Get (ReportJobStatusRequest_GetJobId req) (srv_jobs s) of
        Inl err \<Rightarrow> (Returned (ReportJobStatusReply (Inl (get_error err))), s)
      | Inr prior \<Rightarrow>
          (if ReportJobStatusRequest_GetEvent req = JOB_EVENT_CANCELLED then ReportDropCancel req
           else ReportEvent req prior, s))"
| "call_step asDur dNew tsNew i (ReportDropCancel req) s =
     (Returned (ReportJobStatusReply (Inr \<lparr>ReportJobStatusResponse_Acknowledged = True\<rparr>)),
      set_hub (ClearCancel (ReportJobStatusRequest_GetNodeId req) (ReportJobStatusRequest_GetJobId req) (srv_hub s)) s)"
| "call_step asDur dNew tsNew i (ReportEvent req prior) s =
     (let event = ReportJobStatusRequest_GetEvent req;
          failed = (event = JOB_EVENT_FAILED \<or> event = JOB_EVENT_CANCELLED)
      in case ReportNodeEvent (in_now i) (ReportJobStatusRequest_GetJobId req) (ReportJobStatusRequest_GetNodeId req) failed
             (sint (ReportJobStatusRequest_GetExitCode req)) (ReportJobStatusRequest_GetErrorMessage req) (srv_jobs s) of
           (Some err, m) \<Rightarrow> (Returned (ReportJobStatusReply (Inl (InvalidArgument, error_text err))), set_jobs m s)
         | (None, m) \<Rightarrow> (ReportClear req prior, set_jobs m s))"
| "call_step asDur dNew tsNew i (ReportClear req prior) s =
     (ReportAfter req prior,
      set_hub (ClearCancel (ReportJobStatusRequest_GetNodeId req) (ReportJobStatusRequest_GetJobId req) (srv_hub s)) s)"
| "call_step asDur dNew tsNew i (ReportAfter req prior) s =
     (case JM_Get (ReportJobStatusRequest_GetJobId req) (srv_jobs s) of
        Inl err \<Rightarrow> (Returned (ReportJobStatusReply (Inl (Internal, error_text err))), s)
      | Inr after \<Rightarrow>
          (if Terminal (job_Status after) \<and> \<not> Terminal (job_Status prior) then ReportRelease req after
           else Returned (ReportJobStatusReply (Inr \<lparr>ReportJobStatusResponse_Acknowledged = True\<rparr>)), s))"
| "call_step asDur dNew tsNew i (ReportRelease req after) s =
     (let others = filter (\<lambda>n. n \<noteq> ReportJobStatusRequest_GetNodeId req) (AssignedNodeIDs after)
      in (if job_Status after = StatusFailed
          then ReportNotify (notify_sections others (ReportJobStatusRequest_GetJobId req)) else ReportKick,
          set_registry (ReleaseNodes (AssignedNodeIDs after) (CPUsPerNode (Resources (job_Spec after))) (srv_registry s)) s))"
| "call_step asDur dNew tsNew i (ReportNotify ops) s =
     (case ops of
        [] \<Rightarrow> (ReportKick, s)
      | c # cs \<Rightarrow> (ReportNotify cs, set_hub (hub_apply c (srv_hub s)) s))"
| "call_step asDur dNew tsNew i ReportKick s =
     (Returned (ReportJobStatusReply (Inr \<lparr>ReportJobStatusResponse_Acknowledged = True\<rparr>)), srv_kick s)"
| "call_step asDur dNew tsNew i (WatchSubscribe nodeID) s =
     (case Subscribe nodeID (srv_hub s) of (ch, h) \<Rightarrow> (WatchLoop nodeID ch [], set_hub h s))"
| "call_step asDur dNew tsNew i (WatchLoop nodeID ch sent) s =
     (case in_case i of
        CtxDone \<Rightarrow> (WatchUnsubscribe nodeID ch None, s)
      | FromChannel err \<Rightarrow>
          (case receive ch (srv_hub s) of
             (Blocked, h) \<Rightarrow> (WatchLoop nodeID ch sent, set_hub h s)
           | (ChanClosed, h) \<Rightarrow> (WatchUnsubscribe nodeID ch None, set_hub h s)
           | (Received msg, h) \<Rightarrow>
               (case err of
                  None \<Rightarrow> (WatchLoop nodeID ch (sent @ [msg]), set_hub h s)
                | Some e \<Rightarrow> (WatchUnsubscribe nodeID ch (Some e), set_hub h s))))"
| "call_step asDur dNew tsNew i (WatchUnsubscribe nodeID ch e) s =
     (Returned (WatchWorkReply e), set_hub (Unsubscribe nodeID ch (srv_hub s)) s)"
| "call_step asDur dNew tsNew i (Returned r) s = (Returned r, s)"

section \<open>The scheduler's goroutine\<close>

text \<open>
  \<open>SchedDispatch j ids rank rest cs\<close>: the locked sections \<open>cs\<close> of the current \<open>Dispatch\<close> are to come,
  then the nodes \<open>rest\<close>, the first of them with rank \<open>rank\<close>.
\<close>

datatype 'dur sched_pc =
    SchedWait
  | SchedPeek
  | SchedSelect Job
  | SchedReserve Job "string list"
  | SchedMark Job "string list"
  | SchedBackOut Job "string list"
  | SchedDispatch Job "string list" int "string list" "'dur hub_op list"
  | SchedFail Job "string list" go_error
  | SchedRelease Job "string list"
  | SchedStopped

definition set_comps :: "'dur Hub Scheduler \<Rightarrow> 'dur Server \<Rightarrow> 'dur Server" where
  "set_comps c s = s\<lparr>comps := c\<rparr>"

fun sched_step ::
  "(duration \<Rightarrow> 'dur) \<Rightarrow> wake \<Rightarrow> instant \<Rightarrow> 'dur sched_pc \<Rightarrow> 'dur Server \<Rightarrow> 'dur sched_pc \<times> 'dur Server" where
  "sched_step dNew w now SchedWait s =
     (case wake_up w (comps s) of
        Some c \<Rightarrow> (SchedPeek, set_comps c s)
      | None \<Rightarrow> (if w = WakeDone then SchedStopped else SchedWait, s))"
| "sched_step dNew w now SchedPeek s =
     (case PeekPendingJob (srv_jobs s) of None \<Rightarrow> (SchedWait, s) | Some j \<Rightarrow> (SchedSelect j, s))"
| "sched_step dNew w now (SchedSelect j) s =
     (case SelectGang (ListNodes (srv_registry s)) (Resources (job_Spec j)) of
        None \<Rightarrow> (SchedWait, s) | Some ids \<Rightarrow> (SchedReserve j ids, s))"
| "sched_step dNew w now (SchedReserve j ids) s =
     (case ReserveNodes (job_ID j) ids (CPUsPerNode (Resources (job_Spec j))) (srv_registry s) of
        (Some err, r) \<Rightarrow> (SchedWait, set_registry r s)
      | (None, r) \<Rightarrow> (SchedMark j ids, set_registry r s))"
| "sched_step dNew w now (SchedMark j ids) s =
     (case JM_MarkRunning now (job_ID j) ids (srv_jobs s) of
        (Some err, m) \<Rightarrow> (SchedBackOut j ids, set_jobs m s)
      | (None, m) \<Rightarrow> (SchedDispatch j ids 0 ids [], set_jobs m s))"
| "sched_step dNew w now (SchedBackOut j ids) s =
     (SchedWait, set_registry (ReleaseNodes ids (CPUsPerNode (Resources (job_Spec j))) (srv_registry s)) s)"
| "sched_step dNew w now (SchedDispatch j ids rank rest (c # cs)) s =
     (SchedDispatch j ids rank rest cs, set_hub (hub_apply c (srv_hub s)) s)"
| "sched_step dNew w now (SchedDispatch j ids rank [] []) s = (SchedPeek, s)"
| "sched_step dNew w now (SchedDispatch j ids rank (n # rest) []) s =
     (if n = [] then (SchedFail j ids (Errorf ''node id is empty''), s)
      else (SchedDispatch j ids (rank + 1) rest (dispatch_sections dNew n (assignment_for j rank (int (length ids)))), s))"
| "sched_step dNew w now (SchedFail j ids err) s =
     (SchedRelease j ids, set_jobs (snd (JM_MarkFailed now (job_ID j) 1 (error_text err) (srv_jobs s))) s)"
| "sched_step dNew w now (SchedRelease j ids) s =
     (SchedWait, set_registry (ReleaseNodes ids (CPUsPerNode (Resources (job_Spec j))) (srv_registry s)) s)"
| "sched_step dNew w now SchedStopped s = (SchedStopped, s)"

section \<open>The monitor's goroutine\<close>

text \<open>
  The job failure of the monitor is the \<open>Failer\<close> of \<open>src/internal/controller/hub.go\<close>: it fails the job and
  then notifies its nodes.  \<open>MonDead seen dead\<close> is the loop over the lost nodes that remain; the later places
  keep the lost node \<open>n\<close> of the current turn.
\<close>

datatype 'dur mon_pc =
    MonWait
  | MonTouch string
  | MonDrain
  | MonDrainTouch string
  | MonReap
  | MonDead "string fset" "Node list"
  | MonNotify Node "string list" int "'dur hub_op list" "string fset" "Node list"
  | MonRelease Node "string list" int "string fset" "Node list"
  | MonStopped

datatype mon_case = MonBeat | MonTick | MonDone

fun mon_step ::
  "mon_case \<Rightarrow> string list \<Rightarrow> instant \<Rightarrow> 'dur mon_pc \<Rightarrow> 'dur Server \<Rightarrow> 'dur mon_pc \<times> 'dur Server" where
  "mon_step c ks now MonWait s = (case c of
     MonBeat \<Rightarrow> (case heartbeats (srv_monitor s) of
        [] \<Rightarrow> (MonWait, s)
      | nodeID # rest \<Rightarrow> (MonTouch nodeID, s\<lparr>srv_monitor := (srv_monitor s)\<lparr>heartbeats := rest\<rparr>\<rparr>))
   | MonTick \<Rightarrow> (MonDrain, s)
   | MonDone \<Rightarrow> (MonStopped, s))"
| "mon_step c ks now (MonTouch nodeID) s = (MonWait, set_registry (snd (Touch now nodeID (srv_registry s))) s)"
| "mon_step c ks now MonDrain s = (case heartbeats (srv_monitor s) of
     [] \<Rightarrow> (MonReap, s)
   | nodeID # rest \<Rightarrow> (MonDrainTouch nodeID, s\<lparr>srv_monitor := (srv_monitor s)\<lparr>heartbeats := rest\<rparr>\<rparr>))"
| "mon_step c ks now (MonDrainTouch nodeID) s = (MonDrain, set_registry (snd (Touch now nodeID (srv_registry s))) s)"
| "mon_step c ks now MonReap s =
     (case ReapStale ks now (mon_timeout (srv_monitor s)) (srv_registry s) of
        (dead, r) \<Rightarrow> (MonDead {||} dead, set_registry r s))"
| "mon_step c ks now (MonDead seen []) s = (MonWait, s)"
| "mon_step c ks now (MonDead seen (n # dead)) s =
     (if CurrentJobID n = [] \<or> CurrentJobID n |\<in>| seen then (MonDead seen dead, s)
      else
        let seen = finsert (CurrentJobID n) seen
        in (case FailRunningJob now (CurrentJobID n) (''node '' @ node_ID n @ '' lost'') (srv_jobs s) of
              (Some (ids, cpus), m) \<Rightarrow>
                (MonNotify n ids cpus (notify_sections ids (CurrentJobID n)) seen dead, set_jobs m s)
            | (None, m) \<Rightarrow> (MonRelease n [node_ID n] (AllocatedCPUs n) seen dead, set_jobs m s)))"
| "mon_step c ks now (MonNotify n ids cpus [] seen dead) s = (MonRelease n ids cpus seen dead, s)"
| "mon_step c ks now (MonNotify n ids cpus (op # ops) seen dead) s =
     (MonNotify n ids cpus ops seen dead, set_hub (hub_apply op (srv_hub s)) s)"
| "mon_step c ks now (MonRelease n ids cpus seen dead) s =
     (MonDead seen dead, set_registry (ReleaseNodes ids cpus (srv_registry s)) s)"
| "mon_step c ks now MonStopped s = (MonStopped, s)"

section \<open>The controller\<close>

record ('dur, 'ts) World =
  server :: "'dur Server"
  sched_at :: "'dur sched_pc"
  mon_at :: "'dur mon_pc"
  calls :: "(nat, ('dur, 'ts) pc) fmap"

datatype 'dur event =
    Arrive nat "'dur request"
  | CallStep nat input
  | SchedStep wake instant
  | MonStep mon_case "string list" instant

text \<open>
  A request arrives as a new thread (a number that is in use is not taken again); a handler, the
  scheduler or the monitor makes a step.
\<close>

fun world_step ::
  "('dur \<Rightarrow> duration) \<Rightarrow> (duration \<Rightarrow> 'dur) \<Rightarrow> (instant \<Rightarrow> 'ts) \<Rightarrow> 'dur event \<Rightarrow> ('dur, 'ts) World \<Rightarrow> ('dur, 'ts) World" where
  "world_step asDur dNew tsNew (Arrive k req) w =
     (if fmlookup (calls w) k = None then w\<lparr>calls := fmupd k (Entered req) (calls w)\<rparr> else w)"
| "world_step asDur dNew tsNew (CallStep k i) w = (case fmlookup (calls w) k of
     None \<Rightarrow> w
   | Some p \<Rightarrow> (case call_step asDur dNew tsNew i p (server w) of
       (p', s) \<Rightarrow> w\<lparr>server := s, calls := fmupd k p' (calls w)\<rparr>))"
| "world_step asDur dNew tsNew (SchedStep wk now) w = (case sched_step dNew wk now (sched_at w) (server w) of
     (p, s) \<Rightarrow> w\<lparr>server := s, sched_at := p\<rparr>)"
| "world_step asDur dNew tsNew (MonStep c ks now) w = (case mon_step c ks now (mon_at w) (server w) of
     (p, s) \<Rightarrow> w\<lparr>server := s, mon_at := p\<rparr>)"

text \<open>The controller as \<open>cmd/controller/main.go\<close> starts it.\<close>

definition world_main :: "duration \<Rightarrow> ('dur, 'ts) World" where
  "world_main timeout = \<lparr>server = controller_main timeout, sched_at = SchedPeek, mon_at = MonWait, calls = fmempty\<rparr>"

abbreviation world_run ::
  "('dur \<Rightarrow> duration) \<Rightarrow> (duration \<Rightarrow> 'dur) \<Rightarrow> (instant \<Rightarrow> 'ts) \<Rightarrow> 'dur event list \<Rightarrow> ('dur, 'ts) World \<Rightarrow> ('dur, 'ts) World" where
  "world_run asDur dNew tsNew es w \<equiv> fold (world_step asDur dNew tsNew) es w"

end
