(* ===== verification/Interleaving.thy ===== *)
theory Interleaving
  imports Threads
begin

text \<open>
  What survives when the threads of \<open>Threads\<close> run in any order.  First the components on their own: each
  step of a thread is an operation of one component, so what the components promise holds under every
  interleaving.  Then the relation between them: who is responsible for the nodes of a gang while no
  running job is, and why the gangs stay whole as long as no job changes under a handler that has
  already read it and no lost node carries a job that is not running.
\<close>

section \<open>Who answers for the nodes\<close>

text \<open>
  \<open>rg\<close> gives the gangs of the running jobs and \<open>cl\<close> what the threads have in hand: a gang that was
  reserved for a job that does not run yet, or that is to be released because its job has ended.
  \<open>owned\<close> says that every job's nodes are in one of these places, in one only, and that together they are
  what the registry shows.
\<close>

type_synonym gang = "string list \<times> int"

definition claims :: "(string \<Rightarrow> 'g option) \<Rightarrow> ('a \<Rightarrow> (string \<times> 'g) option) \<Rightarrow> string \<Rightarrow> 'g \<Rightarrow> bool" where
  "claims rg cl jid x \<longleftrightarrow> rg jid = Some x \<or> (\<exists>a. cl a = Some (jid, x))"

definition exclusive :: "(string \<Rightarrow> 'g option) \<Rightarrow> ('a \<Rightarrow> (string \<times> 'g) option) \<Rightarrow> bool" where
  "exclusive rg cl \<longleftrightarrow>
     (\<forall>a jid x. cl a = Some (jid, x) \<longrightarrow> rg jid = None) \<and>
     (\<forall>a b jid x y. cl a = Some (jid, x) \<longrightarrow> cl b = Some (jid, y) \<longrightarrow> a = b)"

definition owned :: "(string \<Rightarrow> gang option) \<Rightarrow> ('a \<Rightarrow> (string \<times> gang) option) \<Rightarrow> Registry \<Rightarrow> bool" where
  "owned rg cl r \<longleftrightarrow> exclusive rg cl \<and> (\<exists>g. placed g r \<and> (\<forall>jid x. g jid = Some x \<longleftrightarrow> claims rg cl jid x))"

lemma exclusive_not_running: "exclusive rg cl \<Longrightarrow> cl a = Some (jid, x) \<Longrightarrow> rg jid = None"
  unfolding exclusive_def by blast

lemma exclusive_once: "exclusive rg cl \<Longrightarrow> cl a = Some (jid, x) \<Longrightarrow> cl b = Some (jid, y) \<Longrightarrow> a = b"
  unfolding exclusive_def by blast

lemma has_given:
  assumes "cl a = None"
  shows "(\<exists>b. (cl(a := Some (jid, x))) b = Some (j, y)) \<longleftrightarrow> (j = jid \<and> y = x) \<or> (\<exists>b. cl b = Some (j, y))"
proof
  assume "\<exists>b. (cl(a := Some (jid, x))) b = Some (j, y)"
  then obtain b where b: "(cl(a := Some (jid, x))) b = Some (j, y)" ..
  then show "(j = jid \<and> y = x) \<or> (\<exists>b. cl b = Some (j, y))" by (cases "b = a") auto
next
  assume "(j = jid \<and> y = x) \<or> (\<exists>b. cl b = Some (j, y))"
  then show "\<exists>b. (cl(a := Some (jid, x))) b = Some (j, y)"
  proof
    assume "\<exists>b. cl b = Some (j, y)"
    then obtain b where b: "cl b = Some (j, y)" ..
    with assms have "b \<noteq> a" by auto
    with b show ?thesis by (intro exI [of _ b]) simp
  qed (intro exI [of _ a], simp)
qed

lemma has_dropped:
  assumes "cl a = Some (jid, x)" "\<And>b y. cl b = Some (jid, y) \<Longrightarrow> b = a"
  shows "(\<exists>b. (cl(a := None)) b = Some (j, y)) \<longleftrightarrow> j \<noteq> jid \<and> (\<exists>b. cl b = Some (j, y))"
proof
  assume "\<exists>b. (cl(a := None)) b = Some (j, y)"
  then obtain b where b: "(cl(a := None)) b = Some (j, y)" ..
  then have "b \<noteq> a" "cl b = Some (j, y)" by (auto split: if_splits)
  with assms(2) show "j \<noteq> jid \<and> (\<exists>b. cl b = Some (j, y))" by blast
next
  assume "j \<noteq> jid \<and> (\<exists>b. cl b = Some (j, y))"
  then obtain b where b: "j \<noteq> jid" "cl b = Some (j, y)" by blast
  with assms(1) have "b \<noteq> a" by auto
  with b show "\<exists>b. (cl(a := None)) b = Some (j, y)" by (intro exI [of _ b]) simp
qed

text \<open>A job stops running and its gang passes to a thread; a thread lets go of a gang, takes one for a job
  that has none, or starts the job it has a gang for.\<close>

lemma exclusive_take:
  assumes "exclusive rg cl" "rg jid = Some x" "cl a = None"
  shows "exclusive (rg(jid := None)) (cl(a := Some (jid, x)))"
    "claims (rg(jid := None)) (cl(a := Some (jid, x))) j y \<longleftrightarrow> claims rg cl j y"
proof -
  have no: "cl b \<noteq> Some (jid, y)" for b y using exclusive_not_running [OF assms(1)] assms(2) by force
  show "exclusive (rg(jid := None)) (cl(a := Some (jid, x)))"
    using assms(1) no unfolding exclusive_def by (auto split: if_splits)
  show "claims (rg(jid := None)) (cl(a := Some (jid, x))) j y \<longleftrightarrow> claims rg cl j y"
    unfolding claims_def has_given [where cl = cl and a = a, OF assms(3)] using assms(2) no by auto
qed

lemma exclusive_drop:
  assumes "exclusive rg cl" "cl a = Some (jid, x)"
  shows "exclusive rg (cl(a := None))" "claims rg (cl(a := None)) j y \<longleftrightarrow> j \<noteq> jid \<and> claims rg cl j y"
proof -
  have only: "cl b = Some (jid, y) \<Longrightarrow> b = a" for b y using exclusive_once [OF assms(1) _ assms(2)] .
  have left: "(\<exists>b. (cl(a := None)) b = Some (j, y)) \<longleftrightarrow> j \<noteq> jid \<and> (\<exists>b. cl b = Some (j, y))"
    using assms(2) only by (rule has_dropped)
  show "exclusive rg (cl(a := None))" using assms(1) unfolding exclusive_def by (auto split: if_splits)
  show "claims rg (cl(a := None)) j y \<longleftrightarrow> j \<noteq> jid \<and> claims rg cl j y"
    using exclusive_not_running [OF assms] left by (auto simp: claims_def simp del: fun_upd_apply)
qed

lemma exclusive_give:
  assumes "exclusive rg cl" "rg jid = None" "\<And>b y. cl b \<noteq> Some (jid, y)" "cl a = None"
  shows "exclusive rg (cl(a := Some (jid, x)))"
    "claims rg (cl(a := Some (jid, x))) j y \<longleftrightarrow> (if j = jid then y = x else claims rg cl j y)"
proof -
  show "exclusive rg (cl(a := Some (jid, x)))"
    using assms(1-3) unfolding exclusive_def by (auto split: if_splits)
  show "claims rg (cl(a := Some (jid, x))) j y \<longleftrightarrow> (if j = jid then y = x else claims rg cl j y)"
    unfolding claims_def has_given [where cl = cl and a = a, OF assms(4)] using assms(2,3) by auto
qed

lemma exclusive_start:
  assumes "exclusive rg cl" "cl a = Some (jid, x)"
  shows "exclusive (rg(jid := Some x)) (cl(a := None))"
    "claims (rg(jid := Some x)) (cl(a := None)) j y \<longleftrightarrow> claims rg cl j y"
proof -
  have only: "cl b = Some (jid, y) \<Longrightarrow> b = a" for b y using exclusive_once [OF assms(1) _ assms(2)] .
  have none: "rg jid = None" using exclusive_not_running [OF assms] .
  have left: "(\<exists>b. (cl(a := None)) b = Some (j, y)) \<longleftrightarrow> j \<noteq> jid \<and> (\<exists>b. cl b = Some (j, y))"
    using assms(2) only by (rule has_dropped)
  show "exclusive (rg(jid := Some x)) (cl(a := None))"
    using assms(1) only unfolding exclusive_def by (auto split: if_splits)
  show "claims (rg(jid := Some x)) (cl(a := None)) j y \<longleftrightarrow> claims rg cl j y"
  proof (cases "j = jid")
    case True
    have "(\<exists>b. cl b = Some (jid, y)) \<longleftrightarrow> y = x" using only assms(2) by (metis option.inject prod.inject)
    with True none show ?thesis unfolding claims_def left by auto
  next
    case False
    then show ?thesis unfolding claims_def left by simp
  qed
qed

text \<open>The same moves with the registry.\<close>

lemma ownedI:
  assumes "exclusive rg cl" "placed g r" "\<And>jid x. g jid = Some x \<longleftrightarrow> claims rg cl jid x"
  shows "owned rg cl r"
  unfolding owned_def using assms by blast

lemma ownedE:
  assumes "owned rg cl r"
  obtains g where "exclusive rg cl" "placed g r" "\<And>jid x. g jid = Some x \<longleftrightarrow> claims rg cl jid x"
  using assms unfolding owned_def by blast

lemma owned_exclusive: "owned rg cl r \<Longrightarrow> exclusive rg cl"
  by (simp add: owned_def)

lemma owned_same_load: "(\<And>k. load r' k = load r k) \<Longrightarrow> owned rg cl r' = owned rg cl r"
  unfolding owned_def using placed_same_load [of r' r] by simp

lemma owned_take:
  assumes "owned rg cl r" "rg jid = Some x" "cl a = None"
  shows "owned (rg(jid := None)) (cl(a := Some (jid, x))) r"
  using assms(1) by (rule ownedE) (rule ownedI, simp_all add: exclusive_take [where rg = rg and cl = cl and a = a] assms(2,3))

lemma owned_release:
  assumes "owned rg cl r" "cl a = Some (jid, ids, cpus)"
  shows "owned rg (cl(a := None)) (ReleaseNodes ids cpus r)"
proof -
  from assms(1) obtain g where g: "exclusive rg cl" "placed g r" "\<And>j y. g j = Some y \<longleftrightarrow> claims rg cl j y"
    by (rule ownedE) blast
  have "g jid = Some (ids, cpus)" unfolding g(3) claims_def using assms(2) by blast
  from placed_release [OF g(2) this] show ?thesis
    by (rule ownedI [rotated]) (simp_all add: exclusive_drop [where cl = cl and a = a, OF g(1) assms(2)] g(3))
qed

lemma owned_reserve:
  assumes "owned rg cl r" "rg jid = None" "\<And>b y. cl b \<noteq> Some (jid, y)" "cl a = None"
    and "reg_cpus r" "distinct ids" "ReserveNodes jid ids cpus r = (None, r')"
  shows "owned rg (cl(a := Some (jid, ids, cpus))) r'"
proof -
  from assms(1) obtain g where g: "exclusive rg cl" "placed g r" "\<And>j y. g j = Some y \<longleftrightarrow> claims rg cl j y"
    by (rule ownedE) blast
  have "g jid = None" using g(3) [of jid] assms(2,3) by (cases "g jid") (auto simp: claims_def)
  from placed_reserve [OF g(2) this assms(5-7)] show ?thesis
    by (rule ownedI [rotated]) (auto simp: exclusive_give [where rg = rg and cl = cl and a = a, OF g(1) assms(2,3,4)] g(3))
qed

lemma owned_start:
  assumes "owned rg cl r" "cl a = Some (jid, x)"
  shows "owned (rg(jid := Some x)) (cl(a := None)) r"
proof -
  from assms(1) obtain g where g: "exclusive rg cl" "placed g r" "\<And>j y. g j = Some y \<longleftrightarrow> claims rg cl j y"
    by (rule ownedE) blast
  note start = exclusive_start [where rg = rg and cl = cl and a = a and jid = jid and x = x, OF g(1) assms(2)]
  show ?thesis by (rule ownedI [OF start(1) g(2)]) (simp add: g(3) start(2))
qed

text \<open>What it means for a running job, and for a node.\<close>

lemma owned_running:
  assumes "owned rg cl r" "rg jid = Some (ids, cpus)"
  shows "jid \<noteq> [] \<and> distinct ids \<and> (\<forall>k \<in> set ids. load r k = Some (jid, cpus))"
proof -
  from assms(1) obtain g where g: "placed g r" "\<And>j y. g j = Some y \<longleftrightarrow> claims rg cl j y" by (rule ownedE) blast
  have "g jid = Some (ids, cpus)" unfolding g(2) claims_def using assms(2) by blast
  from placed_gang [OF g(1) this] show ?thesis .
qed

lemma owned_node:
  assumes "owned rg cl r" "load r k = Some (jid, a)"
  shows "if jid = [] then a = 0 else \<exists>ids. k \<in> set ids \<and> claims rg cl jid (ids, a)"
proof -
  from assms(1) obtain g where g: "placed g r" "\<And>j y. g j = Some y \<longleftrightarrow> claims rg cl j y" by (rule ownedE) blast
  show ?thesis
  proof (cases "jid = []")
    case True
    with placed_idle [OF g(1)] assms(2) show ?thesis by simp
  next
    case False
    from placed_node [OF g(1) assms(2) False] g(2) False show ?thesis by auto
  qed
qed

section \<open>Every step is one locked section\<close>

text \<open>What one step may do to the controller: at most one operation of one of its components.\<close>

inductive one_section :: "'dur Server \<Rightarrow> 'dur Server \<Rightarrow> bool" where
  idle_step: "one_section s s"
| on_jobs: "one_section s (set_jobs (jm_apply c (srv_jobs s)) s)"
| on_registry: "one_section s (set_registry (reg_apply c (srv_registry s)) s)"
| on_hub: "one_section s (set_hub (hub_apply c (srv_hub s)) s)"
| on_kick: "one_section s (srv_kick s)"
| on_wake: "wake_up w (comps s) = Some c \<Longrightarrow> one_section s (set_comps c s)"
| on_record: "one_section s (s\<lparr>srv_monitor := Record n (srv_monitor s)\<rparr>)"
| on_take: "heartbeats (srv_monitor s) = n # rest \<Longrightarrow> one_section s (s\<lparr>srv_monitor := (srv_monitor s)\<lparr>heartbeats := rest\<rparr>\<rparr>)"
| on_counter: "one_section s (s\<lparr>idSeq := idSeq s + 1\<rparr>)"

lemma set_same [simp]: "set_jobs (srv_jobs s) s = s" "set_registry (srv_registry s) s = s" "set_hub (srv_hub s) s = s"
  by (simp_all add: set_jobs_def set_registry_def set_hub_def)

lemmas jobs_section = on_jobs [where c = "OpSubmit j" for j, simplified] on_jobs [where c = "OpMarkRunning now jid ids" for now jid ids, simplified]
  on_jobs [where c = "OpMarkFailed now jid c msg" for now jid c msg, simplified] on_jobs [where c = "OpFailRunning now jid reason" for now jid reason, simplified]
  on_jobs [where c = "OpCancel now jid" for now jid, simplified] on_jobs [where c = "OpReport now jid n failed c msg" for now jid n failed c msg, simplified]

lemmas registry_section = on_registry [where c = "OpRegister now node" for now node, simplified] on_registry [where c = "OpTouch now k" for now k, simplified]
  on_registry [where c = "OpReap ks now t" for ks now t, simplified] on_registry [where c = "OpReserve jid ids c" for jid ids c, simplified]
  on_registry [where c = "OpRelease ids c" for ids c, simplified]

lemmas hub_section = on_hub [where c = "SubscribeOp n" for n, simplified] on_hub [where c = "UnsubscribeOp n ch" for n ch, simplified]
  on_hub [where c = "ClearCancelOp n j" for n j, simplified] on_hub [where c = "ReceiveOp ch" for ch, simplified] on_hub

lemmas sections = jobs_section registry_section hub_section idle_step on_kick on_wake on_record on_take on_counter

lemma pair_sections:
  "Submit j (srv_jobs s) = (e1, m) \<Longrightarrow> one_section s (set_jobs m s)"
  "JM_MarkRunning now jid ids (srv_jobs s) = (e1, m) \<Longrightarrow> one_section s (set_jobs m s)"
  "FailRunningJob now jid reason (srv_jobs s) = (e3, m) \<Longrightarrow> one_section s (set_jobs m s)"
  "JM_Cancel now jid (srv_jobs s) = (e4, m) \<Longrightarrow> one_section s (set_jobs m s)"
  "ReportNodeEvent now jid n failed c msg (srv_jobs s) = (e1, m) \<Longrightarrow> one_section s (set_jobs m s)"
  "ReapStale ks now t (srv_registry s) = (e7, r) \<Longrightarrow> one_section s (set_registry r s)"
  "ReserveNodes jid ids cpus (srv_registry s) = (e1, r) \<Longrightarrow> one_section s (set_registry r s)"
  "Subscribe n (srv_hub s) = (e9, h) \<Longrightarrow> one_section s (set_hub h s)"
  "receive ch (srv_hub s) = (e10, h) \<Longrightarrow> one_section s (set_hub h s)"
  using jobs_section [of s] registry_section [of s] hub_section [of s] by (metis snd_conv)+

lemma enter_section: "one_section s (snd (enter asDur dNew tsNew i req s))"
  by (cases req) (auto simp: Let_def sections split: sum.split)

lemma call_section: "one_section s (snd (call_step asDur dNew tsNew i p s))"
proof (cases p)
  case (WatchLoop n ch sent)
  then show ?thesis
    by (auto simp: sections intro: pair_sections split: watch_case.split recv.split option.split prod.split)
qed (auto simp: Let_def sections enter_section intro: pair_sections split: sum.split option.split prod.split list.split)

lemma sched_section: "one_section s (snd (sched_step dNew w now p s))"
proof (induction dNew w now p s rule: sched_step.induct)
qed (auto simp: sections intro: pair_sections split: option.split prod.split)

lemma mon_section: "one_section s (snd (mon_step c ks now p s))"
proof (induction c ks now p s rule: mon_step.induct)
qed (auto simp: sections Let_def intro: pair_sections split: option.split prod.split list.split mon_case.split)

lemma world_section: "one_section (server w) (server (world_step asDur dNew tsNew e w))"
proof (cases e)
  case (CallStep k i)
  then show ?thesis
    using call_section [of "server w" asDur dNew tsNew i] by (simp add: idle_step split_beta split: option.split)
next
  case (SchedStep wk now)
  then show ?thesis using sched_section [of "server w" dNew wk now "sched_at w"] by (simp add: split_beta)
next
  case (MonStep c ks now)
  then show ?thesis using mon_section [of "server w" c ks now "mon_at w"] by (simp add: split_beta)
qed (simp add: idle_step)

lemma section_jobs: "one_section s s' \<Longrightarrow> srv_jobs s' = srv_jobs s \<or> (\<exists>c. srv_jobs s' = jm_apply c (srv_jobs s))"
  by (erule one_section.cases) (auto simp: set_comps_def wake_up_def split: wake.splits if_splits)

lemma section_registry:
  "one_section s s' \<Longrightarrow> srv_registry s' = srv_registry s \<or> (\<exists>c. srv_registry s' = reg_apply c (srv_registry s))"
  by (erule one_section.cases) (auto simp: set_comps_def wake_up_def split: wake.splits if_splits)

lemma section_hub: "one_section s s' \<Longrightarrow> srv_hub s' = srv_hub s \<or> (\<exists>c. srv_hub s' = hub_apply c (srv_hub s))"
  by (erule one_section.cases) (auto simp: set_comps_def wake_up_def split: wake.splits if_splits)

lemma section_monitor: "one_section s s' \<Longrightarrow> mon_inv (srv_monitor s) \<Longrightarrow> mon_inv (srv_monitor s')"
  by (erule one_section.cases) (auto simp: set_comps_def Record_def mon_inv_def)

lemma section_later: "one_section s s' \<Longrightarrow> jm_inv (srv_jobs s) \<Longrightarrow> jm_later (srv_jobs s) (srv_jobs s')"
  using section_jobs jm_later_refl jm.later_op by metis

section \<open>What the components keep under every interleaving\<close>

text \<open>
  \<open>comps_ok\<close> is the invariant of \<open>System\<close> without the placement; \<open>sched_ok\<close> is what the scheduler may rely
  on in the middle of an attempt: the job it read is still stored with the same specification, the
  gang it chose has the right size, and dispatching cannot fail.
\<close>

definition comps_ok :: "'dur Server \<Rightarrow> bool" where
  "comps_ok s \<longleftrightarrow> jm_inv (srv_jobs s) \<and> fmlookup (jobs (srv_jobs s)) [] = None \<and> sized (srv_jobs s) \<and>
     reg_inv (srv_registry s) \<and> reg_cpus (srv_registry s) \<and> hub_inv (srv_hub s) \<and> mon_inv (srv_monitor s)"

definition known :: "JobManager \<Rightarrow> Job \<Rightarrow> bool" where
  "known m j \<longleftrightarrow> (\<exists>j'. fmlookup (jobs m) (job_ID j) = Some j' \<and> job_Spec j' = job_Spec j)"

definition gang_for :: "Job \<Rightarrow> string list \<Rightarrow> bool" where
  "gang_for j ids \<longleftrightarrow> distinct ids \<and> [] \<notin> set ids \<and> int (length ids) = NodesRequired (Resources (job_Spec j))"

fun sched_ok :: "JobManager \<Rightarrow> 'dur sched_pc \<Rightarrow> bool" where
  "sched_ok m (SchedSelect j) = known m j"
| "sched_ok m (SchedReserve j ids) = (known m j \<and> gang_for j ids)"
| "sched_ok m (SchedMark j ids) = (known m j \<and> gang_for j ids)"
| "sched_ok m (SchedBackOut j ids) = (known m j \<and> gang_for j ids)"
| "sched_ok m (SchedDispatch j ids rank rest cs) = ([] \<notin> set rest)"
| "sched_ok m (SchedFail j ids err) = False"
| "sched_ok m (SchedRelease j ids) = False"
| "sched_ok m SchedWait = True"
| "sched_ok m SchedPeek = True"
| "sched_ok m SchedStopped = True"

lemma job_steps_frame: "job_step\<^sup>*\<^sup>* j j' \<Longrightarrow> job_ID j' = job_ID j \<and> job_Spec j' = job_Spec j"
  by (induction rule: rtranclp_induct) (auto dest: job_step_frame)

lemma known_later: "known m j \<Longrightarrow> jm_later m m' \<Longrightarrow> known m' j"
  unfolding known_def jm_later_def jobs_later_def using job_steps_frame by metis

lemma sched_ok_later: "sched_ok m p \<Longrightarrow> jm_later m m' \<Longrightarrow> sched_ok m' p"
  by (cases p) (auto intro: known_later)

lemma comps_ok_set:
  "comps_ok s \<Longrightarrow> jm_inv m \<Longrightarrow> fmlookup (jobs m) [] = None \<Longrightarrow> sized m \<Longrightarrow> comps_ok (set_jobs m s)"
  "comps_ok s \<Longrightarrow> reg_inv r \<Longrightarrow> reg_cpus r \<Longrightarrow> comps_ok (set_registry r s)"
  "comps_ok s \<Longrightarrow> hub_inv h \<Longrightarrow> comps_ok (set_hub h s)"
  "comps_ok (srv_kick s) = comps_ok s"
  by (simp_all add: comps_ok_def)

lemma comps_okD:
  "comps_ok s \<Longrightarrow> jm_inv (srv_jobs s)" "comps_ok s \<Longrightarrow> fmlookup (jobs (srv_jobs s)) [] = None"
  "comps_ok s \<Longrightarrow> sized (srv_jobs s)" "comps_ok s \<Longrightarrow> reg_inv (srv_registry s)"
  "comps_ok s \<Longrightarrow> reg_cpus (srv_registry s)" "comps_ok s \<Longrightarrow> hub_inv (srv_hub s)" "comps_ok s \<Longrightarrow> mon_inv (srv_monitor s)"
  by (simp_all add: comps_ok_def)

text \<open>The calls of the handlers, the monitor and the scheduler that keep it.\<close>

lemma comps_ok_Submit:
  assumes "comps_ok s" "New_Job now jid spec = Inr j" "Submit (Some j) (srv_jobs s) = (e, m)"
  shows "comps_ok (set_jobs m s)"
proof -
  have m: "m = snd (Submit (Some j) (srv_jobs s))" using assms(3) by simp
  note new = New_Job_Inr [OF assms(2)]
  then have "job_ID j \<noteq> []" using not_blank_nonempty by blast
  then have "fmlookup (jobs m) [] = None" "sized m"
    using new comps_okD(2,3) [OF assms(1)] unfolding m by (auto simp: Submit_def sized_def split: option.split)
  then show ?thesis using assms(1) jm_inv_Submit [OF comps_okD(1) [OF assms(1)], of "Some j"] by (intro comps_ok_set) (simp_all add: m)
qed

lemma comps_ok_jobs:
  "comps_ok s \<Longrightarrow> JM_Cancel now jid (srv_jobs s) = (e1, m) \<Longrightarrow> comps_ok (set_jobs m s)"
  "comps_ok s \<Longrightarrow> ReportNodeEvent now jid n failed c msg (srv_jobs s) = (e2, m) \<Longrightarrow> comps_ok (set_jobs m s)"
  "comps_ok s \<Longrightarrow> FailRunningJob now jid reason (srv_jobs s) = (e3, m) \<Longrightarrow> comps_ok (set_jobs m s)"
  by (intro comps_ok_set; use comps_okD [of s] in
      \<open>metis jm_inv_Cancel nokey_Cancel sized_Cancel jm_inv_ReportNodeEvent nokey_Report sized_Report
        jm_inv_FailRunningJob nokey_FailRunningJob sized_FailRunningJob snd_conv\<close>)+

lemma comps_ok_registry:
  "comps_ok s \<Longrightarrow> comps_ok (set_registry (ReleaseNodes ids cpus (srv_registry s)) s)"
  "comps_ok s \<Longrightarrow> comps_ok (set_registry (snd (Touch now k (srv_registry s))) s)"
  "comps_ok s \<Longrightarrow> comps_ok (set_registry (snd (ReapStale ks now t (srv_registry s))) s)"
  "comps_ok s \<Longrightarrow> distinct ids \<Longrightarrow> comps_ok (set_registry (snd (ReserveNodes jid ids cpus (srv_registry s))) s)"
  "comps_ok s \<Longrightarrow> cpus_ok node \<Longrightarrow> comps_ok (set_registry (RegisterNode now node (srv_registry s)) s)"
  by (intro comps_ok_set; simp add: comps_okD inv_intros reg_cpus_ReleaseNodes reg_cpus_Touch reg_cpus_ReserveNodes
      reg_cpus_RegisterNode ReapStale_def reg_cpus_reap reg_inv_reap_loop)+

lemma comps_ok_hub:
  "comps_ok s \<Longrightarrow> comps_ok (set_hub (hub_apply c (srv_hub s)) s)"
  "comps_ok s \<Longrightarrow> comps_ok (set_hub (ClearCancel n j (srv_hub s)) s)"
  "comps_ok s \<Longrightarrow> comps_ok (set_hub (Unsubscribe n ch (srv_hub s)) s)"
  "comps_ok s \<Longrightarrow> comps_ok (set_hub (snd (Subscribe n (srv_hub s))) s)"
  "comps_ok s \<Longrightarrow> comps_ok (set_hub (snd (receive ch (srv_hub s))) s)"
  by (intro comps_ok_set; simp add: comps_okD inv_intros)+

text \<open>The same, for the results of the calls that also answer something.\<close>

lemma comps_ok_pairs:
  "comps_ok s \<Longrightarrow> ReapStale ks now t (srv_registry s) = (dead, r) \<Longrightarrow> comps_ok (set_registry r s)"
  "comps_ok s \<Longrightarrow> Subscribe n (srv_hub s) = (ch, h) \<Longrightarrow> comps_ok (set_hub h s)"
  "comps_ok s \<Longrightarrow> receive ch (srv_hub s) = (res, h) \<Longrightarrow> comps_ok (set_hub h s)"
  using comps_ok_registry(3) [of s] comps_ok_hub(4,5) [of s] by (metis snd_conv)+

lemma registered_cpus_ok:
  "cpus_ok (zero_Node\<lparr>node_ID := a, Hostname := b, Address := c,
      TotalCPUs := if sint (w :: int32) < 1 then 1 else sint w, node_Status := st\<rparr>)"
  using in_int32_in_int64 [of "sint w"] by (simp add: cpus_ok_def zero_Node_def in_int64_def)

lemma comps_ok_enter: "comps_ok s \<Longrightarrow> comps_ok (snd (enter asDur dNew tsNew i req s))"
proof (cases req)
  case (RegisterNodeReq r)
  assume "comps_ok s"
  from comps_ok_registry(5) [OF this registered_cpus_ok] \<open>comps_ok s\<close> RegisterNodeReq show ?thesis
    by (simp add: Let_def)
qed (auto simp: Let_def comps_ok_def split: sum.split)

lemmas comps_ok_calls = comps_ok_Submit comps_ok_jobs comps_ok_registry(1-3) comps_ok_hub comps_ok_pairs

lemma comps_ok_call:
  assumes "comps_ok s"
  shows "comps_ok (snd (call_step asDur dNew tsNew i p s))"
proof (cases p)
  case (WatchLoop n ch sent)
  with assms show ?thesis by (auto intro: comps_ok_pairs split: watch_case.split recv.split option.split prod.split)
next
  case (HeartbeatRecord n)
  with assms show ?thesis by (simp add: comps_ok_def mon_inv_Record)
qed (use assms in \<open>auto simp: Let_def comps_ok_enter comps_ok_hub comps_ok_registry comps_ok_set(4)
    intro: comps_ok_calls split: sum.split option.split prod.split list.split\<close>)

lemma comps_ok_mon:
  assumes "comps_ok s"
  shows "comps_ok (snd (mon_step c ks now p s))"
  using assms
proof (induction c ks now p s rule: mon_step.induct)
  case (1 c ks now s)
  then show ?case by (auto simp: comps_ok_def mon_inv_def split: mon_case.split list.split)
next
  case (3 c ks now s)
  then show ?case by (auto simp: comps_ok_def mon_inv_def split: list.split)
qed (auto simp: Let_def comps_ok_hub comps_ok_registry intro: comps_ok_calls split: option.split prod.split)

lemma selected_gang_for:
  assumes "comps_ok s" "SelectGang (ListNodes (srv_registry s)) (Resources (job_Spec j)) = Some ids"
  shows "gang_for j ids"
proof -
  have use: "reg_usable (srv_registry s)" using assms(1) by (simp add: comps_ok_def reg_usable_def)
  have "sched_inv (comps s)" using assms(1) by (simp add: comps_ok_def sched_inv_def reg_usable_def)
  from sched_selected_nonempty [OF this assms(2)] pool.selected_distinct [OF use assms(2)] SelectGang_Some(1) [OF assms(2)]
  show ?thesis by (simp add: gang_for_def)
qed

lemma comps_ok_MarkRunning:
  assumes "comps_ok s" "known (srv_jobs s) j" "gang_for j ids" "JM_MarkRunning now (job_ID j) ids (srv_jobs s) = (e, m)"
  shows "comps_ok (set_jobs m s)"
proof -
  have m: "m = snd (JM_MarkRunning now (job_ID j) ids (srv_jobs s))" using assms(4) by simp
  from assms(2) obtain j' where j': "fmlookup (jobs (srv_jobs s)) (job_ID j) = Some j'" "job_Spec j' = job_Spec j"
    by (auto simp: known_def)
  have "sized m"
  proof (cases "job_Status j' = StatusPending")
    case True
    with sized_MarkRunning [OF comps_okD(3) [OF assms(1)] j'(1) True, of ids now] assms(3) j'(2) show ?thesis
      by (simp add: m gang_for_def)
  next
    case False
    then have "m = srv_jobs s"
      using j'(1) by (auto simp: m JM_MarkRunning_def dest!: Job_MarkRunning_InrD split: sum.split)
    then show ?thesis using comps_okD(3) [OF assms(1)] by simp
  qed
  then show ?thesis
    using comps_okD [OF assms(1)] jm_inv_MarkRunning [OF comps_okD(1) [OF assms(1)], of now "job_ID j" ids]
      MarkRunning_None_key [OF comps_okD(2) [OF assms(1)], of now "job_ID j" ids]
    by (intro comps_ok_set assms(1)) (simp_all add: m)
qed

lemma comps_ok_sched:
  assumes "comps_ok s" "sched_ok (srv_jobs s) p" "sched_step dNew w now p s = (p', s')"
  shows "comps_ok s' \<and> sched_ok (srv_jobs s') p'"
proof (cases p)
  case SchedWait
  with assms show ?thesis
    by (auto simp: wake_up_def set_comps_def comps_ok_def split: wake.splits if_splits option.splits)
next
  case SchedPeek
  have "known (srv_jobs s) j" if "PeekPendingJob (srv_jobs s) = Some j" for j
    using peek_head [OF comps_okD(1) [OF assms(1)] that] by (auto simp: known_def)
  with assms SchedPeek show ?thesis by (auto split: option.splits)
next
  case (SchedSelect j)
  with assms selected_gang_for [OF assms(1)] show ?thesis by (auto split: option.splits)
next
  case (SchedReserve j ids)
  with assms(2) have "distinct ids" by (simp add: gang_for_def)
  from comps_ok_registry(4) [OF assms(1) this] SchedReserve assms show ?thesis
    by (auto split: option.splits prod.splits) (metis snd_conv)+
next
  case (SchedMark j ids)
  with assms comps_ok_MarkRunning [OF assms(1), of j ids now] known_later [of "srv_jobs s" j]
    jm_later_MarkRunning [OF comps_okD(1) [OF assms(1)], of now "job_ID j" ids]
  show ?thesis by (auto simp: gang_for_def split: option.splits prod.splits)
next
  case (SchedDispatch j ids rank rest cs)
  with assms show ?thesis by (cases cs; cases rest) (auto simp: comps_ok_hub split: if_splits)
qed (use assms in \<open>auto simp: comps_ok_registry\<close>)

definition world_ok :: "('dur, 'ts) World \<Rightarrow> bool" where
  "world_ok w \<longleftrightarrow> comps_ok (server w) \<and> sched_ok (srv_jobs (server w)) (sched_at w)"

lemma world_ok_main: "world_ok (world_main timeout :: ('dur, 'ts) World)"
  using srv_inv_main [where 'dur = 'dur, of timeout] by (simp add: world_ok_def world_main_def comps_ok_def srv_inv_def sys_ok_def)

lemma world_ok_step:
  assumes "world_ok w"
  shows "world_ok (world_step asDur dNew tsNew e w)"
proof -
  have ok: "comps_ok (server w)" "sched_ok (srv_jobs (server w)) (sched_at w)" using assms by (simp_all add: world_ok_def)
  note later = section_later [OF world_section comps_okD(1) [OF ok(1)]]
  show ?thesis
  proof (cases e)
    case (Arrive k req)
    with ok show ?thesis by (simp add: world_ok_def)
  next
    case (CallStep k i)
    show ?thesis
    proof (cases "fmlookup (calls w) k")
      case (Some p)
      with CallStep ok comps_ok_call [OF ok(1)] sched_ok_later [OF ok(2)] later [of asDur dNew tsNew e] show ?thesis
        by (simp add: world_ok_def split_beta)
    qed (use CallStep ok in \<open>simp add: world_ok_def\<close>)
  next
    case (SchedStep wk now)
    with comps_ok_sched [OF ok, of dNew wk now] show ?thesis
      by (simp add: world_ok_def split: prod.split)
  next
    case (MonStep c ks now)
    with ok comps_ok_mon [OF ok(1)] sched_ok_later [OF ok(2)] later [of asDur dNew tsNew e] show ?thesis
      by (simp add: world_ok_def split_beta)
  qed
qed

lemma world_later:
  "world_ok w \<Longrightarrow> jm_later (srv_jobs (server w)) (srv_jobs (server (world_step asDur dNew tsNew e w)))"
  by (rule section_later [OF world_section]) (simp add: world_ok_def comps_ok_def)

interpretation world: forward_component "world_main timeout" "world_step asDur dNew tsNew" world_ok
    "\<lambda>w w'. jm_later (srv_jobs (server w)) (srv_jobs (server w'))"
proof unfold_locales
  show "jm_later (srv_jobs (server w)) (srv_jobs (server (world_step asDur dNew tsNew e w)))" if "world_ok w"
    for w :: "('a, 'b) World" and e
    using that by (rule world_later)
  show "jm_later (srv_jobs (server s)) (srv_jobs (server u))"
    if "world_ok s" "jm_later (srv_jobs (server s)) (srv_jobs (server t))" "jm_later (srv_jobs (server t)) (srv_jobs (server u))"
    for s t u :: "('a, 'b) World"
    by (rule jm_later_trans [OF _ that(2,3)]) (use that(1) in \<open>simp add: world_ok_def comps_ok_def\<close>)
qed (simp_all add: world_ok_main world_ok_step jm_later_refl)

section \<open>What a thread has in hand and what it has read\<close>

datatype actor = Handler nat | TheScheduler | TheMonitor

definition job_gang :: "Job \<Rightarrow> gang" where
  "job_gang j = (AssignedNodeIDs j, CPUsPerNode (Resources (job_Spec j)))"

definition ended :: "JobManager \<Rightarrow> string \<Rightarrow> bool" where
  "ended m jid \<longleftrightarrow> (\<exists>j. fmlookup (jobs m) jid = Some j \<and> Terminal (job_Status j))"

text \<open>A report that has just ended its job will find that it has, and release the gang.\<close>

definition ended_claim :: "JobManager \<Rightarrow> string \<Rightarrow> Job \<Rightarrow> (string \<times> gang) option" where
  "ended_claim m jid prior = (case fmlookup (jobs m) jid of
     None \<Rightarrow> None
   | Some j \<Rightarrow> if Terminal (job_Status j) \<and> \<not> Terminal (job_Status prior) then Some (jid, job_gang j) else None)"

fun call_claim :: "JobManager \<Rightarrow> ('dur, 'ts) pc \<Rightarrow> (string \<times> gang) option" where
  "call_claim m (CancelRelease jid j) = Some (jid, job_gang j)"
| "call_claim m (ReportClear req prior) = ended_claim m (ReportJobStatusRequest_GetJobId req) prior"
| "call_claim m (ReportAfter req prior) = ended_claim m (ReportJobStatusRequest_GetJobId req) prior"
| "call_claim m (ReportRelease req after) = Some (ReportJobStatusRequest_GetJobId req, job_gang after)"
| "call_claim m _ = None"

fun sched_claim :: "'dur sched_pc \<Rightarrow> (string \<times> gang) option" where
  "sched_claim (SchedMark j ids) = Some (job_ID j, ids, CPUsPerNode (Resources (job_Spec j)))"
| "sched_claim (SchedBackOut j ids) = Some (job_ID j, ids, CPUsPerNode (Resources (job_Spec j)))"
| "sched_claim _ = None"

fun mon_claim :: "'dur mon_pc \<Rightarrow> (string \<times> gang) option" where
  "mon_claim (MonNotify n ids cpus cs seen dead) = Some (CurrentJobID n, ids, cpus)"
| "mon_claim (MonRelease n ids cpus seen dead) = Some (CurrentJobID n, ids, cpus)"
| "mon_claim _ = None"

definition claim :: "('dur, 'ts) World \<Rightarrow> actor \<Rightarrow> (string \<times> gang) option" where
  "claim w a = (case a of
     Handler k \<Rightarrow> (case fmlookup (calls w) k of None \<Rightarrow> None | Some p \<Rightarrow> call_claim (srv_jobs (server w)) p)
   | TheScheduler \<Rightarrow> sched_claim (sched_at w)
   | TheMonitor \<Rightarrow> mon_claim (mon_at w))"

text \<open>The job that a handler has read and has still to decide about.\<close>

fun watching :: "('dur, 'ts) pc \<Rightarrow> string option" where
  "watching (CancelCancel jid j) = Some jid"
| "watching (ReportEvent req prior) = Some (ReportJobStatusRequest_GetJobId req)"
| "watching (ReportClear req prior) = Some (ReportJobStatusRequest_GetJobId req)"
| "watching (ReportAfter req prior) = Some (ReportJobStatusRequest_GetJobId req)"
| "watching _ = None"

fun reads_ok :: "JobManager \<Rightarrow> ('dur, 'ts) pc \<Rightarrow> bool" where
  "reads_ok m (CancelCancel jid j) = (fmlookup (jobs m) jid = Some j)"
| "reads_ok m (CancelRelease jid j) = ended m jid"
| "reads_ok m (ReportEvent req prior) = (fmlookup (jobs m) (ReportJobStatusRequest_GetJobId req) = Some prior)"
| "reads_ok m (ReportClear req prior) = (\<exists>j. fmlookup (jobs m) (ReportJobStatusRequest_GetJobId req) = Some j)"
| "reads_ok m (ReportAfter req prior) = (\<exists>j. fmlookup (jobs m) (ReportJobStatusRequest_GetJobId req) = Some j)"
| "reads_ok m (ReportRelease req after) = ended m (ReportJobStatusRequest_GetJobId req)"
| "reads_ok m _ = True"

fun mon_ok :: "JobManager \<Rightarrow> 'dur mon_pc \<Rightarrow> bool" where
  "mon_ok m (MonNotify n ids cpus cs seen dead) = ended m (CurrentJobID n)"
| "mon_ok m (MonRelease n ids cpus seen dead) = ended m (CurrentJobID n)"
| "mon_ok m _ = True"

text \<open>The job the scheduler is about to reserve nodes for has none.\<close>

fun sched_free :: "(string \<Rightarrow> gang option) \<Rightarrow> ('a \<Rightarrow> (string \<times> gang) option) \<Rightarrow> 'dur sched_pc \<Rightarrow> bool" where
  "sched_free rg cl (SchedSelect j) = (\<forall>x. \<not> claims rg cl (job_ID j) x)"
| "sched_free rg cl (SchedReserve j ids) = (\<forall>x. \<not> claims rg cl (job_ID j) x)"
| "sched_free rg cl _ = True"

definition live_ok :: "('dur, 'ts) World \<Rightarrow> bool" where
  "live_ok w \<longleftrightarrow> world_ok w \<and>
     owned (running_gang (srv_jobs (server w))) (claim w) (srv_registry (server w)) \<and>
     (\<forall>k p. fmlookup (calls w) k = Some p \<longrightarrow> reads_ok (srv_jobs (server w)) p) \<and>
     mon_ok (srv_jobs (server w)) (mon_at w) \<and>
     sched_free (running_gang (srv_jobs (server w))) (claim w) (sched_at w)"

section \<open>One step of one thread\<close>

text \<open>A move of one actor: the ownership goes on, and no job has nodes after it that had none before.\<close>

definition moves ::
  "(string \<Rightarrow> gang option) \<Rightarrow> ('a \<Rightarrow> (string \<times> gang) option) \<Rightarrow> Registry \<Rightarrow>
   (string \<Rightarrow> gang option) \<Rightarrow> ('a \<Rightarrow> (string \<times> gang) option) \<Rightarrow> Registry \<Rightarrow> bool" where
  "moves rg cl r rg' cl' r' \<longleftrightarrow> owned rg' cl' r' \<and> (\<forall>jid x. claims rg' cl' jid x \<longrightarrow> claims rg cl jid x)"

lemma moves_refl: "owned rg cl r \<Longrightarrow> cl a = c \<Longrightarrow> moves rg cl r rg (cl(a := c)) r"
  by (simp add: moves_def fun_upd_idem)

lemma moves_registry:
  assumes "owned rg cl r" "cl a = c" "\<And>g. placed g r \<Longrightarrow> placed g r'"
  shows "moves rg cl r rg (cl(a := c)) r'"
  using assms unfolding moves_def owned_def by (auto simp: fun_upd_idem)

lemma moves_take:
  assumes "owned rg cl r" "rg jid = Some x" "cl a = None"
  shows "moves rg cl r (rg(jid := None)) (cl(a := Some (jid, x))) r"
  using owned_take [where cl = cl and a = a, OF assms]
    exclusive_take [where rg = rg and cl = cl and a = a and jid = jid and x = x, OF owned_exclusive [OF assms(1)] assms(2,3)]
  by (simp add: moves_def)

lemma moves_release:
  assumes "owned rg cl r" "cl a = Some (jid, ids, cpus)"
  shows "moves rg cl r rg (cl(a := None)) (ReleaseNodes ids cpus r)"
  using owned_release [where cl = cl and a = a, OF assms]
    exclusive_drop [where rg = rg and cl = cl and a = a and jid = jid and x = "(ids, cpus)", OF owned_exclusive [OF assms(1)] assms(2)]
  by (simp add: moves_def)

lemma running_gang_of: "fmlookup (jobs m) jid = Some j \<Longrightarrow> job_Status j = StatusRunning \<Longrightarrow> running_gang m jid = Some (job_gang j)"
  by (simp add: running_gang_def job_gang_def)

lemma placed_Touch: "placed g r \<Longrightarrow> placed g (snd (Touch now x r))"
  by (simp add: placed_same_load [of "snd (Touch now x r)" r])

lemma placed_ReapStale: "placed g r \<Longrightarrow> placed g (snd (ReapStale ks now t r))"
  by (simp add: placed_same_load [of "snd (ReapStale ks now t r)" r])

text \<open>Cancelling and reporting, for a job that is as it was read.\<close>

lemma cancel_moves:
  assumes "fmlookup (jobs m) jid = Some j" "JM_Cancel now jid m = (res, m')" "owned (running_gang m) cl r" "cl a = None"
  shows "moves (running_gang m) cl r (running_gang m')
      (cl(a := (if res = Inr True then Some (jid, job_gang j) else None))) r \<and> (res = Inr True \<longrightarrow> ended m' jid)"
proof (cases "job_Status j = StatusRunning")
  case True
  with assms(1,2) have res: "res = Inr True" "ended m' jid" by (auto simp: JM_Cancel_eq Let_def ended_def)
  have "running_gang m' = (running_gang m)(jid := None)" using running_gang_Cancel [of now jid m] assms(2) by simp
  with moves_take [where a = a, OF assms(3) running_gang_of [OF assms(1) True] assms(4)] res show ?thesis by simp
next
  case False
  with assms(1,2) have "res \<noteq> Inr True" by (auto simp: JM_Cancel_eq Let_def split: if_splits)
  moreover have "running_gang m' = running_gang m"
    using running_gang_Cancel [of now jid m] assms(1,2) False by (simp add: running_gang_pending fun_upd_idem)
  ultimately show ?thesis using moves_refl [where a = a and c = None, OF assms(3,4)] by simp
qed

lemma report_moves:
  assumes "fmlookup (jobs m) jid = Some before" "ReportNodeEvent now jid n failed c msg m = (e, m')"
    and "owned (running_gang m) cl r" "cl a = None"
  shows "moves (running_gang m) cl r (running_gang m') (cl(a := (if e = None then ended_claim m' jid before else None))) r \<and>
    (\<exists>j. fmlookup (jobs m') jid = Some j)"
proof -
  from ReportNodeEvent_job [OF assms(1,2)] obtain j' where j': "fmlookup (jobs m') jid = Some j'" "job_gang j' = job_gang before"
    and g: "if Terminal (job_Status j') \<and> \<not> Terminal (job_Status before)
      then job_Status before = StatusRunning \<and> running_gang m' = (running_gang m)(jid := None) else running_gang m' = running_gang m"
      "e \<noteq> None \<longrightarrow> running_gang m' = running_gang m"
    by (auto simp: job_gang_def)
  show ?thesis
  proof (cases "Terminal (job_Status j') \<and> \<not> Terminal (job_Status before)")
    case True
    with g have run: "job_Status before = StatusRunning" "running_gang m' = (running_gang m)(jid := None)" by simp_all
    have "e = None"
      using g(2) run(2) running_gang_of [OF assms(1) run(1)] by (metis fun_upd_same option.distinct(1))
    then show ?thesis
      using moves_take [where a = a, OF assms(3) running_gang_of [OF assms(1) run(1)] assms(4)] run(2) True j'
      by (simp add: ended_claim_def)
  next
    case False
    with g(1) j' have "ended_claim m' jid before = None" "running_gang m' = running_gang m"
      by (auto simp: ended_claim_def split: if_splits)
    with moves_refl [where a = a and c = None, OF assms(3,4)] j' show ?thesis by simp
  qed
qed

lemma enter_moves:
  assumes "owned (running_gang (srv_jobs s)) cl (srv_registry s)" "cl a = None"
    and "enter asDur dNew tsNew i req s = (p', s')"
  shows "moves (running_gang (srv_jobs s)) cl (srv_registry s) (running_gang (srv_jobs s'))
      (cl(a := call_claim (srv_jobs s') p')) (srv_registry s') \<and> reads_ok (srv_jobs s') p'"
proof (cases req)
  case (RegisterNodeReq r)
  have "moves (running_gang (srv_jobs s)) cl (srv_registry s) (running_gang (srv_jobs s)) (cl(a := None))
      (RegisterNode now (zero_Node\<lparr>node_ID := x, Hostname := y, Address := z, TotalCPUs := c, node_Status := st\<rparr>) (srv_registry s))"
    for now x y z c st
    by (rule moves_registry [where a = a, OF assms(1,2)], rule placed_RegisterNode) (simp_all add: zero_Node_def)
  with RegisterNodeReq assms show ?thesis
    by (auto simp: Let_def split: if_splits intro: moves_refl)
qed (use assms in \<open>auto simp: Let_def JM_Get_def intro: moves_refl split: if_splits sum.splits option.splits\<close>)

lemma submit_moves:
  assumes "New_Job now jid spec = Inr j" "Submit (Some j) m = (e, m')" "owned (running_gang m) cl r" "cl a = None"
  shows "moves (running_gang m) cl r (running_gang m') (cl(a := None)) r"
proof -
  have "running_gang m' = running_gang m"
    using running_gang_Submit [of "Some j" m] New_Job_Inr [OF assms(1)] assms(2) by simp
  with moves_refl [where a = a and c = None, OF assms(3,4)] show ?thesis by simp
qed

lemma call_moves:
  assumes "owned (running_gang (srv_jobs s)) cl (srv_registry s)" "cl a = call_claim (srv_jobs s) p" "reads_ok (srv_jobs s) p"
    and "call_step asDur dNew tsNew i p s = (p', s')"
  shows "moves (running_gang (srv_jobs s)) cl (srv_registry s) (running_gang (srv_jobs s'))
      (cl(a := call_claim (srv_jobs s') p')) (srv_registry s') \<and> reads_ok (srv_jobs s') p'"
proof (cases p)
  case (Entered req)
  with enter_moves [OF assms(1), of a] assms(2,4) show ?thesis by simp
next
  case (SubmitStore jid spec)
  with assms show ?thesis
    by (auto intro: moves_refl submit_moves split: sum.splits prod.splits option.splits)
next
  case (CancelCancel jid j)
  obtain res m where c: "JM_Cancel (in_now i) jid (srv_jobs s) = (res, m)" by fastforce
  from CancelCancel assms(2,3) have "fmlookup (jobs (srv_jobs s)) jid = Some j" "cl a = None" by simp_all
  from cancel_moves [OF this(1) c assms(1) this(2)] CancelCancel assms(4) c show ?thesis
    by (auto split: sum.splits if_splits)
next
  case (ReportEvent req before)
  let ?jid = "ReportJobStatusRequest_GetJobId req"
  obtain e m where r: "ReportNodeEvent (in_now i) ?jid (ReportJobStatusRequest_GetNodeId req)
      (ReportJobStatusRequest_GetEvent req = JOB_EVENT_FAILED \<or> ReportJobStatusRequest_GetEvent req = JOB_EVENT_CANCELLED)
      (sint (ReportJobStatusRequest_GetExitCode req)) (ReportJobStatusRequest_GetErrorMessage req) (srv_jobs s) = (e, m)"
    by fastforce
  from ReportEvent assms(2,3) have "fmlookup (jobs (srv_jobs s)) ?jid = Some before" "cl a = None" by simp_all
  from report_moves [OF this(1) r assms(1) this(2)] ReportEvent assms(4) r show ?thesis
    by (auto simp: Let_def split: option.splits)
next
  case (ReportAfter req before)
  with assms show ?thesis
    by (auto simp: JM_Get_def ended_claim_def ended_def split: if_splits intro!: moves_refl)
next
  case (CancelRelease jid j)
  with assms show ?thesis by (auto simp: job_gang_def intro: moves_release)
next
  case (ReportRelease req after)
  with assms show ?thesis by (auto simp: job_gang_def Let_def intro: moves_release)
next
  case (WatchLoop n ch sent)
  with assms show ?thesis
    by (auto intro!: moves_refl split: watch_case.splits recv.splits option.splits prod.splits)
qed (use assms in \<open>auto simp: Let_def JM_Get_def ended_def intro!: moves_refl split: sum.splits option.splits prod.splits list.splits if_splits\<close>)

text \<open>The scheduler's calls that take nodes in hand and hand them over; \<open>p\<close> is where it stood.\<close>

lemma reserve_moves:
  assumes own: "owned (running_gang (srv_jobs s)) cl (srv_registry s)" and cl: "cl a = None"
    and free: "sched_free (running_gang (srv_jobs s)) cl (SchedReserve j ids)"
    and ok: "comps_ok s" "gang_for j ids" and step: "sched_step dNew w now (SchedReserve j ids) s = (p', s')"
  shows "owned (running_gang (srv_jobs s')) (cl(a := sched_claim p')) (srv_registry s') \<and>
    sched_free (running_gang (srv_jobs s')) (cl(a := sched_claim p')) p'"
proof -
  let ?c = "CPUsPerNode (Resources (job_Spec j))"
  from free have "\<not> claims (running_gang (srv_jobs s)) cl (job_ID j) x" for x by (cases x) simp
  then have none: "running_gang (srv_jobs s) (job_ID j) = None" "\<And>b y. cl b \<noteq> Some (job_ID j, y)"
    unfolding claims_def by (cases "running_gang (srv_jobs s) (job_ID j)"; blast)+
  have d: "distinct ids" using ok(2) by (simp add: gang_for_def)
  obtain e r where r: "ReserveNodes (job_ID j) ids ?c (srv_registry s) = (e, r)" by fastforce
  show ?thesis
  proof (cases e)
    case None
    from owned_reserve [where cl = cl and a = a, OF own none cl comps_okD(5) [OF ok(1)] d] r None
    have "owned (running_gang (srv_jobs s)) (cl(a := Some (job_ID j, ids, ?c))) r" by simp
    with step r None show ?thesis by auto
  next
    case (Some err)
    with ReserveNodes_error [of "job_ID j" ids ?c "srv_registry s"] r have "r = srv_registry s" by simp
    with own step r Some cl fun_upd_idem [of cl a] show ?thesis by auto
  qed
qed

lemma mark_moves:
  assumes own: "owned (running_gang (srv_jobs s)) cl (srv_registry s)"
    and cl: "cl a = Some (job_ID j, ids, CPUsPerNode (Resources (job_Spec j)))"
    and known: "known (srv_jobs s) j" and step: "sched_step dNew w now (SchedMark j ids) s = (p', s')"
  shows "owned (running_gang (srv_jobs s')) (cl(a := sched_claim p')) (srv_registry s') \<and>
    sched_free (running_gang (srv_jobs s')) (cl(a := sched_claim p')) p'"
proof -
  from known obtain j' where j': "fmlookup (jobs (srv_jobs s)) (job_ID j) = Some j'" "job_Spec j' = job_Spec j"
    by (auto simp: known_def)
  show ?thesis
  proof (cases "job_Status j' = StatusPending")
    case True
    from owned_start [where cl = cl and a = a, OF own cl] step MarkRunning_pending [OF j'(1) True]
      running_gang_MarkRunning [OF j'(1) True, of now ids] j'(2)
    show ?thesis by auto
  next
    case False
    obtain err where "JM_MarkRunning now (job_ID j) ids (srv_jobs s) = (Some err, srv_jobs s)"
      using j'(1) False by (cases "Job_MarkRunning now ids j'") (auto simp: JM_MarkRunning_def dest: Job_MarkRunning_InrD)
    with own step cl fun_upd_idem [of cl a] show ?thesis by auto
  qed
qed

lemma sched_moves:
  assumes "owned (running_gang (srv_jobs s)) cl (srv_registry s)" "cl a = sched_claim p" "sched_free (running_gang (srv_jobs s)) cl p"
    and "comps_ok s" "sched_ok (srv_jobs s) p" "sched_step dNew w now p s = (p', s')"
    and fresh: "\<And>jid j x. p = SchedPeek \<Longrightarrow> fmlookup (jobs (srv_jobs s)) jid = Some j \<Longrightarrow> job_Status j = StatusPending \<Longrightarrow>
      \<not> claims (running_gang (srv_jobs s)) cl jid x"
  shows "owned (running_gang (srv_jobs s')) (cl(a := sched_claim p')) (srv_registry s') \<and>
    sched_free (running_gang (srv_jobs s')) (cl(a := sched_claim p')) p'"
proof -
  note stay = moves_refl [where a = a, OF assms(1)] and idem = fun_upd_idem [of cl a]
  show ?thesis
  proof (cases p)
    case SchedWait
    with assms idem show ?thesis
      by (auto simp: wake_up_def set_comps_def split: wake.splits if_splits option.splits)
  next
    case SchedPeek
    have "\<not> claims (running_gang (srv_jobs s)) cl (job_ID j) x" if "PeekPendingJob (srv_jobs s) = Some j" for j x
      using fresh [OF SchedPeek] peek_head(1,2) [OF comps_okD(1) [OF assms(4)] that] by blast
    with SchedPeek assms idem show ?thesis by (auto split: option.splits)
  next
    case (SchedSelect j)
    with assms idem show ?thesis by (auto split: option.splits)
  next
    case (SchedReserve j ids)
    have "cl a = None" using SchedReserve assms(2) by simp
    from reserve_moves [OF assms(1) this assms(3) [unfolded SchedReserve] assms(4) _ assms(6) [unfolded SchedReserve]]
      SchedReserve assms(5) show ?thesis by simp
  next
    case (SchedMark j ids)
    have "cl a = Some (job_ID j, ids, CPUsPerNode (Resources (job_Spec j)))" using SchedMark assms(2) by simp
    from mark_moves [OF assms(1) this _ assms(6) [unfolded SchedMark]] SchedMark assms(5) show ?thesis by simp
  next
    case (SchedBackOut j ids)
    with assms owned_release [where cl = cl and a = a, OF assms(1)] show ?thesis by auto
  next
    case (SchedDispatch j ids rank rest cs)
    with assms idem show ?thesis by (cases cs; cases rest) (auto split: if_splits)
  qed (use assms idem in auto)
qed

lemma dead_moves:
  assumes "owned (running_gang (srv_jobs s)) cl (srv_registry s)" "cl a = None" "mon_step c ks now (MonDead seen dead) s = (p', s')"
    and runs: "\<And>n rest. dead = n # rest \<Longrightarrow> CurrentJobID n \<noteq> [] \<Longrightarrow> CurrentJobID n |\<notin>| seen \<Longrightarrow>
      running_gang (srv_jobs s) (CurrentJobID n) \<noteq> None"
  shows "moves (running_gang (srv_jobs s)) cl (srv_registry s) (running_gang (srv_jobs s'))
      (cl(a := mon_claim p')) (srv_registry s') \<and> mon_ok (srv_jobs s') p'"
proof (cases dead)
  case Nil
  with assms show ?thesis by (auto intro!: moves_refl)
next
  case (Cons n rest)
  show ?thesis
  proof (cases "CurrentJobID n = [] \<or> CurrentJobID n |\<in>| seen")
    case True
    with Cons assms show ?thesis by (auto intro!: moves_refl)
  next
    case False
    let ?jid = "CurrentJobID n"
    obtain x where g: "running_gang (srv_jobs s) ?jid = Some x" using runs Cons False by blast
    obtain res m where f: "FailRunningJob now ?jid (''node '' @ node_ID n @ '' lost'') (srv_jobs s) = (res, m)" by fastforce
    then have "m = snd (FailRunningJob now ?jid (''node '' @ node_ID n @ '' lost'') (srv_jobs s))"
      and "res = fst (FailRunningJob now ?jid (''node '' @ node_ID n @ '' lost'') (srv_jobs s))" by simp_all
    then have m: "running_gang m = (running_gang (srv_jobs s))(?jid := None)" "res = Some x" "ended m ?jid"
      using g by (auto simp: jm_fail.fail_gang jm_fail.fail_result)
        (auto simp: FailRunningJob_eq running_gang_def ended_def split: option.splits if_splits)
    from moves_take [where a = a, OF assms(1) g] Cons False assms(2,3) f m show ?thesis
      by (cases x) (auto simp: Let_def)
  qed
qed

lemma mon_moves:
  assumes "owned (running_gang (srv_jobs s)) cl (srv_registry s)" "cl a = mon_claim p" "mon_ok (srv_jobs s) p"
    and "mon_step c ks now p s = (p', s')"
    and runs: "\<And>seen n dead. p = MonDead seen (n # dead) \<Longrightarrow> CurrentJobID n \<noteq> [] \<Longrightarrow> CurrentJobID n |\<notin>| seen \<Longrightarrow>
      running_gang (srv_jobs s) (CurrentJobID n) \<noteq> None"
  shows "moves (running_gang (srv_jobs s)) cl (srv_registry s) (running_gang (srv_jobs s'))
      (cl(a := mon_claim p')) (srv_registry s') \<and> mon_ok (srv_jobs s') p'"
proof (cases p)
  case MonWait
  with assms show ?thesis by (auto intro!: moves_refl split: mon_case.splits list.splits)
next
  case (MonTouch n)
  have "moves (running_gang (srv_jobs s)) cl (srv_registry s) (running_gang (srv_jobs s)) (cl(a := None)) (snd (Touch now n (srv_registry s)))"
    using MonTouch assms(2) by (intro moves_registry assms(1) placed_Touch) simp_all
  with MonTouch assms(4) show ?thesis by auto
next
  case MonDrain
  with assms show ?thesis by (auto intro!: moves_refl split: list.splits)
next
  case (MonDrainTouch n)
  have "moves (running_gang (srv_jobs s)) cl (srv_registry s) (running_gang (srv_jobs s)) (cl(a := None)) (snd (Touch now n (srv_registry s)))"
    using MonDrainTouch assms(2) by (intro moves_registry assms(1) placed_Touch) simp_all
  with MonDrainTouch assms(4) show ?thesis by auto
next
  case MonReap
  have "moves (running_gang (srv_jobs s)) cl (srv_registry s) (running_gang (srv_jobs s)) (cl(a := None))
      (snd (ReapStale ks now (mon_timeout (srv_monitor s)) (srv_registry s)))"
    using MonReap assms(2) by (intro moves_registry assms(1) placed_ReapStale) simp_all
  with MonReap assms(4) show ?thesis by (auto split: prod.splits)
next
  case (MonDead seen dead)
  have "cl a = None" using MonDead assms(2) by simp
  from dead_moves [OF assms(1) this assms(4) [unfolded MonDead]] runs [unfolded MonDead] show ?thesis by simp
next
  case (MonNotify n ids cpus cs seen dead)
  with assms show ?thesis by (cases cs) (auto intro!: moves_refl)
next
  case (MonRelease n ids cpus seen dead)
  with assms show ?thesis by (auto intro: moves_release)
next
  case MonStopped
  with assms show ?thesis by (auto intro!: moves_refl)
qed

section \<open>Steps that pull the rug\<close>

text \<open>
  A step disturbs a handler when it changes the status of a job that the handler has read and has not
  decided about yet; and the monitor is disturbed when a lost node carries a job that is not running
  at that moment (it was reserved for a job that has not started, or its job has ended and nobody has
  released it yet).
\<close>

definition job_status :: "'dur Server \<Rightarrow> string \<Rightarrow> Status option" where
  "job_status s jid = map_option job_Status (fmlookup (jobs (srv_jobs s)) jid)"

fun mover :: "'dur event \<Rightarrow> nat option" where
  "mover (CallStep k i) = Some k"
| "mover _ = None"

fun lost_idle_job :: "JobManager \<Rightarrow> 'dur mon_pc \<Rightarrow> bool" where
  "lost_idle_job m (MonDead seen (n # dead)) =
     (CurrentJobID n \<noteq> [] \<and> CurrentJobID n |\<notin>| seen \<and> running_gang m (CurrentJobID n) = None)"
| "lost_idle_job m _ = False"

fun disturbs_monitor :: "'dur event \<Rightarrow> ('dur, 'ts) World \<Rightarrow> bool" where
  "disturbs_monitor (MonStep c ks now) w = lost_idle_job (srv_jobs (server w)) (mon_at w)"
| "disturbs_monitor _ w = False"

definition disturbs_call ::
  "'dur Server \<Rightarrow> 'dur Server \<Rightarrow> ('dur, 'ts) pc option \<Rightarrow> bool" where
  "disturbs_call s s' po = (case Option.bind po watching of
     None \<Rightarrow> False | Some jid \<Rightarrow> job_status s' jid \<noteq> job_status s jid)"

definition disturbs ::
  "('dur \<Rightarrow> duration) \<Rightarrow> (duration \<Rightarrow> 'dur) \<Rightarrow> (instant \<Rightarrow> 'ts) \<Rightarrow> 'dur event \<Rightarrow> ('dur, 'ts) World \<Rightarrow> bool" where
  "disturbs asDur dNew tsNew e w =
     (let s' = server (world_step asDur dNew tsNew e w)
      in disturbs_monitor e w \<or>
         (\<exists>k |\<in>| fmdom (calls w). mover e \<noteq> Some k \<and> disturbs_call (server w) s' (fmlookup (calls w) k)))"

fun undisturbed ::
  "('dur \<Rightarrow> duration) \<Rightarrow> (duration \<Rightarrow> 'dur) \<Rightarrow> (instant \<Rightarrow> 'ts) \<Rightarrow> 'dur event list \<Rightarrow> ('dur, 'ts) World \<Rightarrow> bool" where
  "undisturbed asDur dNew tsNew [] w = True"
| "undisturbed asDur dNew tsNew (e # es) w =
     (\<not> disturbs asDur dNew tsNew e w \<and> undisturbed asDur dNew tsNew es (world_step asDur dNew tsNew e w))"

lemma job_steps_same_status:
  assumes "job_step\<^sup>*\<^sup>* j j'" "job_Status j' = job_Status j"
  shows "j' = j"
proof -
  have "stage j < stage j'" if "job_step\<^sup>+\<^sup>+ j j'"
    using that by (induction rule: tranclp_induct) (auto dest: job_step_stage)
  with assms(2) have "\<not> job_step\<^sup>+\<^sup>+ j j'" by (auto simp: stage_def)
  with assms(1) show ?thesis by (auto dest: rtranclpD)
qed

lemma later_same_job:
  assumes "jm_later (srv_jobs s) (srv_jobs s')" "job_status s' jid = job_status s jid" "fmlookup (jobs (srv_jobs s)) jid = Some j"
  shows "fmlookup (jobs (srv_jobs s')) jid = Some j"
proof -
  from assms(1,3) obtain j' where j': "fmlookup (jobs (srv_jobs s')) jid = Some j'" "job_step\<^sup>*\<^sup>* j j'"
    by (auto simp: jm_later_def jobs_later_def)
  with assms(2,3) have "job_Status j' = job_Status j" by (simp add: job_status_def)
  with job_steps_same_status [OF j'(2)] j'(1) show ?thesis by simp
qed

lemma later_ended: "jm_later m m' \<Longrightarrow> ended m jid \<Longrightarrow> ended m' jid"
  unfolding ended_def jm_later_def jobs_later_def by (metis job_steps_terminal)

lemma later_lookup: "jm_later m m' \<Longrightarrow> fmlookup (jobs m) jid = Some j \<Longrightarrow> \<exists>j'. fmlookup (jobs m') jid = Some j'"
  unfolding jm_later_def jobs_later_def by blast

text \<open>A handler that is not disturbed keeps what it has in hand, and what it read stays true.\<close>

lemma undisturbed_call:
  assumes "jm_later (srv_jobs s) (srv_jobs s')" "\<not> disturbs_call s s' (Some p)" "reads_ok (srv_jobs s) p"
  shows "reads_ok (srv_jobs s') p \<and> call_claim (srv_jobs s') p = call_claim (srv_jobs s) p"
proof -
  have same: "fmlookup (jobs (srv_jobs s')) jid = fmlookup (jobs (srv_jobs s)) jid"
    if "watching p = Some jid" "fmlookup (jobs (srv_jobs s)) jid = Some j" for jid j
    using later_same_job [OF assms(1) _ that(2)] that assms(2) by (simp add: disturbs_call_def)
  show ?thesis
    using assms(3) same later_ended [OF assms(1)] by (cases p) (auto simp: ended_claim_def)
qed

section \<open>The gangs stay whole\<close>

lemma live_ok_main: "live_ok (world_main timeout :: ('dur, 'ts) World)"
proof -
  have "placed (running_gang (srv_jobs (controller_main timeout :: 'dur Server))) (srv_registry (controller_main timeout :: 'dur Server))"
    using srv_inv_main [where 'dur = 'dur, of timeout] by (simp add: srv_inv_def sys_ok_def)
  then have "owned (running_gang (srv_jobs (controller_main timeout :: 'dur Server))) (\<lambda>a :: actor. None)
      (srv_registry (controller_main timeout :: 'dur Server))"
    by (intro ownedI [where g = "running_gang (srv_jobs (controller_main timeout :: 'dur Server))"])
      (simp_all add: exclusive_def claims_def)
  moreover have "claim (world_main timeout :: ('dur, 'ts) World) = (\<lambda>a. None)"
    by (auto simp: claim_def world_main_def fun_eq_iff split: actor.split)
  ultimately show ?thesis
    using world_ok_main [where 'dur = 'dur and 'ts = 'ts, of timeout] by (simp add: live_ok_def) (simp add: world_main_def)
qed

lemma live_okD:
  assumes "live_ok w"
  shows "world_ok w" "owned (running_gang (srv_jobs (server w))) (claim w) (srv_registry (server w))"
    "fmlookup (calls w) k = Some p \<Longrightarrow> reads_ok (srv_jobs (server w)) p" "mon_ok (srv_jobs (server w)) (mon_at w)"
    "sched_free (running_gang (srv_jobs (server w))) (claim w) (sched_at w)"
    "comps_ok (server w)" "sched_ok (srv_jobs (server w)) (sched_at w)"
  using assms by (auto simp: live_ok_def world_ok_def)

lemma sched_free_moves: "moves rg cl r rg' cl' r' \<Longrightarrow> sched_free rg cl p \<Longrightarrow> sched_free rg' cl' p"
  unfolding moves_def by (cases p; simp; blast)

lemma mon_ok_later: "mon_ok m p \<Longrightarrow> jm_later m m' \<Longrightarrow> mon_ok m' p"
  by (cases p) (auto intro: later_ended)

text \<open>While the scheduler has nothing in hand, no pending job has nodes.\<close>

lemma pending_unclaimed:
  assumes "live_ok w" "sched_claim (sched_at w) = None"
    and "fmlookup (jobs (srv_jobs (server w))) jid = Some j" "job_Status j = StatusPending"
  shows "\<not> claims (running_gang (srv_jobs (server w))) (claim w) jid x"
proof
  let ?m = "srv_jobs (server w)"
  have not: "\<not> ended ?m jid" using assms(3,4) by (simp add: ended_def)
  assume "claims (running_gang ?m) (claim w) jid x"
  then obtain a where "claim w a = Some (jid, x)"
    using running_gang_pending [OF assms(3)] assms(4) by (auto simp: claims_def)
  then show False
  proof (cases a)
    case (Handler k)
    with \<open>claim w a = Some (jid, x)\<close> obtain p where p: "fmlookup (calls w) k = Some p" "call_claim ?m p = Some (jid, x)"
      by (auto simp: claim_def split: option.splits)
    with live_okD(3) [OF assms(1) p(1)] not show False
      by (cases p) (auto simp: ended_claim_def ended_def split: option.splits if_splits)
  next
    case TheMonitor
    with \<open>claim w a = Some (jid, x)\<close> live_okD(4) [OF assms(1)] not show False
      by (cases "mon_at w") (auto simp: claim_def)
  qed (use assms(2) in \<open>simp add: claim_def\<close>)
qed

text \<open>What the actors have in hand after a step of one of them.\<close>

lemma claim_after:
  assumes "\<forall>j q. fmlookup (calls w) j = Some q \<longrightarrow> Some j \<noteq> ko \<longrightarrow> call_claim (srv_jobs s') q = call_claim (srv_jobs (server w)) q"
  shows "ko = Some k \<Longrightarrow> claim (w\<lparr>server := s', calls := fmupd k p (calls w)\<rparr>) = (claim w)(Handler k := call_claim (srv_jobs s') p)"
    "ko = None \<Longrightarrow> claim (w\<lparr>server := s', sched_at := sp\<rparr>) = (claim w)(TheScheduler := sched_claim sp)"
    "ko = None \<Longrightarrow> claim (w\<lparr>server := s', mon_at := mp\<rparr>) = (claim w)(TheMonitor := mon_claim mp)"
  using assms by (auto simp: claim_def fun_eq_iff split: actor.split option.split)

lemma live_ok_others:
  assumes "live_ok w" "\<not> disturbs asDur dNew tsNew e w" "fmlookup (calls w) k = Some p" "Some k \<noteq> mover e"
  shows "reads_ok (srv_jobs (server (world_step asDur dNew tsNew e w))) p \<and>
    call_claim (srv_jobs (server (world_step asDur dNew tsNew e w))) p = call_claim (srv_jobs (server w)) p"
proof -
  note live = live_okD [OF assms(1)]
  from assms(3) have "k |\<in>| fmdom (calls w)" by (rule fmdomI)
  with assms have "\<not> disturbs_call (server w) (server (world_step asDur dNew tsNew e w)) (Some p)"
    by (fastforce simp: disturbs_def Let_def)
  then show ?thesis by (rule undisturbed_call [OF world_later [OF live(1)] _ live(3) [OF assms(3)]])
qed

lemma claim_after_step:
  assumes "live_ok w" "\<not> disturbs asDur dNew tsNew e w" "s' = server (world_step asDur dNew tsNew e w)"
  shows "mover e = Some k \<Longrightarrow> claim (w\<lparr>server := s', calls := fmupd k p (calls w)\<rparr>) = (claim w)(Handler k := call_claim (srv_jobs s') p)"
    "mover e = None \<Longrightarrow> claim (w\<lparr>server := s', sched_at := sp\<rparr>) = (claim w)(TheScheduler := sched_claim sp)"
    "mover e = None \<Longrightarrow> claim (w\<lparr>server := s', mon_at := mp\<rparr>) = (claim w)(TheMonitor := mon_claim mp)"
proof -
  have "\<forall>j q. fmlookup (calls w) j = Some q \<longrightarrow> Some j \<noteq> mover e \<longrightarrow> call_claim (srv_jobs s') q = call_claim (srv_jobs (server w)) q"
    using live_ok_others [OF assms(1,2)] assms(3) by blast
  note after = claim_after [where w = w and s' = s' and ko = "mover e", OF this]
  show "mover e = Some k \<Longrightarrow> claim (w\<lparr>server := s', calls := fmupd k p (calls w)\<rparr>) = (claim w)(Handler k := call_claim (srv_jobs s') p)"
    by (rule after(1))
  show "mover e = None \<Longrightarrow> claim (w\<lparr>server := s', sched_at := sp\<rparr>) = (claim w)(TheScheduler := sched_claim sp)"
    by (rule after(2))
  show "mover e = None \<Longrightarrow> claim (w\<lparr>server := s', mon_at := mp\<rparr>) = (claim w)(TheMonitor := mon_claim mp)"
    by (rule after(3))
qed

lemma live_ok_Arrive: "live_ok w \<Longrightarrow> live_ok (world_step asDur dNew tsNew (Arrive k req) w)"
proof -
  assume live: "live_ok w"
  let ?w' = "world_step asDur dNew tsNew (Arrive k req) w"
  have "claim ?w' = claim w" "server ?w' = server w" "mon_at ?w' = mon_at w" "sched_at ?w' = sched_at w"
    by (auto simp: claim_def fun_eq_iff split: actor.split option.split if_splits)
  moreover have "reads_ok (srv_jobs (server w)) p" if "fmlookup (calls ?w') j = Some p" for j p
    using that live_okD(3) [OF live] by (auto split: if_splits)
  ultimately show ?thesis using live_okD [OF live] world_ok_step [of w asDur dNew tsNew "Arrive k req"] by (auto simp: live_ok_def)
qed

lemma live_ok_CallStep:
  assumes "live_ok w" "\<not> disturbs asDur dNew tsNew (CallStep k i) w" "fmlookup (calls w) k = Some p"
  shows "live_ok (world_step asDur dNew tsNew (CallStep k i) w)"
proof -
  note live = live_okD [OF assms(1)]
  define w' where "w' = world_step asDur dNew tsNew (CallStep k i) w"
  let ?m = "srv_jobs (server w)" and ?m' = "srv_jobs (server w')"
  obtain p' s' where c: "call_step asDur dNew tsNew i p (server w) = (p', s')" by fastforce
  with assms(3) have w': "w' = w\<lparr>server := server w', calls := fmupd k p' (calls w)\<rparr>" "server w' = s'"
    by (simp_all add: w'_def)
  have clm: "claim w' = (claim w)(Handler k := call_claim ?m' p')"
    by (subst w'(1)) (rule claim_after_step(1) [OF assms(1,2)], simp_all add: w'_def)
  have "claim w (Handler k) = call_claim ?m p" using assms(3) by (simp add: claim_def)
  from call_moves [where a = "Handler k", OF live(2) this live(3) [OF assms(3)] c]
  have mv: "moves (running_gang ?m) (claim w) (srv_registry (server w)) (running_gang ?m') (claim w') (srv_registry (server w'))"
    "reads_ok ?m' p'"
    by (simp_all add: w'(2) clm)
  have "reads_ok ?m' q" if "fmlookup (calls w') j = Some q" for j q
    using that mv(2) live_ok_others [OF assms(1,2), of j q]
    by (subst (asm) w'(1)) (simp add: w'_def split: if_splits)
  moreover have "sched_at w' = sched_at w" "mon_at w' = mon_at w" by (subst w'(1), simp)+
  moreover have "world_ok w'" "jm_later ?m ?m'" unfolding w'_def by (rule world_ok_step [OF live(1)], rule world_later [OF live(1)])
  ultimately have "live_ok w'"
    using mv(1) sched_free_moves [OF mv(1) live(5)] mon_ok_later [OF live(4)] by (auto simp: live_ok_def moves_def)
  then show ?thesis by (simp add: w'_def)
qed

lemma live_ok_SchedStep:
  assumes "live_ok w" "\<not> disturbs asDur dNew tsNew (SchedStep wk now) w"
  shows "live_ok (world_step asDur dNew tsNew (SchedStep wk now) w)"
proof -
  note live = live_okD [OF assms(1)]
  define w' where "w' = world_step asDur dNew tsNew (SchedStep wk now) w"
  let ?m = "srv_jobs (server w)" and ?m' = "srv_jobs (server w')"
  obtain p' s' where c: "sched_step dNew wk now (sched_at w) (server w) = (p', s')" by fastforce
  then have w': "w' = w\<lparr>server := server w', sched_at := p'\<rparr>" "server w' = s'" by (simp_all add: w'_def)
  have clm: "claim w' = (claim w)(TheScheduler := sched_claim p')"
    by (subst w'(1)) (rule claim_after_step(2) [OF assms], simp_all add: w'_def)
  have cl: "claim w TheScheduler = sched_claim (sched_at w)" by (simp add: claim_def)
  have "\<not> claims (running_gang ?m) (claim w) jid x"
    if "sched_at w = SchedPeek" "fmlookup (jobs ?m) jid = Some j" "job_Status j = StatusPending" for jid j x
    using that by (intro pending_unclaimed assms(1)) simp_all
  from sched_moves [where a = TheScheduler, OF live(2) cl live(5-7) c this]
  have mv: "owned (running_gang ?m') (claim w') (srv_registry (server w'))" "sched_free (running_gang ?m') (claim w') p'"
    by (simp_all add: w'(2) clm)
  have "reads_ok ?m' q" if "fmlookup (calls w) j = Some q" for j q
    using live_ok_others [OF assms that] by (simp add: w'_def)
  moreover have "sched_at w' = p'" "mon_at w' = mon_at w" "calls w' = calls w" by (subst w'(1), simp)+
  moreover have "world_ok w'" "jm_later ?m ?m'" unfolding w'_def by (rule world_ok_step [OF live(1)], rule world_later [OF live(1)])
  ultimately have "live_ok w'" using mv mon_ok_later [OF live(4)] by (auto simp: live_ok_def)
  then show ?thesis by (simp add: w'_def)
qed

lemma live_ok_MonStep:
  assumes "live_ok w" "\<not> disturbs asDur dNew tsNew (MonStep ca ks now) w"
  shows "live_ok (world_step asDur dNew tsNew (MonStep ca ks now) w)"
proof -
  note live = live_okD [OF assms(1)]
  define w' where "w' = world_step asDur dNew tsNew (MonStep ca ks now) w"
  let ?m = "srv_jobs (server w)" and ?m' = "srv_jobs (server w')"
  obtain p' s' where c: "mon_step ca ks now (mon_at w) (server w) = (p', s')" by fastforce
  then have w': "w' = w\<lparr>server := server w', mon_at := p'\<rparr>" "server w' = s'" by (simp_all add: w'_def)
  have clm: "claim w' = (claim w)(TheMonitor := mon_claim p')"
    by (subst w'(1)) (rule claim_after_step(3) [OF assms], simp_all add: w'_def)
  have cl: "claim w TheMonitor = mon_claim (mon_at w)" by (simp add: claim_def)
  have "\<not> lost_idle_job ?m (mon_at w)" using assms(2) by (simp add: disturbs_def Let_def)
  then have "running_gang ?m (CurrentJobID n) \<noteq> None"
    if "mon_at w = MonDead seen (n # dead)" "CurrentJobID n \<noteq> []" "CurrentJobID n |\<notin>| seen" for seen n dead
    using that by simp
  from mon_moves [where a = TheMonitor, OF live(2) cl live(4) c this]
  have mv: "moves (running_gang ?m) (claim w) (srv_registry (server w)) (running_gang ?m') (claim w') (srv_registry (server w'))"
    "mon_ok ?m' p'"
    by (simp_all add: w'(2) clm)
  have "reads_ok ?m' q" if "fmlookup (calls w) j = Some q" for j q
    using live_ok_others [OF assms that] by (simp add: w'_def)
  moreover have "sched_at w' = sched_at w" "mon_at w' = p'" "calls w' = calls w" by (subst w'(1), simp)+
  moreover have "world_ok w'" unfolding w'_def by (rule world_ok_step [OF live(1)])
  ultimately have "live_ok w'" using mv sched_free_moves [OF mv(1) live(5)] by (auto simp: live_ok_def moves_def)
  then show ?thesis by (simp add: w'_def)
qed

lemma live_ok_step:
  assumes "live_ok w" "\<not> disturbs asDur dNew tsNew e w"
  shows "live_ok (world_step asDur dNew tsNew e w)"
proof (cases e)
  case (CallStep k i)
  with assms show ?thesis by (cases "fmlookup (calls w) k") (simp, metis live_ok_CallStep)
qed (use assms in \<open>metis live_ok_Arrive live_ok_SchedStep live_ok_MonStep\<close>)+

lemma live_ok_run: "live_ok w \<Longrightarrow> undisturbed asDur dNew tsNew es w \<Longrightarrow> live_ok (world_run asDur dNew tsNew es w)"
  by (induction es arbitrary: w) (simp_all add: live_ok_step)

section \<open>What it means for jobs and nodes\<close>

lemma live_running:
  assumes "live_ok w" "fmlookup (jobs (srv_jobs (server w))) jid = Some j" "job_Status j = StatusRunning"
  shows "distinct (AssignedNodeIDs j)" "int (length (AssignedNodeIDs j)) = NodesRequired (Resources (job_Spec j))"
    "\<forall>k \<in> set (AssignedNodeIDs j). \<exists>n. fmlookup (nodes (srv_registry (server w))) k = Some n \<and> CurrentJobID n = jid \<and>
       AllocatedCPUs n = CPUsPerNode (Resources (job_Spec j))"
proof -
  note live = live_okD [OF assms(1)]
  from owned_running [OF live(2) running_gang_of [OF assms(2,3), unfolded job_gang_def]]
  show "distinct (AssignedNodeIDs j)" "\<forall>k \<in> set (AssignedNodeIDs j). \<exists>n. fmlookup (nodes (srv_registry (server w))) k = Some n \<and>
      CurrentJobID n = jid \<and> AllocatedCPUs n = CPUsPerNode (Resources (job_Spec j))"
    by (auto simp: load_def)
  show "int (length (AssignedNodeIDs j)) = NodesRequired (Resources (job_Spec j))"
    using comps_okD(3) [OF live(6)] assms(2,3) by (simp add: sized_def)
qed

lemma live_node:
  assumes "live_ok w" "fmlookup (nodes (srv_registry (server w))) k = Some n"
  shows "if CurrentJobID n = [] then AllocatedCPUs n = 0
    else (\<exists>j. fmlookup (jobs (srv_jobs (server w))) (CurrentJobID n) = Some j \<and> job_Status j = StatusRunning \<and>
           k \<in> set (AssignedNodeIDs j) \<and> AllocatedCPUs n = CPUsPerNode (Resources (job_Spec j))) \<or>
         (\<exists>!a. \<exists>ids. claim w a = Some (CurrentJobID n, ids, AllocatedCPUs n) \<and> k \<in> set ids)"
proof (cases "CurrentJobID n = []")
  case True
  have "load (srv_registry (server w)) k = Some (CurrentJobID n, AllocatedCPUs n)" using assms(2) by (simp add: load_def)
  from owned_node [OF live_okD(2) [OF assms(1)] this] True show ?thesis by simp
next
  case False
  let ?m = "srv_jobs (server w)"
  note own = live_okD(2) [OF assms(1)]
  have "load (srv_registry (server w)) k = Some (CurrentJobID n, AllocatedCPUs n)" using assms(2) by (simp add: load_def)
  from owned_node [OF own this] False
  obtain ids where ids: "k \<in> set ids" "claims (running_gang ?m) (claim w) (CurrentJobID n) (ids, AllocatedCPUs n)"
    by auto
  then consider "running_gang ?m (CurrentJobID n) = Some (ids, AllocatedCPUs n)"
    | a where "claim w a = Some (CurrentJobID n, ids, AllocatedCPUs n)" unfolding claims_def by blast
  then show ?thesis
  proof cases
    case 1
    with ids(1) False show ?thesis by (auto simp: running_gang_def split: option.splits if_splits)
  next
    case (2 a)
    have "b = a" if "\<exists>ids. claim w b = Some (CurrentJobID n, ids, AllocatedCPUs n) \<and> k \<in> set ids" for b
      using that exclusive_once [OF owned_exclusive [OF own] _ 2] by blast
    with 2 ids(1) False show ?thesis by (metis (no_types, lifting))
  qed
qed

lemma live_unclaimed:
  assumes "live_ok w" "\<forall>a. claim w a = None"
  shows "srv_inv (server w)"
proof -
  let ?m = "srv_jobs (server w)"
  note live = live_okD [OF assms(1)]
  from ownedE [OF live(2)] obtain g where g: "placed g (srv_registry (server w))"
      "\<And>jid x. g jid = Some x \<longleftrightarrow> claims (running_gang ?m) (claim w) jid x"
    by metis
  have "g jid = running_gang ?m jid" for jid
  proof -
    have "g jid = Some x \<longleftrightarrow> running_gang ?m jid = Some x" for x unfolding g(2) claims_def using assms(2) by simp
    then show ?thesis by (cases "g jid") (metis not_Some_eq)+
  qed
  then have "g = running_gang ?m" by (rule ext)
  with g(1) comps_okD [OF live(6)] show ?thesis by (simp add: srv_inv_def sys_ok_def)
qed

section \<open>Properties\<close>

text \<open>C2.  The gangs of the controller under every interleaving of its threads, call by call.  As long as no
  job changes status under a handler that has read it and no lost node carries a job that is not
  running, at every moment each running job holds exactly as many distinct nodes as it requires, each
  carrying that job and just its CPUs; and every node is free with nothing allocated, or carries a
  running job whose gang it belongs to, or is in the hands of the one thread that is about to start or to
  release its gang.  When no thread has a gang in hand, the invariant of the atomic controller holds.\<close>

theorem gangs_survive_interleaving:
  assumes "undisturbed asDur dNew tsNew es (world_main timeout)" "w = world_run asDur dNew tsNew es (world_main timeout)"
  shows "(\<forall>jid j. fmlookup (jobs (srv_jobs (server w))) jid = Some j \<longrightarrow> job_Status j = StatusRunning \<longrightarrow>
      distinct (AssignedNodeIDs j) \<and> int (length (AssignedNodeIDs j)) = NodesRequired (Resources (job_Spec j)) \<and>
      (\<forall>k \<in> set (AssignedNodeIDs j). \<exists>n. fmlookup (nodes (srv_registry (server w))) k = Some n \<and>
         CurrentJobID n = jid \<and> AllocatedCPUs n = CPUsPerNode (Resources (job_Spec j)))) \<and>
   (\<forall>k n. fmlookup (nodes (srv_registry (server w))) k = Some n \<longrightarrow>
      (if CurrentJobID n = [] then AllocatedCPUs n = 0
       else (\<exists>j. fmlookup (jobs (srv_jobs (server w))) (CurrentJobID n) = Some j \<and> job_Status j = StatusRunning \<and>
              k \<in> set (AssignedNodeIDs j) \<and> AllocatedCPUs n = CPUsPerNode (Resources (job_Spec j))) \<or>
            (\<exists>!a. \<exists>ids. claim w a = Some (CurrentJobID n, ids, AllocatedCPUs n) \<and> k \<in> set ids))) \<and>
   ((\<forall>a. claim w a = None) \<longrightarrow> srv_inv (server w))"
proof -
  have "live_ok w" unfolding assms(2) by (rule live_ok_run [OF live_ok_main assms(1)])
  from live_running [OF this] live_node [OF this] live_unclaimed [OF this] show ?thesis by blast
qed

text \<open>A run in which a registration, two handlers and the scheduler interleave; at its end a cancellation has
  job-1's node in hand, and the scheduler has not sent the work yet.\<close>

definition sample_input :: "instant \<Rightarrow> input" where
  "sample_input t = \<lparr>in_now = t, in_order = [], in_case = CtxDone\<rparr>"

definition sample_events :: "int event list" where
  "sample_events =
     [Arrive 0 (RegisterNodeReq (Some sample_node_request)), Arrive 1 (SubmitJobReq (Some sample_request)),
      CallStep 1 (sample_input 1), CallStep 0 (sample_input 2), SchedStep WakeTick 3, CallStep 1 (sample_input 4),
      SchedStep WakeTick 5, SchedStep WakeTick 6, CallStep 0 (sample_input 7), SchedStep WakeTick 8,
      CallStep 1 (sample_input 9), SchedStep WakeTick 10, CallStep 1 (sample_input 11), SchedStep WakeTick 12,
      Arrive 2 (CancelJobReq (Some \<lparr>CancelJobRequest_JobId = ''job-1''\<rparr>)), CallStep 2 (sample_input 13),
      SchedStep WakeTick 14, CallStep 2 (sample_input 15)]"

definition sample_world :: "(int, int) World" where
  "sample_world = world_run (\<lambda>d. d) (\<lambda>d. d) (\<lambda>t. t) sample_events (world_main 0)"

lemma sample_undisturbed: "undisturbed (\<lambda>d. d) (\<lambda>d. d) (\<lambda>t. t) sample_events (world_main 0 :: (int, int) World)"
  by code_simp

lemma sample_world_state:
  "job_status (server sample_world) ''job-1'' = Some StatusCancelled"
  "map_option CurrentJobID (fmlookup (nodes (srv_registry (server sample_world))) ''n1'') = Some ''job-1''"
  by code_simp+

theorem gangs_survive_interleaving_witness:
  "job_status (server sample_world) ''job-1'' = Some StatusCancelled \<and>
   (\<exists>n. fmlookup (nodes (srv_registry (server sample_world))) ''n1'' = Some n \<and>
     (\<exists>!a. \<exists>ids. claim sample_world a = Some (''job-1'', ids, AllocatedCPUs n) \<and> ''n1'' \<in> set ids))"
proof -
  obtain n where n: "fmlookup (nodes (srv_registry (server sample_world))) ''n1'' = Some n" "CurrentJobID n = ''job-1''"
    using sample_world_state(2) by auto
  obtain j where j: "fmlookup (jobs (srv_jobs (server sample_world))) ''job-1'' = Some j" "job_Status j = StatusCancelled"
    using sample_world_state(1) by (auto simp: job_status_def)
  note nd = gangs_survive_interleaving [OF sample_undisturbed sample_world_def, THEN conjunct2, THEN conjunct1, rule_format, OF n(1)]
  have "\<exists>!a. \<exists>ids. claim sample_world a = Some (''job-1'', ids, AllocatedCPUs n) \<and> ''n1'' \<in> set ids"
    using nd unfolding n(2) by (simp add: j)
  with n(1) sample_world_state(1) show ?thesis by blast
qed

text \<open>C15.  What holds however the threads run, disturbed or not: every stored job is well-formed, in the queue
  exactly when it is pending, and a running job has as many nodes as it requires; no node's count of
  allocated CPUs is negative or overflows; a job that has ended never changes again and no job is lost.\<close>

theorem components_survive_interleaving:
  assumes "w = world_run asDur dNew tsNew es (world_main timeout)" "w' = world_run asDur dNew tsNew es' w"
    and "fmlookup (jobs (srv_jobs (server w))) jid = Some j"
  shows "job_ID j = jid \<and> jid \<noteq> [] \<and> Valid (job_Status j) \<and> Spec_Validate (job_Spec j) = None \<and>
    (jid \<in> set (pending (srv_jobs (server w))) \<longleftrightarrow> job_Status j = StatusPending) \<and> distinct (pending (srv_jobs (server w))) \<and>
    (job_Status j = StatusRunning \<longrightarrow> int (length (AssignedNodeIDs j)) = NodesRequired (Resources (job_Spec j))) \<and>
    (\<forall>k n. fmlookup (nodes (srv_registry (server w))) k = Some n \<longrightarrow> node_ID n = k \<and> 0 \<le> AllocatedCPUs n \<and> in_int64 (AllocatedCPUs n)) \<and>
    (\<exists>j'. fmlookup (jobs (srv_jobs (server w'))) jid = Some j' \<and> job_Spec j' = job_Spec j \<and>
       (Terminal (job_Status j) \<longrightarrow> j' = j))"
proof -
  have ok: "world_ok w" unfolding assms(1) by (rule world.inv_run)
  then have c: "comps_ok (server w)" by (simp add: world_ok_def)
  note comps = comps_okD [OF c]
  have "jm_later (srv_jobs (server w)) (srv_jobs (server w'))" unfolding assms(2) by (rule world.later_from [OF ok])
  with assms(3) obtain j' where j': "fmlookup (jobs (srv_jobs (server w'))) jid = Some j'" "job_step\<^sup>*\<^sup>* j j'"
    by (auto simp: jm_later_def jobs_later_def)
  have "\<forall>k n. fmlookup (nodes (srv_registry (server w))) k = Some n \<longrightarrow> node_ID n = k \<and> 0 \<le> AllocatedCPUs n \<and> in_int64 (AllocatedCPUs n)"
    using reg_invD [OF comps(4)] reg_cpusD [OF comps(5)] by (auto simp: cpus_ok_def)
  moreover have "jid \<noteq> []" using assms(3) comps(2) by auto
  moreover have "job_ID j = jid" "Valid (job_Status j)" using comps(1) assms(3) by (simp_all add: jm_inv_def)
  moreover have "Spec_Validate (job_Spec j) = None"
    "job_Status j = StatusRunning \<longrightarrow> int (length (AssignedNodeIDs j)) = NodesRequired (Resources (job_Spec j))"
    using comps(3) assms(3) by (simp_all add: sized_def)
  moreover have "jid \<in> set (pending (srv_jobs (server w))) \<longleftrightarrow> job_Status j = StatusPending"
    using jm_inv_pending [OF comps(1)] assms(3) by (simp add: is_job_def)
  moreover have "job_Spec j' = job_Spec j" "Terminal (job_Status j) \<longrightarrow> j' = j"
    using job_steps_frame [OF j'(2)] job_steps_terminal [OF j'(2)] by simp_all
  ultimately show ?thesis using j'(1) jm_inv_distinct [OF comps(1)] by blast
qed

theorem components_survive_interleaving_witness:
  "\<exists>j. fmlookup (jobs (srv_jobs (server sample_world))) ''job-1'' = Some j \<and> job_Status j = StatusCancelled \<and>
     (\<forall>es. fmlookup (jobs (srv_jobs (server (world_run (\<lambda>d. d) (\<lambda>d. d) (\<lambda>t. t) es sample_world)))) ''job-1'' = Some j)"
proof -
  obtain j where j: "fmlookup (jobs (srv_jobs (server sample_world))) ''job-1'' = Some j" "job_Status j = StatusCancelled"
    using sample_world_state(1) by (auto simp: job_status_def)
  from components_survive_interleaving [OF sample_world_def refl j(1)] j show ?thesis by fastforce
qed

end
