(* ===== verification/Submissions.thy ===== *)
theory Submissions
  imports Interleaving
begin

text \<open>
  Submissions that run at the same time, call by call (\<open>SubmitJob\<close> of
  \<open>src/internal/controller/server.go\<close> as \<open>Threads\<close> cuts it).  The name of a job is taken from an atomic
  counter before the job is stored, so another thread may store, list or cancel jobs in between; the
  invariant \<open>names_ok\<close> follows a name from the counter to the reply and shows that no other thread
  can get in its way.
\<close>

section \<open>The way of a name\<close>

fun sub_name :: "('dur, 'ts) pc \<Rightarrow> string option" where
  "sub_name (SubmitStore jid spec) = Some jid"
| "sub_name (SubmitKick jid) = Some jid"
| "sub_name (SubmitGet jid) = Some jid"
| "sub_name (Returned (SubmitJobReply (Inr resp))) = map_option Job_Id (SubmitJobResponse_Job resp)"
| "sub_name p = None"

text \<open>A name that waits to be stored is free; after that it stays taken; the reply is about a stored job, as it
  was then.\<close>

fun sub_ok :: "(duration \<Rightarrow> 'dur) \<Rightarrow> (instant \<Rightarrow> 'ts) \<Rightarrow> JobManager \<Rightarrow> ('dur, 'ts) pc \<Rightarrow> bool" where
  "sub_ok dNew tsNew m (SubmitStore jid spec) = (fmlookup (jobs m) jid = None \<and> Spec_Validate spec = None \<and> \<not> blank jid)"
| "sub_ok dNew tsNew m (SubmitKick jid) = (fmlookup (jobs m) jid \<noteq> None)"
| "sub_ok dNew tsNew m (SubmitGet jid) = (fmlookup (jobs m) jid \<noteq> None)"
| "sub_ok dNew tsNew m (Returned (SubmitJobReply r)) = (case r of
     Inl e \<Rightarrow> fst e = InvalidArgument
   | Inr resp \<Rightarrow> \<exists>j0 j. resp = \<lparr>SubmitJobResponse_Job = jobToProto dNew tsNew (Some j0)\<rparr> \<and>
       fmlookup (jobs m) (job_ID j0) = Some j \<and> job_step\<^sup>*\<^sup>* j0 j)"
| "sub_ok dNew tsNew m p = True"

lemma Job_Id_of: "map_option Job_Id (jobToProto dNew tsNew (Some j)) = Some (job_ID j)"
  by (simp add: jobToProto_def)

lemma later_stored: "jm_later m m' \<Longrightarrow> fmlookup (jobs m) jid = Some j \<Longrightarrow> \<exists>j'. fmlookup (jobs m') jid = Some j' \<and> job_step\<^sup>*\<^sup>* j j'"
  by (auto simp: jm_later_def jobs_later_def)

lemma sub_ok_later:
  assumes "jm_later m m'" "\<And>jid. sub_name p = Some jid \<Longrightarrow> fmlookup (jobs m) jid = None \<Longrightarrow> fmlookup (jobs m') jid = None"
    and "sub_ok dNew tsNew m p"
  shows "sub_ok dNew tsNew m' p"
proof (cases "(dNew, tsNew, m, p)" rule: sub_ok.cases)
  case (4 dNew' tsNew' m0 r)
  with assms(3) show ?thesis
    by (auto split: sum.splits) (metis (no_types, lifting) later_stored [OF assms(1)] rtranclp_trans)
qed (use assms in \<open>auto dest: later_stored\<close>)

text \<open>The calls of the other handlers, of the scheduler and of the monitor store no job and take no name.\<close>

lemma dom_calls:
  "JM_Cancel now jid m = (e1, m1) \<Longrightarrow> fmdom' (jobs m1) = fmdom' (jobs m)"
  "ReportNodeEvent now jid n failed c msg m = (e2, m1) \<Longrightarrow> fmdom' (jobs m1) = fmdom' (jobs m)"
  "JM_MarkRunning now jid ids m = (e2, m1) \<Longrightarrow> fmdom' (jobs m1) = fmdom' (jobs m)"
  "FailRunningJob now jid reason m = (e4, m1) \<Longrightarrow> fmdom' (jobs m1) = fmdom' (jobs m)"
  using dom_Cancel [of now jid m] dom_Report [of now jid n failed c msg m] dom_MarkRunning [of now jid ids m]
    dom_FailRunningJob [of now jid reason m] by simp_all

lemma sched_names:
  "fmdom' (jobs (srv_jobs (snd (sched_step dNew wk now p s)))) = fmdom' (jobs (srv_jobs s)) \<and>
   idSeq (snd (sched_step dNew wk now p s)) = idSeq s"
proof (induction dNew wk now p s rule: sched_step.induct)
qed (auto simp: set_comps_def wake_up_def dest: dom_calls split: option.split prod.split wake.split)

lemma mon_names:
  "fmdom' (jobs (srv_jobs (snd (mon_step c ks now p s)))) = fmdom' (jobs (srv_jobs s)) \<and>
   idSeq (snd (mon_step c ks now p s)) = idSeq s"
proof (induction c ks now p s rule: mon_step.induct)
qed (auto simp: Let_def dest: dom_calls split: option.split prod.split mon_case.split list.split)

text \<open>A step of a handler keeps its name, or takes the next one.\<close>

lemma enter_names:
  assumes "enter asDur dNew tsNew i req s = (p', s')"
  shows "srv_jobs s' = srv_jobs s \<and>
    (sub_name p' = None \<and> idSeq s' = idSeq s \<and> sub_ok dNew tsNew m p' \<or>
     (\<exists>spec. p' = SubmitStore (job_name (idSeq s + 1)) spec \<and> Spec_Validate spec = None \<and> idSeq s' = idSeq s + 1))"
proof (cases req)
  case (SubmitJobReq r)
  have "Spec_Validate spec = None" if "specFromProto asDur (SubmitJobRequest_GetSpec r) = Inr spec" for spec
    using that by (auto simp: spec_accepted_iff Spec_Validate_None_iff split: option.splits)
  with assms SubmitJobReq show ?thesis by (auto simp: Let_def split: sum.splits)
qed (use assms in \<open>auto simp: Let_def split: sum.splits if_splits\<close>)

lemma call_names:
  assumes "call_step asDur dNew tsNew i p s = (p', s')" "jm_inv (srv_jobs s)" "sub_ok dNew tsNew (srv_jobs s) p"
    and "\<forall>req. p \<noteq> Entered req"
  shows "sub_ok dNew tsNew (srv_jobs s') p' \<and> sub_name p' = sub_name p \<and> idSeq s' = idSeq s \<and>
    fmdom' (jobs (srv_jobs s')) \<subseteq> fmdom' (jobs (srv_jobs s)) \<union> set_option (sub_name p)"
proof (cases p)
  case (SubmitStore jid spec)
  with assms(3) obtain j where j: "New_Job (in_now i) jid spec = Inr j" by (auto simp: New_Job_def)
  note new = New_Job_Inr [OF j]
  with assms(1,3) SubmitStore j show ?thesis by (auto simp: Submit_def)
next
  case (SubmitGet jid)
  with assms(3) obtain j where j: "fmlookup (jobs (srv_jobs s)) jid = Some j" by auto
  with assms(2) have "job_ID j = jid" by (auto simp: jm_inv_def)
  with assms(1) SubmitGet j have "s' = s"
    "p' = Returned (SubmitJobReply (Inr \<lparr>SubmitJobResponse_Job = jobToProto dNew tsNew (Some j)\<rparr>))"
    by (simp_all add: JM_Get_def)
  with SubmitGet j \<open>job_ID j = jid\<close> show ?thesis by (auto simp: Job_Id_of)
qed (use assms in \<open>auto simp: Let_def dest: dom_calls split: sum.splits option.splits prod.splits list.splits if_splits
      watch_case.splits recv.splits\<close>)

section \<open>The invariant\<close>

definition issued :: "64 word \<Rightarrow> string \<Rightarrow> bool" where
  "issued c jid \<longleftrightarrow> (\<exists>i \<le> unat c. jid = ''job-'' @ nat_digits i)"

definition names_ok :: "(duration \<Rightarrow> 'dur) \<Rightarrow> (instant \<Rightarrow> 'ts) \<Rightarrow> ('dur, 'ts) World \<Rightarrow> bool" where
  "names_ok dNew tsNew w \<longleftrightarrow>
     (\<forall>jid. jid \<in> fmdom' (jobs (srv_jobs (server w))) \<longrightarrow> issued (idSeq (server w)) jid) \<and>
     (\<forall>k p. fmlookup (calls w) k = Some p \<longrightarrow>
        sub_ok dNew tsNew (srv_jobs (server w)) p \<and> (\<forall>jid. sub_name p = Some jid \<longrightarrow> issued (idSeq (server w)) jid)) \<and>
     (\<forall>k k' p p' jid. fmlookup (calls w) k = Some p \<longrightarrow> fmlookup (calls w) k' = Some p' \<longrightarrow>
        sub_name p = Some jid \<longrightarrow> sub_name p' = Some jid \<longrightarrow> k = k')"

lemma names_okD:
  assumes "names_ok dNew tsNew w"
  shows "jid \<in> fmdom' (jobs (srv_jobs (server w))) \<Longrightarrow> issued (idSeq (server w)) jid"
    "fmlookup (calls w) k = Some p \<Longrightarrow> sub_ok dNew tsNew (srv_jobs (server w)) p"
    "fmlookup (calls w) k = Some p \<Longrightarrow> sub_name p = Some jid \<Longrightarrow> issued (idSeq (server w)) jid"
    "fmlookup (calls w) k = Some p \<Longrightarrow> fmlookup (calls w) k' = Some p' \<Longrightarrow> sub_name p = Some jid \<Longrightarrow>
     sub_name p' = Some jid \<Longrightarrow> k = k'"
  using assms unfolding names_ok_def by blast+

lemma job_name_nonblank: "\<not> blank (job_name n)"
  unfolding job_name_def by (rule job_name_ok)

lemma issued_next:
  assumes "unat c + 1 < 2 ^ 64"
  shows "issued (c + 1) (job_name (c + 1))" "issued c jid \<Longrightarrow> issued (c + 1) jid" "\<not> issued c (job_name (c + 1))"
  unfolding issued_def using unat_Suc_word [OF assms] by (auto simp: job_name_def nat_digits_inj)

text \<open>Steps that store no job and take no name.\<close>

lemma names_ok_quiet:
  assumes "names_ok dNew tsNew w" "jm_later (srv_jobs (server w)) (srv_jobs s')" "idSeq s' = idSeq (server w)"
    and "fmdom' (jobs (srv_jobs s')) = fmdom' (jobs (srv_jobs (server w)))"
    and "server w' = s'" "calls w' = calls w"
  shows "names_ok dNew tsNew w'"
proof -
  note ok = names_okD [OF assms(1)]
  have "fmlookup (jobs (srv_jobs (server w))) jid = None \<Longrightarrow> fmlookup (jobs (srv_jobs s')) jid = None" for jid
    using assms(4) by (metis mem_fmdom')
  then have "sub_ok dNew tsNew (srv_jobs s') p" if "fmlookup (calls w) k = Some p" for k p
    by (intro sub_ok_later [OF assms(2) _ ok(2) [OF that]])
  with ok(1,3,4) show ?thesis unfolding names_ok_def assms(3-6) by blast
qed

text \<open>A handler's step: its own place changes, the others see the jobs it stored.\<close>

lemma names_ok_call:
  assumes "names_ok dNew tsNew w" "jm_inv (srv_jobs (server w))" "unat (idSeq (server w)) + 1 < 2 ^ 64"
    and "fmlookup (calls w) k = Some p" "call_step asDur dNew tsNew i p (server w) = (p', s')"
    and "jm_later (srv_jobs (server w)) (srv_jobs s')"
  shows "names_ok dNew tsNew (w\<lparr>server := s', calls := fmupd k p' (calls w)\<rparr>)"
proof -
  let ?s = "server w" and ?D = "fmdom' (jobs (srv_jobs (server w)))"
  note ok = names_okD [OF assms(1)]
  have "sub_ok dNew tsNew (srv_jobs s') p' \<and>
      (sub_name p' = sub_name p \<and> idSeq s' = idSeq ?s \<or>
       sub_name p' = Some (job_name (idSeq ?s + 1)) \<and> idSeq s' = idSeq ?s + 1 \<and> sub_name p = None) \<and>
      fmdom' (jobs (srv_jobs s')) \<subseteq> ?D \<union> set_option (sub_name p)"
  proof (cases "\<exists>req. p = Entered req")
    case True
    with assms(5) obtain req where e: "p = Entered req" "enter asDur dNew tsNew i req ?s = (p', s')" by auto
    have "fmlookup (jobs (srv_jobs ?s)) (job_name (idSeq ?s + 1)) = None"
      using ok(1) issued_next(3) [OF assms(3)] by (metis mem_fmdom')
    with enter_names [OF e(2), of "srv_jobs s'"] e(1) job_name_nonblank show ?thesis by auto
  next
    case False
    with call_names [OF assms(5,2) ok(2) [OF assms(4)]] show ?thesis by blast
  qed
  note step = this
  have dom: "jid \<in> fmdom' (jobs (srv_jobs s')) \<Longrightarrow> jid \<in> ?D \<or> sub_name p = Some jid" for jid
    using step by (cases "sub_name p") auto
  have iss: "issued (idSeq s') jid" if "issued (idSeq ?s) jid" for jid
    using step that issued_next(2) [OF assms(3)] by auto
  have own: "issued (idSeq s') jid" if "sub_name p' = Some jid" for jid
    using step that ok(3) [OF assms(4)] issued_next(1) [OF assms(3)] by auto
  have apart: "sub_name q \<noteq> Some jid" if "fmlookup (calls w) k' = Some q" "k' \<noteq> k" "sub_name p' = Some jid" for k' q jid
  proof
    assume q: "sub_name q = Some jid"
    with that(1,2) ok(4) [OF that(1) assms(4) q] have "sub_name p \<noteq> Some jid" by blast
    with step that(3) have "jid = job_name (idSeq ?s + 1)" by auto
    with ok(3) [OF that(1) q] issued_next(3) [OF assms(3)] show False by simp
  qed
  have "sub_ok dNew tsNew (srv_jobs s') q" if "fmlookup (calls w) k' = Some q" "k' \<noteq> k" for k' q
  proof (rule sub_ok_later [OF assms(6) _ ok(2) [OF that(1)]])
    fix jid
    assume "sub_name q = Some jid" "fmlookup (jobs (srv_jobs ?s)) jid = None"
    moreover have "sub_name p \<noteq> Some jid" using ok(4) [OF that(1) assms(4) \<open>sub_name q = Some jid\<close>] that(2) by blast
    ultimately show "fmlookup (jobs (srv_jobs s')) jid = None" using dom [of jid] by (metis mem_fmdom')
  qed
  moreover have "issued (idSeq s') jid" if "jid \<in> fmdom' (jobs (srv_jobs s'))" for jid
    using dom [OF that] ok(1) ok(3) [OF assms(4)] iss by blast
  moreover have "issued (idSeq s') jid" if "fmlookup (calls w) k' = Some q" "sub_name q = Some jid" for k' q jid
    using ok(3) [OF that] iss by blast
  ultimately show ?thesis using step own apart ok(4) unfolding names_ok_def by (auto split: if_splits)
qed

lemma one_count:
  assumes "unat (idSeq s) + 1 < 2 ^ 64" "call_step asDur dNew tsNew i p s = (p', s')"
  shows "unat (idSeq s') \<le> unat (idSeq s) + 1"
proof -
  have "idSeq s' = idSeq s \<or> idSeq s' = idSeq s + 1"
    using call_section [of s asDur dNew tsNew i p] assms(2)
    by (auto elim!: one_section.cases simp: set_comps_def)
  then show ?thesis using unat_Suc_word [OF assms(1)] by auto
qed

lemma names_ok_step:
  assumes "names_ok dNew tsNew w" "world_ok w" "unat (idSeq (server w)) + 1 < 2 ^ 64"
  shows "names_ok dNew tsNew (world_step asDur dNew tsNew e w) \<and>
    unat (idSeq (server (world_step asDur dNew tsNew e w))) \<le> unat (idSeq (server w)) + 1"
proof -
  have later: "jm_later (srv_jobs (server w)) (srv_jobs (server (world_step asDur dNew tsNew e w)))"
    by (rule world_later [OF assms(2)])
  have inv: "jm_inv (srv_jobs (server w))" using assms(2) by (simp add: world_ok_def comps_ok_def)
  show ?thesis
  proof (cases e)
    case (Arrive k req)
    with assms(1) show ?thesis unfolding names_ok_def by (auto split: if_splits)
  next
    case (CallStep k i)
    show ?thesis
    proof (cases "fmlookup (calls w) k")
      case None
      with CallStep assms(1) show ?thesis by simp
    next
      case (Some p)
      obtain p' s' where c: "call_step asDur dNew tsNew i p (server w) = (p', s')" by fastforce
      have "unat (idSeq s') \<le> unat (idSeq (server w)) + 1"
        using one_count [OF assms(3) c] .
      with names_ok_call [OF assms(1) inv assms(3) Some c] later CallStep Some c show ?thesis by simp
    qed
  next
    case (SchedStep wk now)
    with sched_names [of dNew wk now "sched_at w" "server w"] names_ok_quiet [OF assms(1) later] later show ?thesis
      by (simp add: split_beta)
  next
    case (MonStep c ks now)
    with mon_names [of c ks now "mon_at w" "server w"] names_ok_quiet [OF assms(1) later] later show ?thesis
      by (simp add: split_beta)
  qed
qed

lemma names_ok_run:
  "length es < 2 ^ 64 \<Longrightarrow> names_ok dNew tsNew (world_run asDur dNew tsNew es (world_main timeout)) \<and>
   unat (idSeq (server (world_run asDur dNew tsNew es (world_main timeout)))) \<le> length es"
proof (induction es rule: rev_induct)
  case Nil
  then show ?case by (simp add: names_ok_def world_main_def controller_main_def New_Server_def Let_def Make_Scheduler_def Make_JobManager_def split_beta)
next
  case (snoc e es)
  let ?w = "world_run asDur dNew tsNew es (world_main timeout)"
  from snoc have IH: "names_ok dNew tsNew ?w" "unat (idSeq (server ?w)) \<le> length es" by simp_all
  then have "unat (idSeq (server ?w)) + 1 < 2 ^ 64" using snoc.prems by simp
  with names_ok_step [OF IH(1) world.inv_run this, of asDur e] IH(2) show ?case by simp
qed

section \<open>Properties\<close>

text \<open>C14.  Submissions that run at the same time do not collide, whatever else runs in between (in fewer than
  \<open>2 ^ 64\<close> steps): a call of \<open>SubmitJob\<close> never ends with an internal error; it refuses the request, or its
  answer describes a job that is stored under a name no other call was answered with, and that has only
  moved forward since.\<close>

theorem submissions_never_collide:
  assumes "w = world_run asDur dNew tsNew es (world_main timeout)" "length es < 2 ^ 64"
    and "fmlookup (calls w) k = Some (Returned (SubmitJobReply r))"
  shows "(\<exists>msg. r = Inl (InvalidArgument, msg)) \<or>
    (\<exists>j0 j. r = Inr \<lparr>SubmitJobResponse_Job = jobToProto dNew tsNew (Some j0)\<rparr> \<and>
       fmlookup (jobs (srv_jobs (server w))) (job_ID j0) = Some j \<and> job_step\<^sup>*\<^sup>* j0 j \<and>
       (\<forall>k' j'. fmlookup (calls w) k' =
            Some (Returned (SubmitJobReply (Inr \<lparr>SubmitJobResponse_Job = jobToProto dNew tsNew (Some j')\<rparr>))) \<longrightarrow>
          k' \<noteq> k \<longrightarrow> job_ID j' \<noteq> job_ID j0))"
proof -
  have "names_ok dNew tsNew w" using names_ok_run [OF assms(2)] unfolding assms(1) by blast
  note ok = names_okD [OF this]
  show ?thesis
  proof (cases r)
    case (Inl e)
    with ok(2) [OF assms(3)] show ?thesis by (cases e) simp
  next
    case (Inr resp)
    with ok(2) [OF assms(3)] obtain j0 j where j: "r = Inr \<lparr>SubmitJobResponse_Job = jobToProto dNew tsNew (Some j0)\<rparr>"
        "fmlookup (jobs (srv_jobs (server w))) (job_ID j0) = Some j" "job_step\<^sup>*\<^sup>* j0 j"
      by auto
    have "job_ID j' \<noteq> job_ID j0"
      if "fmlookup (calls w) k' = Some (Returned (SubmitJobReply (Inr \<lparr>SubmitJobResponse_Job = jobToProto dNew tsNew (Some j')\<rparr>)))"
        "k' \<noteq> k" for k' j'
      using ok(4) [OF that(1) assms(3)] that(2) by (auto simp: j(1) Job_Id_of)
    with j show ?thesis by blast
  qed
qed

text \<open>Two submissions whose steps alternate.\<close>

definition racing_events :: "int event list" where
  "racing_events =
     [Arrive 0 (SubmitJobReq (Some sample_request)), Arrive 1 (SubmitJobReq (Some sample_request)),
      CallStep 0 (sample_input 1), CallStep 1 (sample_input 2), CallStep 1 (sample_input 3), CallStep 0 (sample_input 4),
      CallStep 0 (sample_input 5), CallStep 1 (sample_input 6), CallStep 1 (sample_input 7), CallStep 0 (sample_input 8)]"

definition racing_world :: "(int, int) World" where
  "racing_world = world_run (\<lambda>d. d) (\<lambda>d. d) (\<lambda>t. t) racing_events (world_main 0)"

definition answered :: "('dur, 'ts) World \<Rightarrow> nat \<Rightarrow> bool" where
  "answered w k = (case fmlookup (calls w) k of Some (Returned (SubmitJobReply (Inr resp))) \<Rightarrow> True | _ \<Rightarrow> False)"

lemma answeredD: "answered w k \<Longrightarrow> \<exists>resp. fmlookup (calls w) k = Some (Returned (SubmitJobReply (Inr resp)))"
  by (auto simp: answered_def split: option.splits pc.splits reply.splits sum.splits)

lemma racing_answers: "answered racing_world 0" "answered racing_world 1"
  by code_simp+

theorem submissions_never_collide_witness:
  "\<exists>j0 j1. fmlookup (calls racing_world) 0 =
       Some (Returned (SubmitJobReply (Inr \<lparr>SubmitJobResponse_Job = jobToProto (\<lambda>d. d) (\<lambda>t. t) (Some j0)\<rparr>))) \<and>
     fmlookup (calls racing_world) 1 =
       Some (Returned (SubmitJobReply (Inr \<lparr>SubmitJobResponse_Job = jobToProto (\<lambda>d. d) (\<lambda>t. t) (Some j1)\<rparr>))) \<and>
     job_ID j1 \<noteq> job_ID j0"
proof -
  obtain r0 r1 where r: "fmlookup (calls racing_world) 0 = Some (Returned (SubmitJobReply (Inr r0)))"
      "fmlookup (calls racing_world) 1 = Some (Returned (SubmitJobReply (Inr r1)))"
    using racing_answers answeredD by blast
  have len: "length racing_events < 2 ^ 64" by (simp add: racing_events_def)
  from submissions_never_collide [OF racing_world_def len r(2)]
  obtain j1 where "r1 = \<lparr>SubmitJobResponse_Job = jobToProto (\<lambda>d. d) (\<lambda>t. t) (Some j1)\<rparr>" by auto
  moreover from submissions_never_collide [OF racing_world_def len r(1)]
  obtain j0 where "r0 = \<lparr>SubmitJobResponse_Job = jobToProto (\<lambda>d. d) (\<lambda>t. t) (Some j0)\<rparr>"
    "\<forall>k' j'. fmlookup (calls racing_world) k' =
       Some (Returned (SubmitJobReply (Inr \<lparr>SubmitJobResponse_Job = jobToProto (\<lambda>d. d) (\<lambda>t. t) (Some j')\<rparr>))) \<longrightarrow>
       k' \<noteq> 0 \<longrightarrow> job_ID j' \<noteq> job_ID j0" by auto
  ultimately show ?thesis using r by (intro exI [of _ j0] exI [of _ j1]) simp
qed

end
