(* ===== verification/Executor.thy ===== *)
theory Executor
  imports Proto
begin

text \<open>
  The node's executor, \<open>src/internal/node/executor.go\<close>: at most one job runs at a time, under a
  context that \<open>Stop\<close>, the time limit or the agent's shutdown can end.  \<open>Run\<close> blocks in the middle, so
  it is cut at the points where another goroutine can get in: taking the executor, starting the
  process, the process or the context ending, the killed process being reaped, and the deferred
  clean-up.  The operating system (starting the process, its exit, the kill) shows as the events of
  the step relation; \<open>asDur\<close> is \<open>AsDuration\<close>.
\<close>

section \<open>State\<close>

record Result =
  rs_Event :: pb_JobEvent
  rs_ExitCode :: int
  rs_ErrMsg :: string

text \<open>The cancel function is named by the number of the context that it cancels.\<close>

record Executor =
  ex_jobID :: string
  ex_cpus :: int
  ex_cancel :: "nat option"

definition NewExecutor :: Executor where
  "NewExecutor = \<lparr>ex_jobID = [], ex_cpus = 0, ex_cancel = None\<rparr>"

definition Executor_Current :: "Executor \<Rightarrow> string \<times> int" where
  "Executor_Current e = (ex_jobID e, ex_cpus e)"

text \<open>What \<open>Stop\<close> returns, and the context whose cancel function it calls.\<close>

definition Executor_Stop :: "string \<Rightarrow> Executor \<Rightarrow> bool \<times> nat option" where
  "Executor_Stop jobID e =
     (if ex_jobID e = [] \<or> jobID \<noteq> [] \<and> ex_jobID e \<noteq> jobID then (False, None)
      else (True, ex_cancel e))"

definition Executor_clear :: "string \<Rightarrow> Executor \<Rightarrow> Executor" where
  "Executor_clear jobID e =
     (if ex_jobID e = jobID then e\<lparr>ex_jobID := [], ex_cpus := 0, ex_cancel := None\<rparr> else e)"

section \<open>The outcome of a process\<close>

text \<open>An error of \<open>cmd.Wait\<close>: an \<open>exec.ExitError\<close> with its exit code, or another; each with its text.\<close>

datatype wait_error = ExitError int string | WaitError string

definition resultFromWait :: "wait_error option \<Rightarrow> Result" where
  "resultFromWait err = (case err of
     None \<Rightarrow> \<lparr>rs_Event = JOB_EVENT_COMPLETED, rs_ExitCode = 0, rs_ErrMsg = []\<rparr>
   | Some (ExitError c msg) \<Rightarrow> \<lparr>rs_Event = JOB_EVENT_FAILED, rs_ExitCode = c, rs_ErrMsg = msg\<rparr>
   | Some (WaitError msg) \<Rightarrow> \<lparr>rs_Event = JOB_EVENT_FAILED, rs_ExitCode = 1, rs_ErrMsg = msg\<rparr>)"

datatype ctx_state = Live | Canceled | DeadlineExceeded

definition context_result :: "ctx_state \<Rightarrow> Result" where
  "context_result c =
     (if c = DeadlineExceeded
      then \<lparr>rs_Event = JOB_EVENT_FAILED, rs_ExitCode = 1, rs_ErrMsg = ''max duration exceeded''\<rparr>
      else \<lparr>rs_Event = JOB_EVENT_CANCELLED, rs_ExitCode = 1, rs_ErrMsg = ''cancelled''\<rparr>)"

definition failed_result :: "string \<Rightarrow> Result" where
  "failed_result msg = \<lparr>rs_Event = JOB_EVENT_FAILED, rs_ExitCode = 1, rs_ErrMsg = msg\<rparr>"

section \<open>The environment\<close>

text \<open>The key of an entry: what precedes its first \<open>=\<close>.\<close>

fun env_key :: "string \<Rightarrow> string \<Rightarrow> string option" where
  "env_key pre [] = None"
| "env_key pre (c # cs) = (if c = CHR ''='' then Some pre else env_key (pre @ [c]) cs)"

fun seen_loop :: "nat \<Rightarrow> string list \<Rightarrow> (string, nat) fmap \<Rightarrow> (string, nat) fmap" where
  "seen_loop i [] seen = seen"
| "seen_loop i (kv # kvs) seen =
     seen_loop (Suc i) kvs (case env_key [] kv of None \<Rightarrow> seen | Some k \<Rightarrow> fmupd k i seen)"

fun merge_loop :: "(string, string) fmap \<Rightarrow> string list \<Rightarrow> (string, nat) fmap \<Rightarrow> string list \<Rightarrow> string list" where
  "merge_loop extra [] seen out = out"
| "merge_loop extra (k # ks) seen out = (case fmlookup extra k of
     None \<Rightarrow> merge_loop extra ks seen out
   | Some v \<Rightarrow>
       let entry = k @ ''='' @ v
       in (case fmlookup seen k of
             Some i \<Rightarrow> merge_loop extra ks seen (out[i := entry])
           | None \<Rightarrow> merge_loop extra ks (fmupd k (length out) seen) (out @ [entry])))"

text \<open>\<open>ks\<close> is the order in which the loop ranges over \<open>extra\<close>.\<close>

definition mergeEnv :: "string list \<Rightarrow> string list \<Rightarrow> (string, string) fmap \<Rightarrow> string list" where
  "mergeEnv ks base extra =
     (if go_len extra = 0 then base else merge_loop extra ks (seen_loop 0 base fmempty) base)"

text \<open>
  The process that \<open>Run\<close> starts: \<open>environ\<close> is the node's own environment.  It writes to the output and the
  error stream of the agent (given by their descriptors) and leads a process group of its own, which is what a
  kill is sent to.
\<close>

record Cmd =
  cmd_Path :: string
  cmd_Args :: "string list"
  cmd_Env :: "string list"
  cmd_Stdout :: nat
  cmd_Stderr :: nat
  cmd_Setpgid :: bool

definition Run_command :: "string list \<Rightarrow> string list \<Rightarrow> 'dur pb_WorkAssignment option \<Rightarrow> Cmd" where
  "Run_command ks environ a =
     \<lparr>cmd_Path = WorkAssignment_GetCommand a, cmd_Args = WorkAssignment_GetArgs a,
      cmd_Env = mergeEnv ks environ (WorkAssignment_GetEnv a), cmd_Stdout = 1, cmd_Stderr = 2, cmd_Setpgid = True\<rparr>"

section \<open>Runs\<close>

text \<open>A call of \<open>Run\<close> that holds the executor: its job, its context, and how far it has got.\<close>

datatype phase = Starting | Waiting | Killed Result | Done Result

record Run =
  run_job :: string
  run_timed :: bool
  run_ctx :: ctx_state
  run_phase :: phase

record node_state =
  executor :: Executor
  active :: "(nat, Run) fmap"
  next_run :: nat
  parent_done :: bool

definition node_start :: node_state where
  "node_start = \<lparr>executor = NewExecutor, active = fmempty, next_run = 0, parent_done = False\<rparr>"

definition time_limit :: "('dur \<Rightarrow> duration) \<Rightarrow> 'dur pb_WorkAssignment option \<Rightarrow> duration" where
  "time_limit asDur a = (case WorkAssignment_GetMaxDuration a of None \<Rightarrow> 0 | Some d \<Rightarrow> asDur d)"

text \<open>The head of \<open>Run\<close>, to the end of its locked section: a result at once, or the executor is taken.\<close>

definition Run_begin ::
  "('dur \<Rightarrow> duration) \<Rightarrow> 'dur pb_WorkAssignment option \<Rightarrow> node_state \<Rightarrow> Result option \<times> node_state" where
  "Run_begin asDur a s =
     (if a = None \<or> WorkAssignment_GetCommand a = [] then (Some (failed_result ''empty command''), s)
      else if ex_jobID (executor s) \<noteq> [] then (Some (failed_result ''node busy''), s)
      else
        (None, s\<lparr>executor := \<lparr>ex_jobID = WorkAssignment_GetJobId a,
                              ex_cpus = sint (WorkAssignment_GetCpusPerNode a),
                              ex_cancel = Some (next_run s)\<rparr>,
                 active := fmupd (next_run s)
                   \<lparr>run_job = WorkAssignment_GetJobId a, run_timed = (time_limit asDur a > 0),
                    run_ctx = (if parent_done s then Canceled else Live), run_phase = Starting\<rparr> (active s),
                 next_run := next_run s + 1\<rparr>))"

definition set_phase :: "nat \<Rightarrow> Run \<Rightarrow> phase \<Rightarrow> node_state \<Rightarrow> node_state" where
  "set_phase i r p s = s\<lparr>active := fmupd i (r\<lparr>run_phase := p\<rparr>) (active s)\<rparr>"

text \<open>The return: the deferred \<open>clear\<close>, and the cancel function of a context that nobody holds any more.\<close>

definition Run_end :: "nat \<Rightarrow> Run \<Rightarrow> node_state \<Rightarrow> node_state" where
  "Run_end i r s = s\<lparr>executor := Executor_clear (run_job r) (executor s), active := fmdrop i (active s)\<rparr>"

text \<open>Ending a context: the first cause stays.\<close>

definition end_ctx :: "ctx_state \<Rightarrow> Run \<Rightarrow> Run" where
  "end_ctx c r = (if run_ctx r = Live then r\<lparr>run_ctx := c\<rparr> else r)"

definition cancel_ctx :: "nat option \<Rightarrow> (nat, Run) fmap \<Rightarrow> (nat, Run) fmap" where
  "cancel_ctx f rs = (case f of None \<Rightarrow> rs
     | Some i \<Rightarrow> (case fmlookup rs i of None \<Rightarrow> rs | Some r \<Rightarrow> fmupd i (end_ctx Canceled r) rs))"

definition node_stop :: "string \<Rightarrow> node_state \<Rightarrow> bool \<times> node_state" where
  "node_stop jobID s = (case Executor_Stop jobID (executor s) of
     (ok, f) \<Rightarrow> (ok, s\<lparr>active := cancel_ctx f (active s)\<rparr>))"

definition parent_cancel :: "node_state \<Rightarrow> node_state" where
  "parent_cancel s = s\<lparr>active := fmmap (end_ctx Canceled) (active s), parent_done := True\<rparr>"

section \<open>Steps\<close>

datatype 'dur exec_event =
    Call "'dur pb_WorkAssignment option"
  | Refuse "'dur pb_WorkAssignment option" Result
  | Started nat
  | StartFailed nat string
  | Exited nat "wait_error option"
  | Kill nat
  | Reaped nat
  | Return nat Result
  | StopCall string bool
  | TimeUp nat
  | Shutdown

text \<open>
  When the process has exited and the context is done, \<open>select\<close> may take either case, so \<open>Exited\<close> and
  \<open>Kill\<close> are both possible.
\<close>

inductive exec_step ::
  "('dur \<Rightarrow> duration) \<Rightarrow> node_state \<Rightarrow> 'dur exec_event \<Rightarrow> node_state \<Rightarrow> bool"
  for asDur where
  call: "Run_begin asDur a s = (None, s') \<Longrightarrow> exec_step asDur s (Call a) s'"
| refuse: "Run_begin asDur a s = (Some r, s') \<Longrightarrow> exec_step asDur s (Refuse a r) s'"
| started: "fmlookup (active s) i = Some r \<Longrightarrow> run_phase r = Starting \<Longrightarrow>
    exec_step asDur s (Started i) (set_phase i r Waiting s)"
| start_failed: "fmlookup (active s) i = Some r \<Longrightarrow> run_phase r = Starting \<Longrightarrow>
    exec_step asDur s (StartFailed i msg) (set_phase i r (Done (failed_result msg)) s)"
| exited: "fmlookup (active s) i = Some r \<Longrightarrow> run_phase r = Waiting \<Longrightarrow>
    exec_step asDur s (Exited i err) (set_phase i r (Done (resultFromWait err)) s)"
| kill: "fmlookup (active s) i = Some r \<Longrightarrow> run_phase r = Waiting \<Longrightarrow> run_ctx r \<noteq> Live \<Longrightarrow>
    exec_step asDur s (Kill i) (set_phase i r (Killed (context_result (run_ctx r))) s)"
| reaped: "fmlookup (active s) i = Some r \<Longrightarrow> run_phase r = Killed res \<Longrightarrow>
    exec_step asDur s (Reaped i) (set_phase i r (Done res) s)"
| return: "fmlookup (active s) i = Some r \<Longrightarrow> run_phase r = Done res \<Longrightarrow>
    exec_step asDur s (Return i res) (Run_end i r s)"
| stop: "node_stop jobID s = (ok, s') \<Longrightarrow> exec_step asDur s (StopCall jobID ok) s'"
| time_up: "fmlookup (active s) i = Some r \<Longrightarrow> run_timed r \<Longrightarrow>
    exec_step asDur s (TimeUp i) (s\<lparr>active := fmupd i (end_ctx DeadlineExceeded r) (active s)\<rparr>)"
| shutdown: "exec_step asDur s Shutdown (parent_cancel s)"

inductive_cases exec_stepE: "exec_step asDur s e s'"

text \<open>A run of the executor: the events, in order.\<close>

inductive exec_steps ::
  "('dur \<Rightarrow> duration) \<Rightarrow> node_state \<Rightarrow> 'dur exec_event list \<Rightarrow> node_state \<Rightarrow> bool"
  for asDur where
  none: "exec_steps asDur s [] s"
| more: "exec_step asDur s e t \<Longrightarrow> exec_steps asDur t es u \<Longrightarrow> exec_steps asDur s (e # es) u"

inductive_cases exec_steps_NilE: "exec_steps asDur s [] t"
inductive_cases exec_steps_ConsE: "exec_steps asDur s (e # es) t"

section \<open>One job at a time\<close>

text \<open>Idle with nothing active, or the executor's fields describe the one active run.\<close>

definition exec_ok :: "node_state \<Rightarrow> bool" where
  "exec_ok s \<longleftrightarrow>
     (if ex_jobID (executor s) = [] then executor s = NewExecutor \<and> active s = fmempty
      else \<exists>i r. active s = fmupd i r fmempty \<and> run_job r = ex_jobID (executor s) \<and>
        ex_cancel (executor s) = Some i \<and> i < next_run s \<and> (parent_done s \<longrightarrow> run_ctx r \<noteq> Live))"

lemma exec_ok_start: "exec_ok node_start"
  by (simp add: exec_ok_def node_start_def NewExecutor_def)

lemma exec_ok_active:
  assumes "exec_ok s" "fmlookup (active s) i = Some r"
  shows "active s = fmupd i r fmempty" "run_job r = ex_jobID (executor s)" "run_job r \<noteq> []"
    "ex_cancel (executor s) = Some i" "i < next_run s" "parent_done s \<longrightarrow> run_ctx r \<noteq> Live"
  using assms by (auto simp: exec_ok_def split: if_splits)

lemma exec_ok_busy:
  "active s = fmupd i r fmempty \<Longrightarrow> run_job r = ex_jobID (executor s) \<Longrightarrow> ex_jobID (executor s) \<noteq> [] \<Longrightarrow>
   ex_cancel (executor s) = Some i \<Longrightarrow> i < next_run s \<Longrightarrow> (parent_done s \<Longrightarrow> run_ctx r \<noteq> Live) \<Longrightarrow> exec_ok s"
  by (auto simp: exec_ok_def)

lemma exec_ok_upd:
  assumes "exec_ok s" "fmlookup (active s) i = Some r" "run_job r' = run_job r"
    and "run_ctx r \<noteq> Live \<longrightarrow> run_ctx r' \<noteq> Live"
  shows "exec_ok (s\<lparr>active := fmupd i r' (active s)\<rparr>)"
  using exec_ok_active [OF assms(1,2)] assms(3,4) by (intro exec_ok_busy [of _ i r']) auto

lemma Executor_reset: "e\<lparr>ex_jobID := [], ex_cpus := 0, ex_cancel := None\<rparr> = NewExecutor"
  by (cases e) (simp add: NewExecutor_def)

lemma exec_ok_Run_end:
  assumes "exec_ok s" "fmlookup (active s) i = Some r"
  shows "exec_ok (Run_end i r s)" "executor (Run_end i r s) = NewExecutor" "active (Run_end i r s) = fmempty"
proof -
  note a = exec_ok_active [OF assms]
  show "executor (Run_end i r s) = NewExecutor" "active (Run_end i r s) = fmempty"
    using a by (simp_all add: Run_end_def Executor_clear_def Executor_reset fmap_ext)
  then show "exec_ok (Run_end i r s)" by (simp add: exec_ok_def NewExecutor_def)
qed

lemma exec_ok_stop: "exec_ok s \<Longrightarrow> exec_ok (snd (node_stop jid s))"
proof (cases "snd (Executor_Stop jid (executor s))")
  case None
  then show "exec_ok s \<Longrightarrow> exec_ok (snd (node_stop jid s))"
    by (simp add: node_stop_def split_beta cancel_ctx_def)
next
  case (Some i)
  assume ok: "exec_ok s"
  show ?thesis
  proof (cases "fmlookup (active s) i")
    case None
    with Some ok show ?thesis by (simp add: node_stop_def split_beta cancel_ctx_def)
  next
    case r: (Some r)
    with Some exec_ok_upd [OF ok r, of "end_ctx Canceled r"] show ?thesis
      by (simp add: node_stop_def split_beta cancel_ctx_def end_ctx_def)
  qed
qed

lemma fmmap_single: "fmmap f (fmupd i r fmempty) = fmupd i (f r) fmempty"
  by (rule fmap_ext) simp

lemma exec_ok_parent_cancel:
  assumes "exec_ok s"
  shows "exec_ok (parent_cancel s)"
proof (cases "ex_jobID (executor s) = []")
  case True
  with assms show ?thesis by (simp add: exec_ok_def parent_cancel_def fmap_ext)
next
  case False
  with assms obtain i r where a: "active s = fmupd i r fmempty" by (auto simp: exec_ok_def)
  then have "fmlookup (active s) i = Some r" by simp
  from exec_ok_active [OF assms this] a show ?thesis
    by (intro exec_ok_busy [of _ i "end_ctx Canceled r"]) (simp_all add: parent_cancel_def fmmap_single end_ctx_def)
qed

lemma exec_ok_step:
  assumes "exec_step asDur s e t" "exec_ok s" "\<And>a. e = Call a \<Longrightarrow> WorkAssignment_GetJobId a \<noteq> []"
  shows "exec_ok t"
  using assms(1)
proof cases
  case (call a)
  then have idle: "ex_jobID (executor s) = []" and t: "t = snd (Run_begin asDur a s)"
    by (auto simp: Run_begin_def split: if_splits)
  with assms(2) have "active s = fmempty" by (simp add: exec_ok_def)
  then show ?thesis
    unfolding t using assms(3) call idle
    by (intro exec_ok_busy [of _ "next_run s" "\<lparr>run_job = WorkAssignment_GetJobId a, run_timed = (time_limit asDur a > 0),
        run_ctx = (if parent_done s then Canceled else Live), run_phase = Starting\<rparr>"]) (auto simp: Run_begin_def split: if_splits)
next
  case (stop jid ok)
  with exec_ok_stop [OF assms(2), of jid] show ?thesis by simp
next
  case shutdown
  with exec_ok_parent_cancel [OF assms(2)] show ?thesis by simp
qed (use assms(2) in \<open>auto simp: Run_begin_def set_phase_def exec_ok_Run_end end_ctx_def intro!: exec_ok_upd split: if_splits\<close>)

lemma exec_ok_steps:
  assumes "exec_steps asDur s es t" "exec_ok s" "\<And>a. Call a \<in> set es \<Longrightarrow> WorkAssignment_GetJobId a \<noteq> []"
  shows "exec_ok t"
  using assms by (induction rule: exec_steps.induct) (simp_all add: exec_ok_step)

section \<open>Where results come from\<close>

text \<open>
  What the events so far must contain for run \<open>i\<close> to return a result: success needs the process to
  have exited cleanly, a cancellation needs a \<open>Stop\<close> that found its job or the shutdown, and a failure
  needs a failed start, a failed exit or the time limit.
\<close>

definition stopped :: "'dur exec_event list \<Rightarrow> bool" where
  "stopped H \<longleftrightarrow> Shutdown \<in> set H \<or> (\<exists>jid. StopCall jid True \<in> set H)"

definition justified :: "'dur exec_event list \<Rightarrow> nat \<Rightarrow> Result \<Rightarrow> bool" where
  "justified H i res \<longleftrightarrow>
     (rs_Event res = JOB_EVENT_COMPLETED \<and> rs_ExitCode res = 0 \<and> Exited i None \<in> set H) \<or>
     (rs_Event res = JOB_EVENT_CANCELLED \<and> stopped H) \<or>
     (rs_Event res = JOB_EVENT_FAILED \<and>
        ((\<exists>msg. StartFailed i msg \<in> set H) \<or> (\<exists>err. Exited i (Some err) \<in> set H) \<or> TimeUp i \<in> set H))"

definition ctx_justified :: "'dur exec_event list \<Rightarrow> nat \<Rightarrow> ctx_state \<Rightarrow> bool" where
  "ctx_justified H i c \<longleftrightarrow> (case c of Live \<Rightarrow> True | Canceled \<Rightarrow> stopped H | DeadlineExceeded \<Rightarrow> TimeUp i \<in> set H)"

definition run_justified :: "'dur exec_event list \<Rightarrow> nat \<Rightarrow> Run \<Rightarrow> bool" where
  "run_justified H i r \<longleftrightarrow> ctx_justified H i (run_ctx r) \<and>
     (\<forall>res. run_phase r = Killed res \<or> run_phase r = Done res \<longrightarrow> justified H i res)"

definition history_ok :: "'dur exec_event list \<Rightarrow> node_state \<Rightarrow> bool" where
  "history_ok H s \<longleftrightarrow> (parent_done s \<longrightarrow> stopped H) \<and>
     (\<forall>i r. fmlookup (active s) i = Some r \<longrightarrow> run_justified H i r)"

lemma justified_mono: "justified H i res \<Longrightarrow> justified (H @ [e]) i res"
  by (auto simp: justified_def stopped_def)

lemma ctx_justified_mono: "ctx_justified H i c \<Longrightarrow> ctx_justified (H @ [e]) i c"
  by (auto simp: ctx_justified_def stopped_def split: ctx_state.splits)

lemma run_justified_mono: "run_justified H i r \<Longrightarrow> run_justified (H @ [e]) i r"
  by (auto simp: run_justified_def justified_mono ctx_justified_mono)

lemma history_ok_mono: "history_ok H s \<Longrightarrow> history_ok (H @ [e]) s"
  by (auto simp: history_ok_def run_justified_mono stopped_def)

lemma history_ok_upd:
  assumes "history_ok H s" "run_justified (H @ [e]) i r"
  shows "history_ok (H @ [e]) (s\<lparr>active := fmupd i r (active s)\<rparr>)"
  using history_ok_mono [OF assms(1), of e] assms(2) by (simp add: history_ok_def)

lemma history_run: "history_ok H s \<Longrightarrow> fmlookup (active s) i = Some r \<Longrightarrow> run_justified H i r"
  by (simp add: history_ok_def)

lemma end_ctx_justified:
  "run_justified H i r \<Longrightarrow> ctx_justified (H @ [e]) i c \<Longrightarrow> run_justified (H @ [e]) i (end_ctx c r)"
  using run_justified_mono [of H i r e] by (auto simp: end_ctx_def run_justified_def)

lemma context_result_justified: "ctx_justified H i c \<Longrightarrow> c \<noteq> Live \<Longrightarrow> justified H i (context_result c)"
  by (cases c) (simp_all add: ctx_justified_def context_result_def justified_def)

lemma exited_justified: "Exited i err \<in> set H \<Longrightarrow> justified H i (resultFromWait err)"
  by (auto simp: justified_def resultFromWait_def split: option.split wait_error.split)

lemma set_phase_justified:
  assumes "history_ok H s" "fmlookup (active s) i = Some r"
    and "\<And>res. p = Killed res \<or> p = Done res \<Longrightarrow> justified (H @ [e]) i res"
  shows "history_ok (H @ [e]) (set_phase i r p s)"
proof -
  have "run_justified (H @ [e]) i r" using assms(1,2) by (simp add: history_ok_def run_justified_mono)
  with assms(3) have "run_justified (H @ [e]) i (r\<lparr>run_phase := p\<rparr>)" by (simp add: run_justified_def)
  from history_ok_upd [OF assms(1) this] show ?thesis by (simp add: set_phase_def)
qed

lemma history_step:
  assumes "exec_step asDur s e t" "history_ok H s"
  shows "history_ok (H @ [e]) t"
  using assms(1)
proof cases
  case (call a)
  have "run_justified (H @ [e]) (next_run s)
      \<lparr>run_job = WorkAssignment_GetJobId a, run_timed = 0 < time_limit asDur a,
       run_ctx = if parent_done s then Canceled else Live, run_phase = Starting\<rparr>"
    using history_ok_mono [OF assms(2), of e] by (simp add: run_justified_def ctx_justified_def history_ok_def)
  with call history_ok_mono [OF assms(2), of e] show ?thesis
    by (auto simp: Run_begin_def history_ok_def split: if_splits)
next
  case (refuse a r)
  with history_ok_mono [OF assms(2)] show ?thesis by (auto simp: Run_begin_def split: if_splits)
next
  case (started i r)
  with assms(2) show ?thesis by (auto intro!: set_phase_justified)
next
  case (start_failed i r msg)
  with assms(2) show ?thesis
    by (auto intro!: set_phase_justified simp: justified_def failed_result_def)
next
  case (exited i r err)
  with assms(2) show ?thesis by (auto intro!: set_phase_justified exited_justified)
next
  case (kill i r)
  with history_run [OF assms(2) kill(3)] have "justified (H @ [e]) i (context_result (run_ctx r))"
    by (intro context_result_justified ctx_justified_mono) (simp_all add: run_justified_def)
  with kill(1,2) set_phase_justified [OF assms(2) kill(3), of "Killed (context_result (run_ctx r))" e] show ?thesis by simp
next
  case (reaped i r res)
  with history_run [OF assms(2) reaped(3)] have "justified (H @ [e]) i res"
    by (intro justified_mono) (simp add: run_justified_def)
  with reaped(1,2) set_phase_justified [OF assms(2) reaped(3), of "Done res" e] show ?thesis by simp
next
  case (return i r res)
  with history_ok_mono [OF assms(2), of e] show ?thesis by (simp add: history_ok_def Run_end_def)
next
  case (stop jid ok)
  have "run_justified (H @ [e]) i (end_ctx Canceled r)" if "ok" "fmlookup (active s) i = Some r" for i r
    using assms(2) that stop(1) by (intro end_ctx_justified) (auto simp: history_ok_def ctx_justified_def stopped_def)
  with stop history_ok_mono [OF assms(2), of e] show ?thesis
    by (auto simp: node_stop_def cancel_ctx_def Executor_Stop_def history_ok_def split: if_splits option.splits)
next
  case (time_up i r)
  then have "run_justified (H @ [e]) i (end_ctx DeadlineExceeded r)"
    using history_run [OF assms(2)] by (intro end_ctx_justified) (simp_all add: ctx_justified_def)
  from history_ok_upd [OF assms(2) this] time_up(2) show ?thesis by simp
next
  case shutdown
  have "run_justified (H @ [e]) i (end_ctx Canceled r)" if "fmlookup (active s) i = Some r" for i r
    using assms(2) that shutdown by (intro end_ctx_justified) (auto simp: history_ok_def ctx_justified_def stopped_def)
  with shutdown show ?thesis by (auto simp: history_ok_def parent_cancel_def stopped_def)
qed

lemma history_steps: "exec_steps asDur s es t \<Longrightarrow> history_ok H s \<Longrightarrow> history_ok (H @ es) t"
proof (induction arbitrary: H rule: exec_steps.induct)
  case (more s e t es u)
  from more.IH [OF history_step [OF more.hyps(1) more.prems]] show ?case by simp
qed simp

lemma exec_steps_append:
  "exec_steps asDur s (es @ fs) u \<longleftrightarrow> (\<exists>t. exec_steps asDur s es t \<and> exec_steps asDur t fs u)"
proof (induction es arbitrary: s)
  case Nil
  then show ?case by (auto intro: exec_steps.none elim: exec_steps_NilE)
next
  case (Cons e es)
  then show ?case by (fastforce intro: exec_steps.more elim!: exec_steps_ConsE)
qed


section \<open>Every run ends\<close>

text \<open>The events that a run makes by itself, and the number of them it has left.\<close>

fun own_event :: "'dur exec_event \<Rightarrow> bool" where
  "own_event (Started i) = True"
| "own_event (StartFailed i msg) = True"
| "own_event (Exited i err) = True"
| "own_event (Kill i) = True"
| "own_event (Reaped i) = True"
| "own_event (Return i res) = True"
| "own_event _ = False"

definition phase_left :: "phase \<Rightarrow> nat" where
  "phase_left p = (case p of Starting \<Rightarrow> 4 | Waiting \<Rightarrow> 3 | Killed res \<Rightarrow> 2 | Done res \<Rightarrow> 1)"

definition work_left :: "node_state \<Rightarrow> nat" where
  "work_left s = (\<Sum>i \<in> fmdom' (active s). phase_left (run_phase (the (fmlookup (active s) i))))"

lemma work_left_single: "active s = fmupd i r fmempty \<Longrightarrow> work_left s = phase_left (run_phase r)"
  by (simp add: work_left_def)

lemma work_phase:
  assumes "exec_ok s" "fmlookup (active s) i = Some r"
  shows "work_left s = phase_left (run_phase r)" "work_left (set_phase i r p s) = phase_left p"
  using exec_ok_active(1) [OF assms]
  by (simp_all add: work_left_single work_left_single [of _ i "r\<lparr>run_phase := p\<rparr>"] set_phase_def)

lemma own_event_work:
  assumes "exec_step asDur s e t" "exec_ok s" "own_event e"
  shows "work_left t < work_left s"
  using assms(1)
proof cases
  case (return i r res)
  have "work_left s = 1" using exec_ok_active(1) [OF assms(2) return(3)] return(4) by (simp add: work_left_single phase_left_def)
  with exec_ok_Run_end(3) [OF assms(2) return(3)] return(2) show ?thesis by (simp add: work_left_def)
qed (use assms(2,3) in \<open>simp_all add: work_phase phase_left_def\<close>)

lemma own_events_bound:
  assumes "exec_steps asDur s es t" "exec_ok s" "\<forall>e \<in> set es. own_event e"
  shows "length es + work_left t \<le> work_left s"
  using assms
proof (induction rule: exec_steps.induct)
  case (more s e t es u)
  have "exec_ok t" using more.prems more.hyps(1) by (intro exec_ok_step [of asDur s e t]) auto
  with more own_event_work [OF more.hyps(1)] show ?case by force
qed simp

lemma work_left_le: "exec_ok s \<Longrightarrow> work_left s \<le> 4"
  by (auto simp: exec_ok_def work_left_single phase_left_def work_left_def split: if_splits phase.split)

lemma own_progress:
  assumes "fmlookup (active s) i = Some r"
  shows "\<exists>e t. own_event e \<and> exec_step asDur s e t"
  by (cases "run_phase r") (use assms in \<open>force intro: exec_step.intros\<close>)+

section \<open>Merged environments\<close>

text \<open>
  The value a process sees for a key: that of the last entry with the key, which is the one
  \<open>exec.Cmd\<close> keeps.
\<close>

fun env_get :: "string list \<Rightarrow> string \<Rightarrow> string option" where
  "env_get [] k = None"
| "env_get (kv # kvs) k = (case env_get kvs k of
     Some v \<Rightarrow> Some v
   | None \<Rightarrow> if env_key [] kv = Some k then Some (drop (length k + 1) kv) else None)"

lemma env_key_eq:
  "env_key pre s = (if CHR ''='' \<in> set s then Some (pre @ takeWhile (\<lambda>c. c \<noteq> CHR ''='') s) else None)"
  by (induction pre s rule: env_key.induct) auto

lemma env_key_entry: "CHR ''='' \<notin> set k \<Longrightarrow> env_key [] (k @ ''='' @ v) = Some k"
  by (simp add: env_key_eq takeWhile_tail) (metis (mono_tags, lifting) takeWhile_eq_all_conv)

definition last_entry :: "string list \<Rightarrow> string \<Rightarrow> nat \<Rightarrow> bool" where
  "last_entry out k i \<longleftrightarrow> i < length out \<and> env_key [] (out ! i) = Some k \<and>
     (\<forall>j. i < j \<longrightarrow> j < length out \<longrightarrow> env_key [] (out ! j) \<noteq> Some k)"

definition seen_ok :: "(string, nat) fmap \<Rightarrow> string list \<Rightarrow> bool" where
  "seen_ok seen out \<longleftrightarrow> (\<forall>k. case fmlookup seen k of
     None \<Rightarrow> \<forall>kv \<in> set out. env_key [] kv \<noteq> Some k
   | Some i \<Rightarrow> last_entry out k i)"

lemma seen_ok_last: "seen_ok seen out \<Longrightarrow> fmlookup seen k = Some i \<Longrightarrow> last_entry out k i"
  unfolding seen_ok_def by (drule spec [of _ k]) simp

lemma env_get_none: "\<forall>kv \<in> set out. env_key [] kv \<noteq> Some k \<Longrightarrow> env_get out k = None"
  by (induction out) auto

lemma env_get_append: "env_get (xs @ ys) k = (case env_get ys k of Some v \<Rightarrow> Some v | None \<Rightarrow> env_get xs k)"
  by (induction xs) (auto split: option.split)

lemma env_get_last:
  assumes "last_entry out k i"
  shows "env_get out k = Some (drop (length k + 1) (out ! i))"
proof -
  have i: "i < length out" "env_key [] (out ! i) = Some k" using assms by (simp_all add: last_entry_def)
  have "env_key [] kv \<noteq> Some k" if "kv \<in> set (drop (Suc i) out)" for kv
    using that assms by (auto simp: in_set_conv_nth last_entry_def)
  then have "env_get (drop (Suc i) out) k = None" by (intro env_get_none) blast
  then have "env_get (take i out @ out ! i # drop (Suc i) out) k = Some (drop (length k + 1) (out ! i))"
    using i(2) by (simp add: env_get_append)
  then show ?thesis by (simp only: id_take_nth_drop [OF i(1), symmetric])
qed

lemma env_get_update:
  assumes "last_entry out k i" "env_key [] e = Some k"
  shows "env_get (out[i := e]) x = (if x = k then Some (drop (length k + 1) e) else env_get out x)"
proof (cases "x = k")
  case True
  have "last_entry (out[i := e]) k i" using assms by (simp add: last_entry_def)
  from env_get_last [OF this] assms(1) True show ?thesis by (simp add: last_entry_def)
next
  case False
  have i: "i < length out" "env_key [] (out ! i) = Some k" using assms(1) by (simp_all add: last_entry_def)
  have "env_get (out ! i # drop (Suc i) out) x = env_get (e # drop (Suc i) out) x"
    using False i(2) assms(2) by (auto split: option.split)
  then have "env_get (take i out @ out ! i # drop (Suc i) out) x = env_get (take i out @ e # drop (Suc i) out) x"
    by (simp only: env_get_append)
  with False show ?thesis
    by (simp only: id_take_nth_drop [OF i(1), symmetric] upd_conv_take_nth_drop [OF i(1)] if_False)
qed

lemma seen_ok_append:
  assumes "seen_ok seen out"
  shows "seen_ok (case env_key [] kv of None \<Rightarrow> seen | Some k \<Rightarrow> fmupd k (length out) seen) (out @ [kv])"
  unfolding seen_ok_def
proof
  fix k
  have "case fmlookup seen k of None \<Rightarrow> \<forall>kv \<in> set out. env_key [] kv \<noteq> Some k | Some i \<Rightarrow> last_entry out k i"
    using assms by (simp add: seen_ok_def)
  then show "case fmlookup (case env_key [] kv of None \<Rightarrow> seen | Some k \<Rightarrow> fmupd k (length out) seen) k of
      None \<Rightarrow> \<forall>kv \<in> set (out @ [kv]). env_key [] kv \<noteq> Some k | Some i \<Rightarrow> last_entry (out @ [kv]) k i"
    by (auto simp: last_entry_def nth_append less_Suc_eq split: option.splits)
qed

lemma seen_ok_loop: "seen_ok seen pre \<Longrightarrow> seen_ok (seen_loop (length pre) kvs seen) (pre @ kvs)"
proof (induction kvs arbitrary: seen pre)
  case (Cons kv kvs)
  from Cons.IH [OF seen_ok_append [OF Cons.prems, of kv]] show ?case by simp
qed simp

lemma seen_ok_update:
  assumes "seen_ok seen out" "last_entry out k i" "env_key [] e = Some k"
  shows "seen_ok seen (out[i := e])"
proof -
  have keys: "map (env_key []) (out[i := e]) = map (env_key []) out"
    using assms(2,3) by (simp add: map_update last_entry_def list_update_id flip: nth_map)
      (metis list_update_id nth_map)
  then have nth: "j < length out \<Longrightarrow> env_key [] (out[i := e] ! j) = env_key [] (out ! j)" for j
    by (metis length_list_update nth_map)
  have "last_entry (out[i := e]) x j = last_entry out x j" for x j
    by (auto simp: last_entry_def nth)
  moreover have any: "(\<forall>kv \<in> A. env_key [] kv \<noteq> Some x) \<longleftrightarrow> Some x \<notin> env_key [] ` A" for A x
    by (auto simp: image_iff)
  have "env_key [] ` set (out[i := e]) = env_key [] ` set out" using arg_cong [OF keys, of set] by simp
  then have "(\<forall>kv \<in> set (out[i := e]). env_key [] kv \<noteq> Some x) = (\<forall>kv \<in> set out. env_key [] kv \<noteq> Some x)" for x
    by (simp only: any)
  ultimately show ?thesis using assms(1) by (simp add: seen_ok_def cong: option.case_cong)
qed

lemma merge_loop_get:
  assumes "seen_ok seen out" "\<forall>k \<in> set ks. CHR ''='' \<notin> set k"
  shows "env_get (merge_loop extra ks seen out) x =
    (if x \<in> set ks \<and> fmlookup extra x \<noteq> None then fmlookup extra x else env_get out x)"
  using assms
proof (induction ks arbitrary: seen out)
  case (Cons k ks)
  show ?case
  proof (cases "fmlookup extra k")
    case None
    with Cons show ?thesis by auto
  next
    case v: (Some v)
    let ?e = "k @ ''='' @ v"
    have e: "env_key [] ?e = Some k" "drop (length k + 1) ?e = v"
      using Cons.prems(2) env_key_entry by auto
    show ?thesis
    proof (cases "fmlookup seen k")
      case None
      have "seen_ok (fmupd k (length out) seen) (out @ [?e])"
        using seen_ok_append [OF Cons.prems(1), of ?e] e(1) by simp
      from Cons.IH [OF this] Cons.prems(2) have
        "env_get (merge_loop extra (k # ks) seen out) x =
         (if x \<in> set ks \<and> fmlookup extra x \<noteq> None then fmlookup extra x else env_get (out @ [?e]) x)"
        by (simp add: v None)
      moreover have "env_get (out @ [?e]) x = (if x = k then Some v else env_get out x)"
        using e unfolding env_get_append by simp
      ultimately show ?thesis by (auto simp: v)
    next
      case (Some i)
      then have "last_entry out k i" by (rule seen_ok_last [OF Cons.prems(1)])
      note upd = seen_ok_update [OF Cons.prems(1) this e(1)] env_get_update [OF this e(1), of x]
      from Cons.IH [OF upd(1)] Cons.prems(2) have
        "env_get (merge_loop extra (k # ks) seen out) x =
         (if x \<in> set ks \<and> fmlookup extra x \<noteq> None then fmlookup extra x else env_get (out[i := ?e]) x)"
        by (simp add: v Some)
      with upd(2) e(2) show ?thesis by (auto simp: v)
    qed
  qed
qed simp

section \<open>Properties\<close>

text \<open>C22.  A node runs one job at a time: as long as assignments name their jobs, in every state that calls,
  stops, timeouts and process events lead to, the executor is idle and nothing runs, or exactly one run
  is active, for the job it shows, and \<open>Stop\<close> would cancel that run's context.\<close>

theorem one_job_at_a_time:
  assumes "exec_steps asDur node_start es t" "\<forall>a. Call a \<in> set es \<longrightarrow> WorkAssignment_GetJobId a \<noteq> []"
  shows "(fst (Executor_Current (executor t)) = [] \<longrightarrow> active t = fmempty \<and> executor t = NewExecutor) \<and>
    (fst (Executor_Current (executor t)) \<noteq> [] \<longrightarrow>
      (\<exists>i r. active t = fmupd i r fmempty \<and> run_job r = fst (Executor_Current (executor t)) \<and>
        Executor_Stop (run_job r) (executor t) = (True, Some i)))"
proof -
  have "exec_ok t" using assms by (intro exec_ok_steps [OF assms(1) exec_ok_start]) blast
  then consider "executor t = NewExecutor" "active t = fmempty"
    | i r where "active t = fmupd i r fmempty" "run_job r = ex_jobID (executor t)" "ex_cancel (executor t) = Some i"
      "ex_jobID (executor t) \<noteq> []"
    unfolding exec_ok_def by metis
  then show ?thesis
    by cases (auto simp: Executor_Current_def Executor_Stop_def NewExecutor_def intro!: exI)
qed

definition sample_assignment :: "int pb_WorkAssignment option" where
  "sample_assignment = Some \<lparr>WorkAssignment_JobId = ''job-1'', WorkAssignment_Command = ''hello'', WorkAssignment_Args = [],
     WorkAssignment_Env = fmempty, WorkAssignment_MaxDuration = Some 5, WorkAssignment_NodeRank = 0,
     WorkAssignment_Nnodes = 1, WorkAssignment_CpusPerNode = 2\<rparr>"

definition sample_busy :: node_state where
  "sample_busy = snd (Run_begin (\<lambda>d. d) sample_assignment node_start)"

lemma sample_begin: "Run_begin (\<lambda>d. d) sample_assignment node_start = (None, sample_busy)"
  by (simp add: sample_busy_def Run_begin_def sample_assignment_def pb_getters node_start_def NewExecutor_def)

lemma sample_busy_fields [simp]:
  "executor sample_busy = \<lparr>ex_jobID = ''job-1'', ex_cpus = 2, ex_cancel = Some 0\<rparr>"
  "active sample_busy = fmupd 0 \<lparr>run_job = ''job-1'', run_timed = True, run_ctx = Live, run_phase = Starting\<rparr> fmempty"
  by (simp_all add: sample_busy_def Run_begin_def sample_assignment_def pb_getters node_start_def NewExecutor_def time_limit_def)

lemma sample_call: "exec_steps (\<lambda>d. d) node_start [Call sample_assignment] sample_busy"
  by (rule exec_steps.more [OF exec_step.call [OF sample_begin] exec_steps.none])

theorem one_job_at_a_time_witness:
  "\<exists>i r. active sample_busy = fmupd i r fmempty \<and> run_job r = ''job-1'' \<and>
     Executor_Stop (run_job r) (executor sample_busy) = (True, Some i)"
  using one_job_at_a_time [OF sample_call] by (simp add: sample_assignment_def pb_getters Executor_Current_def)

text \<open>C23.  A result tells what happened: whatever the interleaving, a run that returns success had its process
  exit cleanly, one that returns cancelled was stopped (by a \<open>Stop\<close> that found a job, or the shutdown)
  before, and one that returns failure failed to start, exited with an error, or ran out of time.\<close>

theorem results_are_justified:
  assumes "exec_steps asDur node_start (es @ Return i res # fs) t"
  shows "(rs_Event res = JOB_EVENT_COMPLETED \<longrightarrow> Exited i None \<in> set es) \<and>
    (rs_Event res = JOB_EVENT_CANCELLED \<longrightarrow> Shutdown \<in> set es \<or> (\<exists>jid. StopCall jid True \<in> set es)) \<and>
    (rs_Event res = JOB_EVENT_FAILED \<longrightarrow>
      (\<exists>msg. StartFailed i msg \<in> set es) \<or> (\<exists>err. Exited i (Some err) \<in> set es) \<or> TimeUp i \<in> set es) \<and>
    rs_Event res \<in> {JOB_EVENT_COMPLETED, JOB_EVENT_CANCELLED, JOB_EVENT_FAILED}"
proof -
  obtain u v where u: "exec_steps asDur node_start es u" "exec_step asDur u (Return i res) v"
    using assms unfolding exec_steps_append by (auto elim: exec_steps_ConsE)
  have "history_ok [] node_start" by (simp add: history_ok_def node_start_def)
  from history_steps [OF u(1) this] have ok: "history_ok es u" by simp
  from u(2) have "justified es i res"
  proof cases
    case (return r)
    with history_run [OF ok return(2)] show ?thesis by (simp add: run_justified_def)
  qed
  then show ?thesis by (auto simp: justified_def stopped_def)
qed

definition sample_cancelled_run :: "int exec_event list" where
  "sample_cancelled_run = [Call sample_assignment, StopCall ''job-1'' True, Started 0, Kill 0, Reaped 0]"

lemma sample_cancelled_steps:
  "\<exists>t. exec_steps (\<lambda>d. d) node_start (sample_cancelled_run @ Return 0 (context_result Canceled) # []) t"
proof -
  let ?r = "\<lambda>p. \<lparr>run_job = ''job-1'', run_timed = True, run_ctx = Canceled, run_phase = p\<rparr>"
  let ?s1 = "sample_busy\<lparr>active := fmupd 0 (?r Starting) fmempty\<rparr>"
  let ?s2 = "set_phase 0 (?r Starting) Waiting ?s1"
  let ?k = "context_result (run_ctx (?r Waiting))"
  let ?s3 = "set_phase 0 (?r Waiting) (Killed ?k) ?s2"
  let ?s4 = "set_phase 0 (?r (Killed ?k)) (Done ?k) ?s3"
  have "node_stop ''job-1'' sample_busy = (True, ?s1)"
    by (simp add: node_stop_def Executor_Stop_def cancel_ctx_def end_ctx_def)
  then have e0: "exec_step (\<lambda>d. d) sample_busy (StopCall ''job-1'' True) ?s1" by (rule exec_step.stop)
  have e1: "exec_step (\<lambda>d. d) ?s1 (Started 0) ?s2" by (rule exec_step.started) simp_all
  have e2: "exec_step (\<lambda>d. d) ?s2 (Kill 0) ?s3" by (rule exec_step.kill) (simp_all add: set_phase_def)
  have e3: "exec_step (\<lambda>d. d) ?s3 (Reaped 0) ?s4" by (rule exec_step.reaped) (simp_all add: set_phase_def)
  have e4: "exec_step (\<lambda>d. d) ?s4 (Return 0 ?k) (Run_end 0 (?r (Done ?k)) ?s4)"
    by (rule exec_step.return) (simp_all add: set_phase_def)
  have "exec_steps (\<lambda>d. d) node_start (sample_cancelled_run @ Return 0 ?k # []) (Run_end 0 (?r (Done ?k)) ?s4)"
    unfolding sample_cancelled_run_def append.simps
    by (rule exec_steps.more [OF exec_step.call [OF sample_begin] exec_steps.more [OF e0 exec_steps.more [OF e1
        exec_steps.more [OF e2 exec_steps.more [OF e3 exec_steps.more [OF e4 exec_steps.none]]]]]])
  then show ?thesis by auto
qed

theorem results_are_justified_witness:
  "Shutdown \<in> set sample_cancelled_run \<or> (\<exists>jid. StopCall jid True \<in> set sample_cancelled_run)"
proof -
  from sample_cancelled_steps obtain t where
    "exec_steps (\<lambda>d. d) node_start (sample_cancelled_run @ Return 0 (context_result Canceled) # []) t" by blast
  from results_are_justified [OF this] show ?thesis by (simp add: context_result_def)
qed

text \<open>C24.  Every call of \<open>Run\<close> returns: left to itself (no new call, stop or timeout) a reachable executor
  makes at most four more steps, and as long as a run is active one of them is possible, so when no
  step is left the executor is idle again.\<close>

theorem every_run_returns:
  assumes "exec_steps asDur node_start es s" "\<forall>a. Call a \<in> set es \<longrightarrow> WorkAssignment_GetJobId a \<noteq> []"
    and "exec_steps asDur s fs t" "\<forall>e \<in> set fs. own_event e"
  shows "length fs \<le> 4 \<and>
    ((\<nexists>e u. own_event e \<and> exec_step asDur t e u) \<longrightarrow> executor t = NewExecutor \<and> active t = fmempty)"
proof -
  have s: "exec_ok s" using assms(2) by (intro exec_ok_steps [OF assms(1) exec_ok_start]) blast
  have "\<And>a. Call a \<in> set fs \<Longrightarrow> WorkAssignment_GetJobId a \<noteq> []" using assms(4) by force
  from exec_ok_steps [OF assms(3) s this] have t: "exec_ok t" .
  have "length fs \<le> 4" using own_events_bound [OF assms(3) s assms(4)] work_left_le [OF s] by simp
  moreover have "executor t = NewExecutor \<and> active t = fmempty" if "\<nexists>e u. own_event e \<and> exec_step asDur t e u"
    using t own_progress [of t _ _ asDur] that unfolding exec_ok_def by (metis fmupd_lookup)
  ultimately show ?thesis by blast
qed

definition sample_exited :: node_state where
  "sample_exited = set_phase 0 \<lparr>run_job = ''job-1'', run_timed = True, run_ctx = Live, run_phase = Waiting\<rparr>
     (Done (resultFromWait None))
     (set_phase 0 \<lparr>run_job = ''job-1'', run_timed = True, run_ctx = Live, run_phase = Starting\<rparr> Waiting sample_busy)"

lemma sample_exited_active [simp]:
  "active sample_exited = fmupd 0 \<lparr>run_job = ''job-1'', run_timed = True, run_ctx = Live, run_phase = Done (resultFromWait None)\<rparr> fmempty"
  "executor sample_exited = executor sample_busy"
  by (simp_all add: sample_exited_def set_phase_def)

lemma sample_exits: "exec_steps (\<lambda>d. d) sample_busy [Started 0, Exited 0 None] sample_exited"
proof -
  let ?r = "\<lambda>p. \<lparr>run_job = ''job-1'', run_timed = True, run_ctx = Live, run_phase = p\<rparr>"
  let ?s = "set_phase 0 (?r Starting) Waiting sample_busy"
  have 1: "exec_step (\<lambda>d. d) sample_busy (Started 0) ?s" by (rule exec_step.started) simp_all
  have 2: "exec_step (\<lambda>d. d) ?s (Exited 0 None) sample_exited"
    unfolding sample_exited_def by (rule exec_step.exited) (simp_all add: set_phase_def)
  show ?thesis by (rule exec_steps.more [OF 1 exec_steps.more [OF 2 exec_steps.none]])
qed

lemma sample_exited_steps:
  "exec_steps (\<lambda>d. d) node_start [Call sample_assignment, Started 0, Exited 0 None] sample_exited"
  by (rule exec_steps.more [OF exec_step.call [OF sample_begin] sample_exits])

theorem every_run_returns_witness:
  "\<exists>t. exec_steps (\<lambda>d. d) sample_busy [Started 0, Exited 0 None, Return 0 (resultFromWait None)] t \<and>
     executor t = NewExecutor \<and> active t = fmempty"
proof -
  let ?t = "Run_end 0 \<lparr>run_job = ''job-1'', run_timed = True, run_ctx = Live, run_phase = Done (resultFromWait None)\<rparr> sample_exited"
  have 3: "exec_step (\<lambda>d. d) sample_exited (Return 0 (resultFromWait None)) ?t" by (rule exec_step.return) simp_all
  have "exec_steps (\<lambda>d. d) sample_busy ([Started 0, Exited 0 None] @ [Return 0 (resultFromWait None)]) ?t"
    unfolding exec_steps_append using sample_exits exec_steps.more [OF 3 exec_steps.none] by blast
  then have run: "exec_steps (\<lambda>d. d) sample_busy [Started 0, Exited 0 None, Return 0 (resultFromWait None)] ?t" by simp
  have "active ?t = fmempty" by (simp add: Run_end_def fmap_ext)
  then have "\<nexists>e u. own_event e \<and> exec_step (\<lambda>d :: int. d) ?t e u" by (auto elim!: exec_stepE)
  with every_run_returns [OF sample_call _ run] have "executor ?t = NewExecutor \<and> active ?t = fmempty"
    by (simp add: sample_assignment_def pb_getters)
  with run show ?thesis by blast
qed

lemma busy_until_return:
  assumes "exec_steps asDur s es t" "ex_jobID (executor s) \<noteq> []" "\<forall>i res. Return i res \<notin> set es"
  shows "ex_jobID (executor t) = ex_jobID (executor s)"
  using assms
proof (induction rule: exec_steps.induct)
  case (more s e t es u)
  from more.hyps(1) have "executor t = executor s"
    using more.prems by cases (auto simp: Run_begin_def set_phase_def node_stop_def parent_cancel_def split: if_splits prod.splits)
  with more show ?case by simp
qed simp

text \<open>Stopping does not free the node at once: from the moment a job is stopped until its run returns,
  whatever else happens, a new assignment is refused as a failure of its own job.\<close>

theorem stopped_node_refuses_work:
  assumes "node_stop jid s = (True, s')" "exec_steps asDur s' es t" "\<forall>i res. Return i res \<notin> set es"
    and "WorkAssignment_GetCommand a \<noteq> []"
  shows "Run_begin asDur a t = (Some \<lparr>rs_Event = JOB_EVENT_FAILED, rs_ExitCode = 1, rs_ErrMsg = ''node busy''\<rparr>, t)"
proof -
  have "ex_jobID (executor s') \<noteq> []"
    using assms(1) by (auto simp: node_stop_def Executor_Stop_def split: if_splits prod.splits)
  from busy_until_return [OF assms(2) this assms(3)] this have "ex_jobID (executor t) \<noteq> []" by simp
  moreover have "a \<noteq> None" using assms(4) by (cases a) (simp_all add: pb_getters)
  ultimately show ?thesis using assms(4) by (simp add: Run_begin_def failed_result_def)
qed

theorem stopped_node_refuses_work_witness:
  "Run_begin (\<lambda>d. d) sample_assignment (snd (node_stop ''job-1'' sample_busy)) =
    (Some \<lparr>rs_Event = JOB_EVENT_FAILED, rs_ExitCode = 1, rs_ErrMsg = ''node busy''\<rparr>, snd (node_stop ''job-1'' sample_busy))"
proof -
  have "node_stop ''job-1'' sample_busy = (True, snd (node_stop ''job-1'' sample_busy))"
    by (simp add: node_stop_def Executor_Stop_def)
  from stopped_node_refuses_work [OF this exec_steps.none, of sample_assignment "\<lambda>d. d"]
  show ?thesis by (simp add: sample_assignment_def pb_getters)
qed

lemma merge_get:
  assumes "go_range ks extra" "\<forall>k. fmlookup extra k \<noteq> None \<longrightarrow> CHR ''='' \<notin> set k"
  shows "env_get (mergeEnv ks base extra) k =
    (case fmlookup extra k of Some v \<Rightarrow> Some v | None \<Rightarrow> env_get base k)"
proof (cases "go_len extra = 0")
  case True
  then have "fmdom extra = {||}" by (simp add: go_len_def)
  then have "fmlookup extra k = None" by (intro fmdom_notD) simp
  with True show ?thesis by (simp add: mergeEnv_def)
next
  case False
  have ks: "x \<in> set ks \<longleftrightarrow> fmlookup extra x \<noteq> None" for x using assms(1) by (rule go_range_mem)
  have "seen_ok fmempty []" by (simp add: seen_ok_def)
  from seen_ok_loop [OF this, of base] have "seen_ok (seen_loop 0 base fmempty) base" by simp
  from merge_loop_get [OF this, of ks extra k] assms(2) ks False show ?thesis
    by (auto simp: mergeEnv_def split: option.split)
qed

text \<open>The process sees the merged environment: for every key the assignment's value if it has one and
  otherwise the node's own, in whatever order the loop ranges over the assignment's keys.\<close>

theorem merged_environment:
  assumes "go_range ks extra" "\<forall>k. fmlookup extra k \<noteq> None \<longrightarrow> CHR ''='' \<notin> set k"
  shows "env_get (mergeEnv ks base extra) k =
    (case fmlookup extra k of Some v \<Rightarrow> Some v | None \<Rightarrow> env_get base k)"
  using assms by (rule merge_get)

theorem merged_environment_witness:
  "env_get (mergeEnv [''HOME''] [''HOME=/root'', ''A=b''] (fmupd ''HOME'' ''/tmp'' fmempty)) ''HOME'' = Some ''/tmp''"
  using merged_environment [of "[''HOME'']" "fmupd ''HOME'' ''/tmp'' fmempty" "[''HOME=/root'', ''A=b'']" "''HOME''"]
  by (simp add: go_range_def)

end
