(* ===== verification/Agent.thy ===== *)
theory Agent
  imports Executor
begin

text \<open>
  The node agent, \<open>src/internal/node/agent.go\<close>, and the part of \<open>src/cmd/node/main.go\<close> that chooses
  its configuration.  The gRPC client is generated code over the network: it is a record of functions
  on the state \<open>'w\<close> of whatever answers, with \<open>'e\<close> its errors and \<open>notFound\<close> saying which of them carry
  the code \<open>NotFound\<close>.  Where the code asks \<open>ctx.Err() != nil\<close>, the answer is an argument.  Log lines
  are left out.
\<close>

section \<open>State\<close>

record ('w, 'e) Client =
  cl_RegisterNode :: "pb_RegisterNodeRequest \<Rightarrow> 'w \<Rightarrow> ('e + pb_RegisterNodeResponse) \<times> 'w"
  cl_Heartbeat :: "pb_HeartbeatRequest \<Rightarrow> 'w \<Rightarrow> ('e + pb_HeartbeatResponse) \<times> 'w"
  cl_ReportJobStatus :: "pb_ReportJobStatusRequest \<Rightarrow> 'w \<Rightarrow> ('e + pb_ReportJobStatusResponse) \<times> 'w"

definition DefaultHeartbeatInterval :: duration where
  "DefaultHeartbeatInterval = Second"

record Config =
  cf_ID :: string
  cf_Hostname :: string
  cf_Address :: string
  cf_TotalCPUs :: int
  cf_Interval :: duration

record Agent =
  ag_cfg :: Config
  ag_exec :: node_state

definition Make_Agent :: "Config \<Rightarrow> Agent" where
  "Make_Agent cfg =
     (let cfg = (if cf_Interval cfg \<le> 0 then cfg\<lparr>cf_Interval := DefaultHeartbeatInterval\<rparr> else cfg);
          cfg = (if cf_TotalCPUs cfg < 1 then cfg\<lparr>cf_TotalCPUs := 1\<rparr> else cfg)
      in \<lparr>ag_cfg = cfg, ag_exec = node_start\<rparr>)"

text \<open>The configuration \<open>main\<close> makes from its flags and the host name; \<open>None\<close> when it gives up.\<close>

definition node_config :: "string \<Rightarrow> string \<Rightarrow> int \<Rightarrow> duration \<Rightarrow> Config option" where
  "node_config flag_id hostname cpus interval =
     (let nid = (if flag_id = [] then hostname else flag_id)
      in if nid = [] then None
         else Some \<lparr>cf_ID = nid, cf_Hostname = hostname, cf_Address = [], cf_TotalCPUs = cpus, cf_Interval = interval\<rparr>)"

section \<open>Calls to the controller\<close>

definition register_request :: "Config \<Rightarrow> pb_RegisterNodeRequest" where
  "register_request cfg = \<lparr>RegisterNodeRequest_Spec = Some
     \<lparr>NodeSpec_Id = cf_ID cfg, NodeSpec_Hostname = cf_Hostname cfg, NodeSpec_Address = cf_Address cfg,
      NodeSpec_TotalCpus = word_of_int (cf_TotalCPUs cfg)\<rparr>\<rparr>"

definition Agent_Register :: "('w, 'e) Client \<Rightarrow> Agent \<Rightarrow> 'w \<Rightarrow> ('e + string) \<times> Agent \<times> 'w" where
  "Agent_Register cl a w = (case cl_RegisterNode cl (register_request (ag_cfg a)) w of
     (Inl err, w) \<Rightarrow> (Inl err, a, w)
   | (Inr resp, w) \<Rightarrow>
       let nid = RegisterNodeResponse_GetNodeId (Some resp);
           a = (if nid \<noteq> [] then a\<lparr>ag_cfg := (ag_cfg a)\<lparr>cf_ID := nid\<rparr>\<rparr> else a)
       in (Inr (cf_ID (ag_cfg a)), a, w))"

definition heartbeat_request :: "Agent \<Rightarrow> pb_HeartbeatRequest" where
  "heartbeat_request a = (case Executor_Current (executor (ag_exec a)) of (jobID, cpus) \<Rightarrow>
     \<lparr>HeartbeatRequest_NodeId = cf_ID (ag_cfg a), HeartbeatRequest_AllocatedCpus = word_of_int cpus,
      HeartbeatRequest_CurrentJobId = jobID\<rparr>)"

definition Agent_Heartbeat :: "('w, 'e) Client \<Rightarrow> Agent \<Rightarrow> 'w \<Rightarrow> 'e option \<times> Agent \<times> 'w" where
  "Agent_Heartbeat cl a w = (case cl_Heartbeat cl (heartbeat_request a) w of
     (Inl err, w) \<Rightarrow> (Some err, a, w)
   | (Inr resp, w) \<Rightarrow>
       let cancelID = HeartbeatResponse_GetCancelJobId (Some resp)
       in (None, if cancelID \<noteq> [] then a\<lparr>ag_exec := snd (node_stop cancelID (ag_exec a))\<rparr> else a, w))"

definition Agent_report ::
  "('w, 'e) Client \<Rightarrow> string \<Rightarrow> pb_JobEvent \<Rightarrow> int \<Rightarrow> string \<Rightarrow> Agent \<Rightarrow> 'w \<Rightarrow> 'w" where
  "Agent_report cl jobID event exitCode errMsg a w =
     snd (cl_ReportJobStatus cl
       \<lparr>ReportJobStatusRequest_NodeId = cf_ID (ag_cfg a), ReportJobStatusRequest_JobId = jobID,
        ReportJobStatusRequest_Event = event, ReportJobStatusRequest_ExitCode = word_of_int exitCode,
        ReportJobStatusRequest_ErrorMessage = errMsg\<rparr> w)"

section \<open>Assignments\<close>

text \<open>
  \<open>handleAssignment\<close> up to the point where \<open>Run\<close> blocks, and its end once run \<open>i\<close> has its result.
\<close>

definition handleAssignment ::
  "('dur \<Rightarrow> duration) \<Rightarrow> ('w, 'e) Client \<Rightarrow> 'dur pb_WorkAssignment option \<Rightarrow> Agent \<Rightarrow> 'w \<Rightarrow> Agent \<times> 'w" where
  "handleAssignment asDur cl asgn a w =
     (if asgn = None then (a, w)
      else
        let jobID = WorkAssignment_GetJobId asgn;
            w = Agent_report cl jobID JOB_EVENT_STARTED 0 [] a w
        in (case Run_begin asDur asgn (ag_exec a) of
              (None, e) \<Rightarrow> (a\<lparr>ag_exec := e\<rparr>, w)
            | (Some res, e) \<Rightarrow>
                (a\<lparr>ag_exec := e\<rparr>, Agent_report cl jobID (rs_Event res) (rs_ExitCode res) (rs_ErrMsg res) a w)))"

definition finishAssignment :: "('w, 'e) Client \<Rightarrow> nat \<Rightarrow> Agent \<Rightarrow> 'w \<Rightarrow> Agent \<times> 'w" where
  "finishAssignment cl i a w = (case fmlookup (active (ag_exec a)) i of
     None \<Rightarrow> (a, w)
   | Some r \<Rightarrow> (case run_phase r of
       Done res \<Rightarrow> (a\<lparr>ag_exec := Run_end i r (ag_exec a)\<rparr>,
                    Agent_report cl (run_job r) (rs_Event res) (rs_ExitCode res) (rs_ErrMsg res) a w)
     | _ \<Rightarrow> (a, w)))"

text \<open>One message of \<open>recvWork\<close>.  The goroutine it starts for an assignment runs here at once.\<close>

definition recv_message ::
  "('dur \<Rightarrow> duration) \<Rightarrow> ('w, 'e) Client \<Rightarrow> 'dur pb_WatchWorkResponse option \<Rightarrow> Agent \<Rightarrow> 'w \<Rightarrow> Agent \<times> 'w" where
  "recv_message asDur cl msg a w = (case WatchWorkResponse_GetPayload msg of
     Some (WatchWorkResponse_Assignment asgn) \<Rightarrow> handleAssignment asDur cl asgn a w
   | Some (WatchWorkResponse_Cancel c) \<Rightarrow>
       (if c \<noteq> None then (a\<lparr>ag_exec := snd (node_stop (CancelWork_GetJobId c) (ag_exec a))\<rparr>, w) else (a, w))
   | None \<Rightarrow> (a, w))"

section \<open>The loops\<close>

text \<open>
  A turn of \<open>heartbeatLoop\<close> that the ticker starts; \<open>done\<close> is what \<open>ctx.Err() != nil\<close> says after the
  calls.  The result says whether the loop goes on.
\<close>

definition heartbeat_turn ::
  "('w, 'e) Client \<Rightarrow> ('e \<Rightarrow> bool) \<Rightarrow> bool \<Rightarrow> Agent \<Rightarrow> 'w \<Rightarrow> bool \<times> Agent \<times> 'w" where
  "heartbeat_turn cl notFound ctx_done a w = (case Agent_Heartbeat cl a w of
     (None, a, w) \<Rightarrow> (True, a, w)
   | (Some err, a, w) \<Rightarrow>
       (if notFound err
        then (case Agent_Register cl a w of
                (Inl regErr, a, w) \<Rightarrow> (\<not> ctx_done, a, w)
              | (Inr nid, a, w) \<Rightarrow> (True, a, w))
        else (\<not> ctx_done, a, w)))"

definition initial_backoff :: duration where
  "initial_backoff = 100 * Millisecond"

text \<open>
  The end of a turn of \<open>watchLoop\<close>, when the call has failed or the stream has ended: the pause before
  the next turn (none when the loop returns) and the next \<open>backoff\<close>.
\<close>

definition next_backoff :: "duration \<Rightarrow> duration" where
  "next_backoff backoff = (if backoff < 2 * Second then backoff * 2 else backoff)"

definition watch_failed ::
  "('w, 'e) Client \<Rightarrow> ('e \<Rightarrow> bool) \<Rightarrow> bool \<Rightarrow> 'e \<Rightarrow> duration \<Rightarrow> Agent \<Rightarrow> 'w \<Rightarrow>
   (duration option \<times> duration) \<times> Agent \<times> 'w" where
  "watch_failed cl notFound ctx_done err backoff a w =
     (if ctx_done then ((None, backoff), a, w)
      else ((Some backoff, next_backoff backoff),
            if notFound err then snd (Agent_Register cl a w) else (a, w)))"

definition watch_ended :: "bool \<Rightarrow> duration option \<times> duration" where
  "watch_ended ctx_done = (if ctx_done then None else Some initial_backoff, initial_backoff)"

text \<open>The pauses of \<open>watchLoop\<close> while its context lives; \<open>True\<close> is a turn whose call opened a stream.\<close>

fun watch_pauses :: "duration \<Rightarrow> bool list \<Rightarrow> duration list" where
  "watch_pauses backoff [] = []"
| "watch_pauses backoff (opened # turns) =
     (if opened then the (fst (watch_ended False)) # watch_pauses (snd (watch_ended False)) turns
      else backoff # watch_pauses (next_backoff backoff) turns)"

text \<open>\<open>Run\<close>: what precedes the loops, and what follows them.\<close>

definition Agent_start :: "('w, 'e) Client \<Rightarrow> Agent \<Rightarrow> 'w \<Rightarrow> 'e option \<times> Agent \<times> 'w" where
  "Agent_start cl a w = (case Agent_Register cl a w of
     (Inl err, a, w) \<Rightarrow> (Some err, a, w)
   | (Inr nid, a, w) \<Rightarrow> Agent_Heartbeat cl a w)"

definition Agent_shutdown :: "Agent \<Rightarrow> Agent" where
  "Agent_shutdown a = a\<lparr>ag_exec := snd (node_stop [] (parent_cancel (ag_exec a)))\<rparr>"

section \<open>What the agent needs of the controller\<close>

text \<open>
  Registering a named node makes the controller know it by that name; the heartbeat of a node it knows is
  accepted and leaves it known, and that of a node it does not know fails with \<open>NotFound\<close> and changes
  nothing.
\<close>

locale node_service =
  fixes cl :: "('w, 'e) Client"
    and notFound :: "'e \<Rightarrow> bool"
    and known :: "string \<Rightarrow> 'w \<Rightarrow> bool"
  assumes register_known: "cf_ID cfg \<noteq> [] \<Longrightarrow> \<exists>resp w'. cl_RegisterNode cl (register_request cfg) w = (Inr resp, w') \<and>
      RegisterNodeResponse_GetNodeId (Some resp) = cf_ID cfg \<and> known (cf_ID cfg) w'"
    and heartbeat_known: "HeartbeatRequest_NodeId req \<noteq> [] \<Longrightarrow> known (HeartbeatRequest_NodeId req) w \<Longrightarrow>
      \<exists>resp w'. cl_Heartbeat cl req w = (Inr resp, w') \<and> known (HeartbeatRequest_NodeId req) w'"
    and heartbeat_unknown: "HeartbeatRequest_NodeId req \<noteq> [] \<Longrightarrow> \<not> known (HeartbeatRequest_NodeId req) w \<Longrightarrow>
      \<exists>err. cl_Heartbeat cl req w = (Inl err, w) \<and> notFound err"
begin

lemma register:
  assumes "cf_ID (ag_cfg a) \<noteq> []"
  shows "\<exists>w'. Agent_Register cl a w = (Inr (cf_ID (ag_cfg a)), a, w') \<and> known (cf_ID (ag_cfg a)) w'"
  using register_known [OF assms, of w] assms by (auto simp: Agent_Register_def Let_def)

lemma heartbeat:
  assumes "cf_ID (ag_cfg a) \<noteq> []"
  shows "if known (cf_ID (ag_cfg a)) w
    then \<exists>a' w'. Agent_Heartbeat cl a w = (None, a', w') \<and> ag_cfg a' = ag_cfg a \<and> known (cf_ID (ag_cfg a)) w'
    else \<exists>err. Agent_Heartbeat cl a w = (Some err, a, w) \<and> notFound err"
proof -
  have id: "HeartbeatRequest_NodeId (heartbeat_request a) = cf_ID (ag_cfg a)"
    by (simp add: heartbeat_request_def split_beta)
  with heartbeat_known [of "heartbeat_request a" w] heartbeat_unknown [of "heartbeat_request a" w] assms
  show ?thesis by (auto simp: Agent_Heartbeat_def Let_def)
qed

lemma turn:
  assumes "cf_ID (ag_cfg a) \<noteq> []"
  shows "\<exists>a' w'. heartbeat_turn cl notFound ctx_done a w = (True, a', w') \<and> ag_cfg a' = ag_cfg a \<and>
    known (cf_ID (ag_cfg a)) w' \<and> (\<not> known (cf_ID (ag_cfg a)) w \<longrightarrow> (Inr (cf_ID (ag_cfg a)), a', w') = Agent_Register cl a w)"
  using heartbeat [OF assms, of w] register [OF assms, of w] by (auto simp: heartbeat_turn_def split: if_splits)

lemma start:
  assumes "cf_ID (ag_cfg a) \<noteq> []"
  shows "\<exists>a' w'. Agent_start cl a w = (None, a', w') \<and> ag_cfg a' = ag_cfg a \<and> known (cf_ID (ag_cfg a)) w'"
proof -
  obtain w1 where w1: "Agent_Register cl a w = (Inr (cf_ID (ag_cfg a)), a, w1)" "known (cf_ID (ag_cfg a)) w1"
    using register [OF assms] by blast
  with heartbeat [OF assms, of w1] show ?thesis by (simp add: Agent_start_def)
qed

end

section \<open>Pauses\<close>

text \<open>The pause after \<open>k\<close> failures in a row.\<close>

definition pause_after :: "nat \<Rightarrow> duration" where
  "pause_after k = min (initial_backoff * 2 ^ k) (3200 * Millisecond)"

lemma next_pause: "next_backoff (pause_after k) = pause_after (Suc k)"
proof (cases "k < 5")
  case True
  then have "k = 0 \<or> k = 1 \<or> k = 2 \<or> k = 3 \<or> k = 4" by auto
  then show ?thesis by (auto simp: pause_after_def next_backoff_def initial_backoff_def Second_def Millisecond_def)
next
  case False
  then have "(2::int) ^ 5 \<le> 2 ^ k" by (intro power_increasing) simp_all
  then show ?thesis by (simp add: pause_after_def next_backoff_def initial_backoff_def Second_def Millisecond_def)
qed

lemma pause_start: "initial_backoff = pause_after 0"
  by (simp add: pause_after_def initial_backoff_def Millisecond_def)

lemma watch_pauses_failing:
  "watch_pauses (pause_after k) (replicate n False) = map pause_after [k..<k + n]"
proof (induction n arbitrary: k)
  case (Suc n)
  have "[k..<k + Suc n] = k # [Suc k..<Suc k + n]" by (simp add: upt_conv_Cons)
  with Suc [of "Suc k"] show ?case by (simp add: next_pause)
qed simp

lemma watch_pauses_opened:
  "watch_pauses b (turns @ True # turns') = watch_pauses b turns @ initial_backoff # watch_pauses initial_backoff turns'"
  by (induction turns arbitrary: b) (simp_all add: watch_ended_def)

lemma pause_bounds: "initial_backoff \<le> pause_after k" "pause_after k \<le> 3200 * Millisecond"
  by (simp_all add: pause_after_def initial_backoff_def Millisecond_def)

lemma watch_pauses_bounds: "p \<in> set (watch_pauses (pause_after k) turns) \<Longrightarrow> \<exists>k. p = pause_after k"
proof (induction turns arbitrary: k)
  case (Cons opened turns)
  show ?case
  proof (cases opened)
    case True
    with Cons.prems Cons.IH [of 0] show ?thesis by (auto simp: watch_ended_def pause_start)
  next
    case False
    with Cons.prems Cons.IH [of "Suc k"] show ?thesis by (auto simp: next_pause)
  qed
qed simp

section \<open>Properties\<close>

text \<open>The agent neither hammers the controller nor gives it up: every pause before \<open>WatchWork\<close> is called
  again is between 0.1 and 3.2 seconds, and in a row of failures, at the start or after a stream, the
  pauses double from 0.1 seconds until they reach 3.2.\<close>

theorem backoff_is_bounded:
  "(\<forall>p. p \<in> set (watch_pauses initial_backoff turns) \<longrightarrow> 100 * Millisecond \<le> p \<and> p \<le> 3200 * Millisecond) \<and>
   watch_pauses initial_backoff (replicate n False) = map (\<lambda>k. min (100 * Millisecond * 2 ^ k) (3200 * Millisecond)) [0..<n] \<and>
   watch_pauses initial_backoff (turns @ True # replicate n False) = watch_pauses initial_backoff turns @
     100 * Millisecond # map (\<lambda>k. min (100 * Millisecond * 2 ^ k) (3200 * Millisecond)) [0..<n]"
proof -
  have failing: "watch_pauses initial_backoff (replicate n False) = map pause_after [0..<n]"
    using watch_pauses_failing [of 0 n] by (simp add: pause_start)
  moreover have "watch_pauses initial_backoff (turns @ True # replicate n False) =
      watch_pauses initial_backoff turns @ initial_backoff # map pause_after [0..<n]"
    by (simp only: watch_pauses_opened failing)
  moreover have "initial_backoff \<le> p \<and> p \<le> 3200 * Millisecond" if "p \<in> set (watch_pauses initial_backoff turns)" for p
    using watch_pauses_bounds [of p 0] pause_bounds that by (auto simp flip: pause_start)
  ultimately show ?thesis by (simp add: pause_after_def [abs_def] initial_backoff_def)
qed

theorem backoff_is_bounded_witness:
  "watch_pauses initial_backoff [True, False, False] = [100 * Millisecond, 100 * Millisecond, 200 * Millisecond]"
  using backoff_is_bounded [of "[]" 2] by (simp add: Millisecond_def numeral_2_eq_2)

end
