(* ===== verification/Cluster.thy ===== *)
theory Cluster
  imports Agent Handlers
begin

text \<open>
  A node and the controller together: the agent's client (\<open>Agent\<close>) answered by the controller's
  handlers (\<open>Server\<close>), with nothing lost or reordered on the way.  What the process on the node did
  becomes the state of the job, a cancellation that only the heartbeat carries reaches the process,
  and an agent finds its way back to a controller that has lost its registration.
\<close>

definition server_client :: "instant \<Rightarrow> ('dur Server, rpc_code \<times> string) Client" where
  "server_client now =
     \<lparr>cl_RegisterNode = \<lambda>req. Server_RegisterNode now (Some req),
      cl_Heartbeat = \<lambda>req. Server_Heartbeat (Some req),
      cl_ReportJobStatus = \<lambda>req. Server_ReportJobStatus now (Some req)\<rparr>"

definition not_found :: "rpc_code \<times> string \<Rightarrow> bool" where
  "not_found e \<longleftrightarrow> fst e = NotFound"

lemma server_client_sel [simp]:
  "cl_RegisterNode (server_client now) r1 = Server_RegisterNode now (Some r1)"
  "cl_Heartbeat (server_client now) r2 = Server_Heartbeat (Some r2)"
  "cl_ReportJobStatus (server_client now) r3 = Server_ReportJobStatus now (Some r3)"
  by (simp_all add: server_client_def)

lemma report_on_server:
  "Agent_report (server_client now) jid ev c msg a s =
     snd (Server_ReportJobStatus now (Some (report_request (cf_ID (ag_cfg a)) jid ev (word_of_int c) msg)) s)"
  by (simp add: Agent_report_def report_request_def)

lemma started_report_ignored:
  "snd (Server_ReportJobStatus now (Some (report_request n jid JOB_EVENT_STARTED c msg)) s) = s"
  by (simp add: Server_ReportJobStatus_def report_found_def Let_def)

section \<open>Registration\<close>

definition registered_node :: "Config \<Rightarrow> Node" where
  "registered_node cfg = zero_Node\<lparr>node_ID := cf_ID cfg, Hostname := cf_Hostname cfg, Address := cf_Address cfg,
     TotalCPUs := max 1 (sint (word_of_int (cf_TotalCPUs cfg) :: int32)), node_Status := StatusOnline\<rparr>"

lemma register_on_server:
  assumes "cf_ID cfg \<noteq> []"
  shows "Server_RegisterNode now (Some (register_request cfg)) s = (Inr \<lparr>RegisterNodeResponse_NodeId = cf_ID cfg\<rparr>,
     srv_kick (set_registry (RegisterNode now (registered_node cfg) (srv_registry s)) s))"
  using assms by (simp add: Server_RegisterNode_def register_request_def registered_node_def pb_getters Let_def max_def)

lemma registered_lookup:
  assumes "cf_ID cfg \<noteq> []"
  shows "\<exists>n. Reg_Get (cf_ID cfg) (RegisterNode now (registered_node cfg) r) = Some n \<and>
    (Reg_Get (cf_ID cfg) r = None \<longrightarrow> node_Status n = StatusOnline \<and> CurrentJobID n = [] \<and>
      TotalCPUs n = max 1 (sint (word_of_int (cf_TotalCPUs cfg) :: int32)))"
  using assms by (auto simp: Reg_Get_def RegisterNode_def Let_def registered_node_def zero_Node_def merge_existing_def
      split: option.split)

interpretation service: node_service "server_client now" not_found "\<lambda>n s. Reg_Get n (srv_registry s) \<noteq> None"
proof
  fix cfg :: Config and s :: "'a Server"
  assume id: "cf_ID cfg \<noteq> []"
  show "\<exists>resp s'. cl_RegisterNode (server_client now) (register_request cfg) s = (Inr resp, s') \<and>
      RegisterNodeResponse_GetNodeId (Some resp) = cf_ID cfg \<and> Reg_Get (cf_ID cfg) (srv_registry s') \<noteq> None"
    using registered_lookup [OF id, of now "srv_registry s"] by (auto simp: register_on_server [OF id] pb_getters)
qed (auto simp: Server_Heartbeat_def pb_getters Let_def not_found_def)

text \<open>An agent finds its way back: when the controller does not know the node (it was restarted), one
  turn of the heartbeat loop registers it again, online and free, the loop goes on whatever the context
  says, and the next heartbeat is accepted.  The job the agent may still run is not mentioned.\<close>

theorem agent_reregisters:
  assumes "cf_ID (ag_cfg a) \<noteq> []" "1 \<le> cf_TotalCPUs (ag_cfg a)" "cf_TotalCPUs (ag_cfg a) < 2 ^ 31"
    and "Reg_Get (cf_ID (ag_cfg a)) (srv_registry s) = None"
    and "heartbeat_turn (server_client now) not_found ctx_done a s = (goes_on, a', s')"
  shows "goes_on \<and> a' = a \<and> srv_jobs s' = srv_jobs s \<and>
    (\<exists>n. Reg_Get (cf_ID (ag_cfg a)) (srv_registry s') = Some n \<and> node_Status n = StatusOnline \<and>
       CurrentJobID n = [] \<and> TotalCPUs n = cf_TotalCPUs (ag_cfg a)) \<and>
    fst (Agent_Heartbeat (server_client now) a' s') = None"
proof -
  let ?id = "cf_ID (ag_cfg a)"
  have turn: "goes_on" "Reg_Get ?id (srv_registry s') \<noteq> None"
    "Agent_Register (server_client now) a s = (Inr ?id, a', s')"
    using service.turn [OF assms(1), of now ctx_done s] assms(4,5) by auto
  then have res: "a' = a" "s' = srv_kick (set_registry (RegisterNode now (registered_node (ag_cfg a)) (srv_registry s)) s)"
    by (auto simp: Agent_Register_def register_on_server [OF assms(1)] pb_getters Let_def)
  have "fst (Agent_Heartbeat (server_client now) a' s') = None"
    using service.heartbeat [OF assms(1), of s' now] turn(2) res(1) by (auto split: if_splits)
  moreover have "sint (word_of_int (cf_TotalCPUs (ag_cfg a)) :: int32) = cf_TotalCPUs (ag_cfg a)"
    using assms(2,3) by (intro sint_word_of_int32) (simp add: in_int32_def)
  ultimately show ?thesis
    using turn(1) res registered_lookup [OF assms(1), of now "srv_registry s"] assms(2,4) by simp
qed

definition sample_agent :: Agent where
  "sample_agent = \<lparr>ag_cfg = \<lparr>cf_ID = ''n1'', cf_Hostname = [], cf_Address = [], cf_TotalCPUs = 2, cf_Interval = Second\<rparr>,
     ag_exec = sample_busy\<rparr>"

lemma sample_agent_simps [simp]:
  "cf_ID (ag_cfg sample_agent) = ''n1''" "cf_TotalCPUs (ag_cfg sample_agent) = 2" "ag_exec sample_agent = sample_busy"
  by (simp_all add: sample_agent_def)

theorem agent_reregisters_witness:
  "fst (heartbeat_turn (server_client 3) not_found True sample_agent (New_Server None None None None True :: int Server))"
proof -
  let ?s = "New_Server None None None None True :: int Server"
  have "Reg_Get ''n1'' (srv_registry ?s) = None"
    by (simp add: New_Server_def Let_def Make_Scheduler_def Reg_Get_def Make_Registry_def)
  moreover obtain g a' s' where "heartbeat_turn (server_client 3) not_found True sample_agent ?s = (g, a', s')"
    by (metis prod_cases3)
  ultimately show ?thesis using agent_reregisters [of sample_agent ?s 3 True g a' s'] by simp
qed

section \<open>Cancelling through the heartbeat\<close>

lemma node_stop_hits:
  assumes "exec_ok s" "jid \<noteq> []" "ex_jobID (executor s) = jid"
  shows "\<exists>i r. active (snd (node_stop jid s)) = fmupd i r fmempty \<and> run_job r = jid \<and> run_ctx r \<noteq> Live \<and>
     fst (node_stop jid s) \<and> executor (snd (node_stop jid s)) = executor s"
proof -
  from assms obtain i r where r: "active s = fmupd i r fmempty" "run_job r = jid" "ex_cancel (executor s) = Some i"
    by (auto simp: exec_ok_def)
  with assms(2,3) have "active (snd (node_stop jid s)) = fmupd i (end_ctx Canceled r) fmempty"
    by (simp add: node_stop_def Executor_Stop_def cancel_ctx_def)
  with r assms(2,3) show ?thesis
    by (intro exI [of _ i] exI [of _ "end_ctx Canceled r"])
      (auto simp: end_ctx_def node_stop_def Executor_Stop_def)
qed

text \<open>A cancellation needs no stream: when the controller has a pending cancel for the job that the
  node runs, the next heartbeat ends the context of its run, so the process is killed unless it exits
  first; the heartbeat changes nothing but the monitor's queue at the controller.\<close>

theorem heartbeat_delivers_cancel:
  assumes "exec_steps asDur node_start es (ag_exec a)" "\<forall>x. Call x \<in> set es \<longrightarrow> WorkAssignment_GetJobId x \<noteq> []"
    and "fst (Executor_Current (executor (ag_exec a))) = jid" "jid \<noteq> []"
    and "cf_ID (ag_cfg a) \<noteq> []" "Reg_Get (cf_ID (ag_cfg a)) (srv_registry s) = Some x"
    and "PendingCancel (cf_ID (ag_cfg a)) (srv_hub s) = jid"
    and "Agent_Heartbeat (server_client now) a s = (err, a', s')"
  shows "err = None \<and> s' = s\<lparr>srv_monitor := Record (cf_ID (ag_cfg a)) (srv_monitor s)\<rparr> \<and>
    (\<exists>i r. active (ag_exec a') = fmupd i r fmempty \<and> run_job r = jid \<and> run_ctx r \<noteq> Live)"
proof -
  have ok: "exec_ok (ag_exec a)" using assms(2) by (intro exec_ok_steps [OF assms(1) exec_ok_start]) blast
  have cur: "ex_jobID (executor (ag_exec a)) = jid" using assms(3) by (simp add: Executor_Current_def)
  have "Agent_Heartbeat (server_client now) a s = (None, a\<lparr>ag_exec := snd (node_stop jid (ag_exec a))\<rparr>,
      s\<lparr>srv_monitor := Record (cf_ID (ag_cfg a)) (srv_monitor s)\<rparr>)"
    using assms(4-7) by (simp add: Agent_Heartbeat_def Server_Heartbeat_def heartbeat_request_def Executor_Current_def
        pb_getters Let_def)
  with assms(8) have res: "err = None" "a' = a\<lparr>ag_exec := snd (node_stop jid (ag_exec a))\<rparr>"
    "s' = s\<lparr>srv_monitor := Record (cf_ID (ag_cfg a)) (srv_monitor s)\<rparr>" by simp_all
  from node_stop_hits [OF ok assms(4) cur] show ?thesis unfolding res by auto
qed

section \<open>What the process did becomes the state of the job\<close>

text \<open>C9.  End to end: when a run of a job that has this node as its whole gang returns, the controller's
  job says what the process did.  It is completed only if the process exited cleanly, failed with the
  process's code and message if it failed, and in both cases the node is free; but if the run was
  stopped while the job still counts as running, nothing changes at the controller.\<close>

theorem result_becomes_job_state:
  assumes "srv_inv s" "fmlookup (jobs (srv_jobs s)) jid = Some j" "job_Status j = StatusRunning"
    and "AssignedNodeIDs j = [cf_ID (ag_cfg a)]"
    and "exec_steps asDur node_start es (ag_exec a)"
    and "fmlookup (active (ag_exec a)) i = Some r" "run_phase r = Done res" "run_job r = jid" "in_int32 (rs_ExitCode res)"
    and "finishAssignment (server_client now) i a s = (a', s')"
  shows "\<exists>j'. fmlookup (jobs (srv_jobs s')) jid = Some j' \<and>
    (case rs_Event res of
       JOB_EVENT_COMPLETED \<Rightarrow> job_Status j' = StatusCompleted \<and> ExitCode j' = 0 \<and> Exited i None \<in> set es \<and> \<not> carried jid s'
     | JOB_EVENT_FAILED \<Rightarrow> job_Status j' = StatusFailed \<and> ExitCode j' = rs_ExitCode res \<and> ErrorMessage j' = rs_ErrMsg res \<and>
         \<not> carried jid s'
     | JOB_EVENT_CANCELLED \<Rightarrow> j' = j \<and> srv_registry s' = srv_registry s
     | _ \<Rightarrow> False)"
proof -
  let ?n = "cf_ID (ag_cfg a)"
  note jid = nokey [OF assms(1,2)]
  have n: "?n \<noteq> []" using running_nodes_named [OF assms(1-3)] assms(4) by auto
  from srv_inv_running(3) [OF assms(1-3)] assms(4) obtain x where reg: "Reg_Get ?n (srv_registry s) = Some x"
    by (auto simp: Reg_Get_def)
  have s': "s' = snd (Server_ReportJobStatus now (Some (report_request ?n jid (rs_Event res)
      (word_of_int (rs_ExitCode res)) (rs_ErrMsg res))) s)"
    using assms(6-8,10) by (auto simp: finishAssignment_def report_on_server)
  have inv: "srv_inv s'" unfolding s' by (rule srv_inv_ReportJobStatus [OF assms(1)])
  have fresh: "reports_of (srv_jobs s) jid = fmempty"
    by (rule single_node_unreported [OF assms(1-3)]) (simp add: assms(4))
  have "history_ok [] node_start" by (simp add: history_ok_def node_start_def)
  from history_steps [OF assms(5) this] have "history_ok es (ag_exec a)" by simp
  from history_run [OF this assms(6)] assms(7) have just: "justified es i res" by (simp add: run_justified_def)
  have code: "sint (word_of_int (rs_ExitCode res) :: int32) = rs_ExitCode res" using assms(9) by simp
  have jobs: "srv_jobs s' = snd (ReportNodeEvent now jid ?n (rs_Event res = JOB_EVENT_FAILED) (rs_ExitCode res) (rs_ErrMsg res) (srv_jobs s))"
    if "rs_Event res \<noteq> JOB_EVENT_CANCELLED"
    unfolding s' using that just report_jobs [OF _ n jid reg assms(2)] code by (auto simp: ends_def justified_def)
  from just consider (ok) "rs_Event res = JOB_EVENT_COMPLETED" "rs_ExitCode res = 0" "Exited i None \<in> set es"
    | (bad) "rs_Event res = JOB_EVENT_FAILED" | (stop) "rs_Event res = JOB_EVENT_CANCELLED"
    by (auto simp: justified_def)
  then show ?thesis
  proof cases
    case ok
    with jobs fresh assms(2-4) have "fmlookup (jobs (srv_jobs s')) jid =
        Some (j\<lparr>job_Status := StatusCompleted, FinishedAt := now, ExitCode := 0\<rparr>)"
      by (simp add: ReportNodeEvent_eq Let_def max_exit_def)
    then show ?thesis using ok not_carried [OF inv jid] by auto
  next
    case bad
    with jobs fresh assms(2-4) have "fmlookup (jobs (srv_jobs s')) jid =
        Some (j\<lparr>job_Status := StatusFailed, FinishedAt := now, ExitCode := rs_ExitCode res, ErrorMessage := rs_ErrMsg res\<rparr>)"
      by (simp add: ReportNodeEvent_eq Let_def)
    then show ?thesis using bad not_carried [OF inv jid] by auto
  next
    case stop
    with n jid reg assms(2) have "srv_jobs s' = srv_jobs s" "srv_registry s' = srv_registry s"
      unfolding s' by (simp_all add: Server_ReportJobStatus_def report_found_def Let_def JM_Get_def)
    with stop assms(2) show ?thesis by simp
  qed
qed

theorem heartbeat_delivers_cancel_witness:
  "\<exists>i r. active (ag_exec (fst (snd (Agent_Heartbeat (server_client 3) sample_agent
      (set_hub (NotifyCancel [''n1''] ''job-1'' NewHub) sample_run))))) = fmupd i r fmempty \<and> run_job r = ''job-1'' \<and> run_ctx r \<noteq> Live"
proof -
  let ?s = "set_hub (NotifyCancel [''n1''] ''job-1'' NewHub) sample_run"
  have p: "PendingCancel ''n1'' (srv_hub ?s) = ''job-1''" by (simp add: PendingCancel_Notify)
  obtain x where x: "Reg_Get ''n1'' (srv_registry ?s) = Some x"
    by (simp add: set_hub_def sample_run_fields Reg_Get_def)
  obtain err a' s' where h: "Agent_Heartbeat (server_client 3) sample_agent ?s = (err, a', s')" by (metis prod_cases3)
  have cur: "fst (Executor_Current (executor (ag_exec sample_agent))) = ''job-1''" by (simp add: Executor_Current_def)
  have steps: "exec_steps (\<lambda>d. d) node_start [Call sample_assignment] (ag_exec sample_agent)" using sample_call by simp
  have named: "\<forall>x. Call x \<in> set [Call sample_assignment] \<longrightarrow> WorkAssignment_GetJobId x \<noteq> []"
    by (simp add: sample_assignment_def pb_getters)
  from heartbeat_delivers_cancel [OF steps named cur _ _ _ _ h] x p
  have "\<exists>i r. active (ag_exec a') = fmupd i r fmempty \<and> run_job r = ''job-1'' \<and> run_ctx r \<noteq> Live" by simp
  then show ?thesis by (simp only: h fst_conv snd_conv)
qed

theorem result_becomes_job_state_witness:
  "\<exists>j'. fmlookup (jobs (srv_jobs (snd (finishAssignment (server_client 9) 0 (sample_agent\<lparr>ag_exec := sample_exited\<rparr>) sample_started))))
      ''job-1'' = Some j' \<and> job_Status j' = StatusCompleted"
proof -
  let ?a = "sample_agent\<lparr>ag_exec := sample_exited\<rparr>"
  let ?r = "\<lparr>run_job = ''job-1'', run_timed = True, run_ctx = Live, run_phase = Done (resultFromWait None)\<rparr>"
  have gang: "AssignedNodeIDs sample_active = [cf_ID (ag_cfg ?a)]" by (simp add: sample_started_facts)
  have look: "fmlookup (active (ag_exec ?a)) 0 = Some ?r" by (simp add: sample_exited_def set_phase_def)
  have steps: "exec_steps (\<lambda>d. d) node_start [Call sample_assignment, Started 0, Exited 0 None] (ag_exec ?a)"
    using sample_exited_steps by simp
  have fin: "finishAssignment (server_client 9) 0 ?a sample_started =
    (fst (finishAssignment (server_client 9) 0 ?a sample_started), snd (finishAssignment (server_client 9) 0 ?a sample_started))"
    by simp
  from result_becomes_job_state [OF sample_started_facts(1-3) gang steps look _ _ _ fin, of "resultFromWait None"]
  show ?thesis by (simp add: resultFromWait_def in_int32_def) blast
qed

section \<open>An assignment that comes too early\<close>

text \<open>The race of a reused node: \<open>CancelJob\<close> frees the nodes of a gang before their processes are dead.
  If the scheduler gives such a node the next job while the old run is still being torn down, the agent
  refuses it, and the refusal fails that job with \<open>node busy\<close>: no node carries it any more and the rest
  of its gang is told to stop.\<close>

theorem early_assignment_fails_the_job:
  assumes "srv_inv s" "fmlookup (jobs (srv_jobs s)) jid = Some j" "job_Status j = StatusRunning"
    and "cf_ID (ag_cfg a) \<in> set (AssignedNodeIDs j)"
    and "fmlookup (reports_of (srv_jobs s) jid) (cf_ID (ag_cfg a)) = None"
    and "fst (Executor_Current (executor (ag_exec a))) \<noteq> []"
    and "WorkAssignment_GetJobId asgn = jid" "WorkAssignment_GetCommand asgn \<noteq> []"
    and "handleAssignment asDur (server_client now) asgn a s = (a', s')"
  shows "a' = a \<and> fmlookup (jobs (srv_jobs s')) jid =
      Some (j\<lparr>job_Status := StatusFailed, FinishedAt := now, ExitCode := 1, ErrorMessage := ''node busy''\<rparr>) \<and>
    \<not> carried jid s' \<and>
    (\<forall>k \<in> set (AssignedNodeIDs j). k \<noteq> cf_ID (ag_cfg a) \<longrightarrow> PendingCancel k (srv_hub s') = jid)"
proof -
  obtain x where x: "asgn = Some x" using assms(8) by (cases asgn) (simp_all add: pb_getters)
  have "Run_begin asDur asgn (ag_exec a) = (Some (failed_result ''node busy''), ag_exec a)"
    using assms(6,8) by (simp add: x Run_begin_def Executor_Current_def)
  then have "a' = a" "s' = snd (Server_ReportJobStatus now (Some (report_request (cf_ID (ag_cfg a)) jid
      JOB_EVENT_FAILED (word_of_int 1) ''node busy'')) s)"
    using assms(7,9) by (auto simp: x handleAssignment_def report_on_server started_report_ignored failed_result_def)
  with failure_report [OF assms(1-5) this(2)] show ?thesis by simp
qed

theorem early_assignment_fails_the_job_witness:
  "fmlookup (jobs (srv_jobs (snd (handleAssignment (\<lambda>d. d) (server_client 8) sample_assignment sample_agent sample_started))))
     ''job-1'' = Some (sample_active\<lparr>job_Status := StatusFailed, FinishedAt := 8, ExitCode := 1, ErrorMessage := ''node busy''\<rparr>)"
proof -
  have fin: "handleAssignment (\<lambda>d. d) (server_client 8) sample_assignment sample_agent sample_started =
    (fst (handleAssignment (\<lambda>d. d) (server_client 8) sample_assignment sample_agent sample_started),
     snd (handleAssignment (\<lambda>d. d) (server_client 8) sample_assignment sample_agent sample_started))" by simp
  from early_assignment_fails_the_job [OF sample_started_facts(1-3) _ _ _ _ _ fin]
  show ?thesis by (simp add: sample_started_facts Executor_Current_def sample_assignment_def pb_getters)
qed

section \<open>What the process is told\<close>

lemma assignmentEnv_lookup:
  "fmlookup (assignmentEnv j rank nnodes) k =
     (if k = ''SLURMLITE_CPUS_PER_NODE'' then Some (itoa (CPUsPerNode (Resources (job_Spec j))))
      else if k = ''SLURMLITE_NNODES'' then Some (itoa nnodes)
      else if k = ''SLURMLITE_NODE_RANK'' then Some (itoa rank)
      else if k = ''SLURMLITE_JOB_ID'' then Some (job_ID j)
      else fmlookup (Env (job_Spec j)) k)"
  by (simp add: assignmentEnv_def Let_def go_copy_eq)

text \<open>The process knows its place: the process a node starts for the assignment of rank \<open>r\<close> of a job runs
  the job's command and arguments, and sees the job's id, its rank, the size of the gang and its CPUs in
  the four \<open>SLURMLITE\<close> variables whatever the job or the node define, the job's own variables next, and
  the node's for the rest.\<close>

theorem process_sees_its_rank:
  assumes "asgn = Some (assignmentToProto dNew (assignment_for j rank nnodes))"
    and "go_range ks (WorkAssignment_GetEnv asgn)"
    and "\<forall>k. fmlookup (Env (job_Spec j)) k \<noteq> None \<longrightarrow> CHR ''='' \<notin> set k"
    and "cmd = Run_command ks environ asgn"
  shows "cmd_Path cmd = Command (job_Spec j) \<and> cmd_Args cmd = Args (job_Spec j) \<and>
    env_get (cmd_Env cmd) ''SLURMLITE_JOB_ID'' = Some (job_ID j) \<and>
    env_get (cmd_Env cmd) ''SLURMLITE_NODE_RANK'' = Some (itoa rank) \<and>
    env_get (cmd_Env cmd) ''SLURMLITE_NNODES'' = Some (itoa nnodes) \<and>
    env_get (cmd_Env cmd) ''SLURMLITE_CPUS_PER_NODE'' = Some (itoa (CPUsPerNode (Resources (job_Spec j)))) \<and>
    (\<forall>k. k \<notin> {''SLURMLITE_JOB_ID'', ''SLURMLITE_NODE_RANK'', ''SLURMLITE_NNODES'', ''SLURMLITE_CPUS_PER_NODE''} \<longrightarrow>
       env_get (cmd_Env cmd) k = (case fmlookup (Env (job_Spec j)) k of Some v \<Rightarrow> Some v | None \<Rightarrow> env_get environ k))"
proof -
  have env: "WorkAssignment_GetEnv asgn = assignmentEnv j rank nnodes"
    by (simp add: assms(1) pb_getters assignmentToProto_def assignment_for_def)
  have "CHR ''='' \<notin> set k" if "fmlookup (assignmentEnv j rank nnodes) k \<noteq> None" for k
    using that assms(3) by (auto simp: assignmentEnv_lookup split: if_splits)
  then have get: "env_get (cmd_Env cmd) k =
      (case fmlookup (assignmentEnv j rank nnodes) k of Some v \<Rightarrow> Some v | None \<Rightarrow> env_get environ k)" for k
    using merge_get [of ks "assignmentEnv j rank nnodes" environ k] assms(2,4) env by (simp add: Run_command_def)
  show ?thesis
    unfolding get assignmentEnv_lookup
    by (simp add: assms(1,4) Run_command_def pb_getters assignmentToProto_def assignment_for_def)
qed

theorem process_sees_its_rank_witness:
  "env_get (cmd_Env (Run_command [''SLURMLITE_NNODES'', ''SLURMLITE_JOB_ID'', ''SLURMLITE_CPUS_PER_NODE'', ''SLURMLITE_NODE_RANK'']
     [''SLURMLITE_JOB_ID=x'', ''A=b''] (Some (assignmentToProto (\<lambda>d. d) (assignment_for (sample_job ''a'' 2) 1 2)))))
     ''SLURMLITE_JOB_ID'' = Some ''a''"
proof -
  let ?ks = "[''SLURMLITE_NNODES'', ''SLURMLITE_JOB_ID'', ''SLURMLITE_CPUS_PER_NODE'', ''SLURMLITE_NODE_RANK'']"
  let ?asgn = "Some (assignmentToProto (\<lambda>d. d) (assignment_for (sample_job ''a'' 2) 1 2))"
  have env: "Env (job_Spec (sample_job ''a'' 2)) = fmempty" by (simp add: sample_job_def sample_spec_def)
  have "fmdom' (assignmentEnv (sample_job ''a'' 2) 1 2) = set ?ks"
    by (auto simp: set_eq_iff mem_fmdom' assignmentEnv_lookup env)
  then have "go_range ?ks (WorkAssignment_GetEnv ?asgn)"
    by (simp add: go_range_def pb_getters assignmentToProto_def assignment_for_def)
  from process_sees_its_rank [OF refl this _ refl] show ?thesis by (simp add: env)
qed

end
