(* ===== verification/Solo.thy ===== *)
theory Solo
  imports Interleaving
begin

text \<open>
  A thread on its own.  When nothing comes between its steps, a handler of \<open>Threads\<close> does exactly what the
  function of \<open>Server\<close> says, an attempt of the scheduler what \<open>trySchedule\<close> says, and a tick of the monitor
  what \<open>tick\<close> says: the atomic model is the special case of the model call by call.  And whatever
  comes between its steps, a handler that is given enough of them returns.
\<close>

section \<open>Running a thread alone\<close>

definition reaches :: "('c \<Rightarrow> 'c) \<Rightarrow> 'c \<Rightarrow> 'c \<Rightarrow> bool" where
  "reaches f c d \<longleftrightarrow> (\<exists>n. (f ^^ n) c = d)"

lemma reaches_refl [simp]: "reaches f c c"
  unfolding reaches_def by (rule exI [of _ 0]) simp

lemma reaches_step: "reaches f (f c) d \<Longrightarrow> reaches f c d"
  unfolding reaches_def using funpow_swap1 [of f] by (metis comp_apply funpow_Suc_right)

lemma reaches_trans: "reaches f c d \<Longrightarrow> reaches f d e \<Longrightarrow> reaches f c e"
  unfolding reaches_def by (metis comp_apply funpow_add)

abbreviation handler_alone ::
  "('dur \<Rightarrow> duration) \<Rightarrow> (duration \<Rightarrow> 'dur) \<Rightarrow> (instant \<Rightarrow> 'ts) \<Rightarrow> input \<Rightarrow>
   ('dur, 'ts) pc \<times> 'dur Server \<Rightarrow> ('dur, 'ts) pc \<times> 'dur Server \<Rightarrow> bool" where
  "handler_alone asDur dNew tsNew i \<equiv> reaches (\<lambda>(p, s). call_step asDur dNew tsNew i p s)"

abbreviation sched_alone ::
  "(duration \<Rightarrow> 'dur) \<Rightarrow> wake \<Rightarrow> instant \<Rightarrow> 'dur sched_pc \<times> 'dur Server \<Rightarrow> 'dur sched_pc \<times> 'dur Server \<Rightarrow> bool" where
  "sched_alone dNew wk now \<equiv> reaches (\<lambda>(p, s). sched_step dNew wk now p s)"

abbreviation mon_alone ::
  "mon_case \<Rightarrow> string list \<Rightarrow> instant \<Rightarrow> 'dur mon_pc \<times> 'dur Server \<Rightarrow> 'dur mon_pc \<times> 'dur Server \<Rightarrow> bool" where
  "mon_alone c ks now \<equiv> reaches (\<lambda>(p, s). mon_step c ks now p s)"

text \<open>Rules to run a thread: one step, evaluated.\<close>

lemma handler_stepI: "handler_alone asDur dNew tsNew i (call_step asDur dNew tsNew i p s) d \<Longrightarrow> handler_alone asDur dNew tsNew i (p, s) d"
  by (rule reaches_step) simp

lemma sched_stepI: "sched_alone dNew wk now (sched_step dNew wk now p s) d \<Longrightarrow> sched_alone dNew wk now (p, s) d"
  by (rule reaches_step) simp

lemma mon_stepI: "mon_alone c ks now (mon_step c ks now p s) d \<Longrightarrow> mon_alone c ks now (p, s) d"
  by (rule reaches_step) simp

section \<open>Calls of the hub\<close>

lemma set_set [simp]:
  "set_hub h (set_hub h' s) = set_hub h s" "set_jobs m (set_jobs m' s) = set_jobs m s" "set_registry r (set_registry r' s) = set_registry r s"
  by (simp_all add: set_hub_def set_jobs_def set_registry_def)

lemma fold_notify_sections: "fold hub_apply (notify_sections ids jid) h = NotifyCancel ids jid h"
  by (simp add: notify_sections_def NotifyCancel_def notify_loop_sections)

lemma fold_dispatch_sections: "n \<noteq> [] \<Longrightarrow> fold hub_apply (dispatch_sections dNew n a) h = snd (Dispatch dNew n a h)"
  by (simp add: dispatch_sections_def Dispatch_sections)

lemma cancel_notifies:
  "handler_alone asDur dNew tsNew i (CancelKick jid, set_hub (fold hub_apply ops (srv_hub s)) s) d \<Longrightarrow>
   handler_alone asDur dNew tsNew i (CancelNotify jid ops, s) d"
proof (induction ops arbitrary: s)
  case Nil
  then show ?case by (intro handler_stepI) simp
next
  case (Cons c cs)
  then show ?case by (intro handler_stepI) simp
qed

lemma report_notifies:
  "handler_alone asDur dNew tsNew i (ReportKick, set_hub (fold hub_apply ops (srv_hub s)) s) d \<Longrightarrow>
   handler_alone asDur dNew tsNew i (ReportNotify ops, s) d"
proof (induction ops arbitrary: s)
  case Nil
  then show ?case by (intro handler_stepI) simp
next
  case (Cons c cs)
  then show ?case by (intro handler_stepI) simp
qed

section \<open>The handlers\<close>

lemma register_alone:
  "handler_alone asDur dNew tsNew i (Entered (RegisterNodeReq req), s)
     (Returned (RegisterNodeReply (fst (Server_RegisterNode (in_now i) req s))), snd (Server_RegisterNode (in_now i) req s))"
proof -
  have "handler_alone asDur dNew tsNew i (RegisterKick nid, s')
      (Returned (RegisterNodeReply (Inr \<lparr>RegisterNodeResponse_NodeId = nid\<rparr>)), srv_kick s')" for nid s'
    by (intro handler_stepI) simp
  then show ?thesis by (intro handler_stepI) (auto simp: Server_RegisterNode_def Let_def)
qed

lemma heartbeat_alone:
  "handler_alone asDur dNew tsNew i (Entered (HeartbeatReq req), s)
     (Returned (HeartbeatReply (fst (Server_Heartbeat req s))), snd (Server_Heartbeat req s))"
  by (intro handler_stepI, simp add: Server_Heartbeat_def Let_def) (intro impI handler_stepI, simp, intro handler_stepI, simp)

lemma submit_alone:
  "handler_alone asDur dNew tsNew i (Entered (SubmitJobReq req), s)
     (Returned (SubmitJobReply (fst (Server_SubmitJob asDur dNew tsNew (in_now i) req s))),
      snd (Server_SubmitJob asDur dNew tsNew (in_now i) req s))"
proof (cases "specFromProto asDur (SubmitJobRequest_GetSpec req)")
  case (Inl err)
  then show ?thesis by (intro handler_stepI) (simp add: Server_SubmitJob_def)
next
  case (Inr spec)
  let ?s = "s\<lparr>idSeq := idSeq s + 1\<rparr>" and ?jid = "job_name (idSeq s + 1)"
  show ?thesis
  proof (cases "New_Job (in_now i) ?jid spec")
    case (Inl err)
    with Inr show ?thesis
      by (intro handler_stepI, simp add: Server_SubmitJob_def Let_def) (intro handler_stepI, simp)
  next
    case new: (Inr j)
    obtain e m where sub: "Submit (Some j) (srv_jobs s) = (e, m)" by fastforce
    show ?thesis
    proof (cases e)
      case None
      with Inr new sub show ?thesis
        by (intro handler_stepI, simp add: Server_SubmitJob_def Let_def)
          (intro handler_stepI, simp, intro handler_stepI, simp, intro handler_stepI, simp split: sum.split)
    next
      case (Some err)
      with Inr new sub show ?thesis
        by (intro handler_stepI, simp add: Server_SubmitJob_def Let_def) (intro handler_stepI, simp)
    qed
  qed
qed

lemma cancel_found_alone:
  "handler_alone asDur dNew tsNew i (CancelCancel jid j, s)
     (Returned (CancelJobReply (fst (cancel_found dNew tsNew (in_now i) jid j s))), snd (cancel_found dNew tsNew (in_now i) jid j s))"
proof -
  obtain res m where c: "JM_Cancel (in_now i) jid (srv_jobs s) = (res, m)" by fastforce
  have get: "handler_alone asDur dNew tsNew i (CancelGet jid, s')
      (Returned (CancelJobReply (case JM_Get jid (srv_jobs s') of Inl err \<Rightarrow> Inl (Internal, error_text err)
         | Inr job \<Rightarrow> Inr \<lparr>CancelJobResponse_Job = jobToProto dNew tsNew (Some job)\<rparr>)), s')" for s'
    by (intro handler_stepI) (simp split: sum.split)
  show ?thesis
  proof (cases res)
    case (Inl err)
    with c show ?thesis by (intro handler_stepI) (simp add: cancel_found_def)
  next
    case (Inr signal)
    show ?thesis
    proof (cases signal)
      case False
      with c Inr get [of "set_jobs m s"] show ?thesis
        by (cases "JM_Get jid m"; intro handler_stepI) (simp_all add: cancel_found_def Let_def)
    next
      case True
      let ?r = "ReleaseNodes (AssignedNodeIDs j) (CPUsPerNode (Resources (job_Spec j))) (srv_registry s)"
      let ?s = "srv_kick (set_hub (NotifyCancel (AssignedNodeIDs j) jid (srv_hub s)) (set_registry ?r (set_jobs m s)))"
      from get [of ?s] have "handler_alone asDur dNew tsNew i (CancelNotify jid (notify_sections (AssignedNodeIDs j) jid), set_registry ?r (set_jobs m s))
          (Returned (CancelJobReply (fst (cancel_found dNew tsNew (in_now i) jid j s))), snd (cancel_found dNew tsNew (in_now i) jid j s))"
        by (intro cancel_notifies handler_stepI)
          (simp add: fold_notify_sections cancel_found_def c Inr True Let_def split: sum.splits)
      with c Inr True show ?thesis by (intro handler_stepI) (simp, intro handler_stepI, simp)
    qed
  qed
qed

lemma cancel_alone:
  "handler_alone asDur dNew tsNew i (Entered (CancelJobReq req), s)
     (Returned (CancelJobReply (fst (Server_CancelJob dNew tsNew (in_now i) req s))), snd (Server_CancelJob dNew tsNew (in_now i) req s))"
  by (intro handler_stepI) (auto simp: Server_CancelJob_def Let_def cancel_found_alone split: sum.split)

lemma report_found_alone:
  assumes "ReportJobStatusRequest_GetEvent req \<noteq> JOB_EVENT_CANCELLED"
  shows "handler_alone asDur dNew tsNew i (ReportEvent req prior, s)
     (Returned (ReportJobStatusReply (fst (report_found (in_now i) req prior s))), snd (report_found (in_now i) req prior s))"
proof -
  let ?jid = "ReportJobStatusRequest_GetJobId req" and ?n = "ReportJobStatusRequest_GetNodeId req"
  let ?goal = "(Returned (ReportJobStatusReply (fst (report_found (in_now i) req prior s))), snd (report_found (in_now i) req prior s))"
  obtain e m where r: "ReportNodeEvent (in_now i) ?jid ?n (ReportJobStatusRequest_GetEvent req = JOB_EVENT_FAILED)
      (sint (ReportJobStatusRequest_GetExitCode req)) (ReportJobStatusRequest_GetErrorMessage req) (srv_jobs s) = (e, m)"
    by fastforce
  note found = report_found_def [of "in_now i" req prior s] assms r
  have kick: "handler_alone asDur dNew tsNew i (ReportKick, s')
      (Returned (ReportJobStatusReply (Inr \<lparr>ReportJobStatusResponse_Acknowledged = True\<rparr>)), srv_kick s')" for s'
    by (intro handler_stepI) simp
  show ?thesis
  proof (cases e)
    case (Some err)
    with found show ?thesis by (intro handler_stepI) (simp add: Let_def)
  next
    case None
    let ?s = "set_hub (ClearCancel ?n ?jid (srv_hub s)) (set_jobs m s)"
    have "handler_alone asDur dNew tsNew i (ReportAfter req prior, ?s) ?goal"
    proof (cases "JM_Get ?jid m")
      case (Inl err)
      with found None show ?thesis by (intro handler_stepI) (simp add: Let_def)
    next
      case (Inr after)
      show ?thesis
      proof (cases "Terminal (job_Status after) \<and> \<not> Terminal (job_Status prior)")
        case False
        with found None Inr show ?thesis by (intro handler_stepI) (auto simp: Let_def)
      next
        case True
        let ?r = "ReleaseNodes (AssignedNodeIDs after) (CPUsPerNode (Resources (job_Spec after))) (srv_registry s)"
        let ?others = "filter (\<lambda>n. n \<noteq> ?n) (AssignedNodeIDs after)"
        have "handler_alone asDur dNew tsNew i (ReportRelease req after, ?s) ?goal"
        proof (cases "job_Status after = StatusFailed")
          case failed: True
          have "handler_alone asDur dNew tsNew i (ReportNotify (notify_sections ?others ?jid), set_registry ?r ?s) ?goal"
            using kick [of "set_hub (NotifyCancel ?others ?jid (ClearCancel ?n ?jid (srv_hub s))) (set_registry ?r ?s)"]
            by (intro report_notifies) (simp add: fold_notify_sections found None Inr True failed Let_def)
          with failed show ?thesis by (intro handler_stepI) (simp add: Let_def)
        next
          case False
          with kick [of "set_registry ?r ?s"] found None Inr True show ?thesis
            by (intro handler_stepI) (simp add: Let_def)
        qed
        with Inr True show ?thesis by (intro handler_stepI) simp
      qed
    qed
    with None found show ?thesis by (intro handler_stepI, simp) (intro handler_stepI, simp)
  qed
qed

lemma report_alone:
  "handler_alone asDur dNew tsNew i (Entered (ReportJobStatusReq req), s)
     (Returned (ReportJobStatusReply (fst (Server_ReportJobStatus (in_now i) req s))), snd (Server_ReportJobStatus (in_now i) req s))"
proof -
  let ?jid = "ReportJobStatusRequest_GetJobId req"
  let ?goal = "(Returned (ReportJobStatusReply (fst (Server_ReportJobStatus (in_now i) req s))), snd (Server_ReportJobStatus (in_now i) req s))"
  let ?checked = "ReportJobStatusRequest_GetNodeId req \<noteq> [] \<and> ?jid \<noteq> [] \<and>
    Reg_Get (ReportJobStatusRequest_GetNodeId req) (srv_registry s) \<noteq> None \<and>
    ReportJobStatusRequest_GetEvent req \<notin> {JOB_EVENT_STARTED, JOB_EVENT_UNSPECIFIED}"
  show ?thesis
  proof (cases ?checked)
    case False
    then show ?thesis by (intro handler_stepI) (auto simp: Server_ReportJobStatus_def Let_def)
  next
    case True
    have "handler_alone asDur dNew tsNew i (ReportGet req, s) ?goal"
    proof (cases "JM_Get ?jid (srv_jobs s)")
      case (Inl err)
      with True show ?thesis by (intro handler_stepI) (auto simp: Server_ReportJobStatus_def Let_def)
    next
      case (Inr prior)
      with True have srv: "Server_ReportJobStatus (in_now i) req s = report_found (in_now i) req prior s"
        by (auto simp: Server_ReportJobStatus_def Let_def)
      show ?thesis
      proof (cases "ReportJobStatusRequest_GetEvent req = JOB_EVENT_CANCELLED")
        case canc: True
        show ?thesis unfolding srv
          by (intro handler_stepI, simp add: Inr canc) (intro handler_stepI, simp add: report_found_def canc Let_def)
      next
        case False
        with report_found_alone [OF this, of asDur dNew tsNew i prior s] Inr show ?thesis
          unfolding srv by (intro handler_stepI) simp
      qed
    qed
    with True show ?thesis by (intro handler_stepI) (auto simp: Let_def)
  qed
qed

section \<open>The scheduler and the monitor\<close>

lemma dispatch_sections_alone:
  "sched_alone dNew wk now (SchedDispatch j ids rank rest [], set_hub (fold hub_apply cs (srv_hub s)) s) d \<Longrightarrow>
   sched_alone dNew wk now (SchedDispatch j ids rank rest cs, s) d"
proof (induction cs arbitrary: s)
  case (Cons c cs)
  then show ?case by (intro sched_stepI) simp
qed simp

text \<open>The loop over the nodes, up to the first that cannot be sent to.\<close>

lemma dispatch_alone:
  "dispatch_loop (Dispatch dNew) j (int (length ids)) rank rest (srv_hub s) = (e, h) \<Longrightarrow>
   sched_alone dNew wk now (SchedDispatch j ids rank rest [], s)
     ((case e of None \<Rightarrow> SchedPeek | Some err \<Rightarrow> SchedFail j ids err), set_hub h s)"
proof (induction rest arbitrary: rank s)
  case Nil
  then have "e = None" "h = srv_hub s" by simp_all
  then show ?case by (intro sched_stepI) simp
next
  case (Cons n rest)
  let ?a = "assignment_for j rank (int (length ids))"
  show ?case
  proof (cases "n = []")
    case True
    with Cons.prems have "e = Some (Errorf ''node id is empty'')" "h = srv_hub s" by (auto simp: Dispatch_def)
    with True show ?thesis by (intro sched_stepI) simp
  next
    case False
    let ?h = "snd (Dispatch dNew n ?a (srv_hub s))"
    have "dispatch_loop (Dispatch dNew) j (int (length ids)) (rank + 1) rest ?h = (e, h)"
      using Cons.prems unfolding hub_disp.dispatch_loop_Cons [OF False [symmetric]] .
    with Cons.IH [of "rank + 1" "set_hub ?h s"] have "sched_alone dNew wk now (SchedDispatch j ids (rank + 1) rest [], set_hub ?h s)
        ((case e of None \<Rightarrow> SchedPeek | Some err \<Rightarrow> SchedFail j ids err), set_hub h s)" by simp
    then have "sched_alone dNew wk now (SchedDispatch j ids (rank + 1) rest (dispatch_sections dNew n ?a), s)
        ((case e of None \<Rightarrow> SchedPeek | Some err \<Rightarrow> SchedFail j ids err), set_hub h s)"
      unfolding fold_dispatch_sections [OF False, symmetric] by (rule dispatch_sections_alone)
    with False show ?thesis by (intro sched_stepI) simp
  qed
qed

text \<open>The end of an attempt, from the dispatch of a job that has been marked.\<close>

lemma dispatched_alone:
  assumes peek: "PeekPendingJob (srv_jobs s) = Some j"
    and sel: "SelectGang (ListNodes (srv_registry s)) (Resources (job_Spec j)) = Some ids"
    and r: "ReserveNodes (job_ID j) ids (CPUsPerNode (Resources (job_Spec j))) (srv_registry s) = (None, r)"
    and m: "JM_MarkRunning now (job_ID j) ids (srv_jobs s) = (None, m)"
  shows "sched_alone dNew wk now (SchedDispatch j ids 0 ids [], set_jobs m (set_registry r s))
     (if fst (trySchedule (Some (Dispatch dNew)) now now (comps s)) then SchedPeek else SchedWait, srv_schedule dNew now now s)"
proof -
  let ?c = "CPUsPerNode (Resources (job_Spec j))" and ?s = "set_jobs m (set_registry r s)"
  let ?goal = "(if fst (trySchedule (Some (Dispatch dNew)) now now (comps s)) then SchedPeek else SchedWait, srv_schedule dNew now now s)"
  obtain e3 h where h: "dispatchWork (Some (Dispatch dNew)) j ids (srv_hub s) = (e3, h)" by fastforce
  have "dispatch_loop (Dispatch dNew) j (int (length ids)) 0 ids (srv_hub ?s) = (e3, h)"
    using h by (simp add: dispatchWork_def)
  note disp = dispatch_alone [OF this, of wk now]
  have "sched_alone dNew wk now ((case e3 of None \<Rightarrow> SchedPeek | Some err \<Rightarrow> SchedFail j ids err), set_hub h ?s) ?goal"
  proof (cases e3)
    case None
    with assms h show ?thesis
      by (simp add: srv_schedule_def trySchedule_def Let_def set_registry_def set_jobs_def set_hub_def)
  next
    case err: (Some err)
    with assms h have "trySchedule (Some (Dispatch dNew)) now now (comps s) =
        (False, (comps s)\<lparr>jobManager := snd (JM_MarkFailed now (job_ID j) 1 (error_text err) m),
           registry := ReleaseNodes ids ?c r, dispatch := h\<rparr>)"
      by (simp add: trySchedule_def Let_def)
    then have goal: "?goal = (SchedWait, set_registry (ReleaseNodes ids ?c r)
        (set_jobs (snd (JM_MarkFailed now (job_ID j) 1 (error_text err) m)) (set_hub h ?s)))"
      by (simp add: srv_schedule_def set_registry_def set_jobs_def set_hub_def)
    show ?thesis unfolding goal err
      by (simp, intro sched_stepI, simp) (intro sched_stepI, simp)
  qed
  from reaches_trans [OF disp this] show ?thesis .
qed

lemma schedule_alone:
  "sched_alone dNew wk now (SchedPeek, s)
     (if fst (trySchedule (Some (Dispatch dNew)) now now (comps s)) then SchedPeek else SchedWait, srv_schedule dNew now now s)"
proof (cases "PeekPendingJob (srv_jobs s)")
  case None
  then show ?thesis by (intro sched_stepI) (simp add: srv_schedule_def trySchedule_def)
next
  case (Some j)
  let ?c = "CPUsPerNode (Resources (job_Spec j))"
  let ?goal = "(if fst (trySchedule (Some (Dispatch dNew)) now now (comps s)) then SchedPeek else SchedWait, srv_schedule dNew now now s)"
  have "sched_alone dNew wk now (SchedSelect j, s) ?goal"
  proof (cases "SelectGang (ListNodes (srv_registry s)) (Resources (job_Spec j))")
    case None
    with Some show ?thesis by (intro sched_stepI) (simp add: srv_schedule_def trySchedule_def Let_def)
  next
    case sel: (Some ids)
    obtain e1 r where r: "ReserveNodes (job_ID j) ids ?c (srv_registry s) = (e1, r)" by fastforce
    have "sched_alone dNew wk now (SchedReserve j ids, s) ?goal"
    proof (cases e1)
      case err: (Some err)
      with Some sel r show ?thesis
        by (intro sched_stepI) (simp add: srv_schedule_def trySchedule_def Let_def set_registry_def)
    next
      case res: None
      obtain e2 m where m: "JM_MarkRunning now (job_ID j) ids (srv_jobs s) = (e2, m)" by fastforce
      have "sched_alone dNew wk now (SchedMark j ids, set_registry r s) ?goal"
      proof (cases e2)
        case err: (Some err)
        with Some sel r res m have "trySchedule (Some (Dispatch dNew)) now now (comps s) =
            (False, (comps s)\<lparr>jobManager := m, registry := ReleaseNodes ids ?c r\<rparr>)"
          by (simp add: trySchedule_def Let_def)
        with m err show ?thesis
          by (intro sched_stepI, simp) (intro sched_stepI, simp add: srv_schedule_def set_registry_def set_jobs_def)
      next
        case mark: None
        from dispatched_alone [OF Some sel r [unfolded res] m [unfolded mark], of dNew wk] m mark show ?thesis
          by (intro sched_stepI) simp
      qed
      with r res show ?thesis by (intro sched_stepI) simp
    qed
    with sel show ?thesis by (intro sched_stepI) simp
  qed
  with Some show ?thesis by (intro sched_stepI) simp
qed

lemma drain_alone:
  "mon_alone c ks now (MonReap, set_registry (drain_loop (\<lambda>_. now) (heartbeats (srv_monitor s)) (srv_registry s))
       (s\<lparr>srv_monitor := (srv_monitor s)\<lparr>heartbeats := []\<rparr>\<rparr>)) d \<Longrightarrow>
   mon_alone c ks now (MonDrain, s) d"
proof (induction "heartbeats (srv_monitor s)" arbitrary: s)
  case Nil
  have "s\<lparr>srv_monitor := (srv_monitor s)\<lparr>heartbeats := []\<rparr>\<rparr> = s" unfolding Nil(1) by simp
  with Nil(2) show ?case by (intro mon_stepI) (simp add: Nil(1) [symmetric])
next
  case (Cons n rest)
  let ?s = "set_registry (snd (Touch now n (srv_registry s))) (s\<lparr>srv_monitor := (srv_monitor s)\<lparr>heartbeats := rest\<rparr>\<rparr>)"
  have "mon_alone c ks now (MonDrain, ?s) d"
    using Cons(3) by (intro Cons(1)) (simp_all add: Cons(2) [symmetric] set_registry_def)
  then show ?case by (intro mon_stepI, simp add: Cons(2) [symmetric]) (intro mon_stepI, simp add: set_registry_def)
qed

lemma mon_notifies:
  "mon_alone c ks now (MonRelease n ids cpus seen dead, set_hub (fold hub_apply ops (srv_hub s)) s) d \<Longrightarrow>
   mon_alone c ks now (MonNotify n ids cpus ops seen dead, s) d"
proof (induction ops arbitrary: s)
  case Nil
  then show ?case by (intro mon_stepI) simp
next
  case (Cons c cs)
  then show ?case by (intro mon_stepI) simp
qed

lemma failer_result:
  "FailRunningJob now jid why m = (res, m') \<Longrightarrow>
   Failer_FailRunningJob now jid why (Some m, Some h) =
     (res, (Some m', Some (case res of None \<Rightarrow> h | Some g \<Rightarrow> NotifyCancel (fst g) jid h)))"
  by (simp add: Failer_FailRunningJob_def split: option.split prod.split)

lemma dead_alone:
  assumes "dead_loop (Some Failer_FailRunningJob) (\<lambda>_. now) seen dead (srv_registry s) (Some (srv_jobs s), Some (srv_hub s)) = (r, (Some m, Some h))"
  shows "mon_alone c ks now (MonDead seen dead, s) (MonWait, set_hub h (set_jobs m (set_registry r s)))"
  using assms
proof (induction dead arbitrary: seen s)
  case Nil
  then have "set_hub h (set_jobs m (set_registry r s)) = s" by (auto simp: set_hub_def set_jobs_def set_registry_def)
  then show ?case by (intro mon_stepI) simp
next
  case (Cons n dead)
  let ?jid = "CurrentJobID n" and ?why = "''node '' @ node_ID n @ '' lost''"
  show ?case
  proof (cases "?jid = [] \<or> ?jid |\<in>| seen")
    case True
    with Cons.prems have "dead_loop (Some Failer_FailRunningJob) (\<lambda>_. now) seen dead (srv_registry s) (Some (srv_jobs s), Some (srv_hub s)) = (r, (Some m, Some h))"
      by (auto split: if_splits)
    from Cons.IH [OF this] True show ?thesis by (intro mon_stepI) simp
  next
    case False
    obtain res m1 where f: "FailRunningJob now ?jid ?why (srv_jobs s) = (res, m1)" by fastforce
    show ?thesis
    proof (cases res)
      case None
      let ?s = "set_registry (ReleaseNodes [node_ID n] (AllocatedCPUs n) (srv_registry s)) (set_jobs m1 s)"
      have "dead_loop (Some Failer_FailRunningJob) (\<lambda>_. now) (finsert ?jid seen) dead (srv_registry ?s) (Some (srv_jobs ?s), Some (srv_hub ?s)) = (r, (Some m, Some h))"
        using Cons.prems False None failer_result [OF f, of "srv_hub s"] by (simp add: Let_def del: ReleaseNodes_Cons)
      from Cons.IH [OF this] False f None show ?thesis
        by (intro mon_stepI, simp add: Let_def del: ReleaseNodes_Cons)
          (intro mon_stepI, simp add: set_hub_def set_jobs_def set_registry_def del: ReleaseNodes_Cons)
    next
      case (Some g)
      obtain ids cpus where g: "g = (ids, cpus)" by fastforce
      let ?s = "set_registry (ReleaseNodes ids cpus (srv_registry s)) (set_hub (NotifyCancel ids ?jid (srv_hub s)) (set_jobs m1 s))"
      have "dead_loop (Some Failer_FailRunningJob) (\<lambda>_. now) (finsert ?jid seen) dead (srv_registry ?s) (Some (srv_jobs ?s), Some (srv_hub ?s)) = (r, (Some m, Some h))"
        using Cons.prems False Some g failer_result [OF f, of "srv_hub s"] by (simp add: Let_def del: ReleaseNodes_Cons)
      note rest = Cons.IH [OF this]
      have "mon_alone c ks now (MonNotify n ids cpus (notify_sections ids ?jid) (finsert ?jid seen) dead, set_jobs m1 s)
          (MonWait, set_hub h (set_jobs m (set_registry r s)))"
        by (rule mon_notifies, rule mon_stepI)
          (use rest in \<open>simp add: fold_notify_sections set_hub_def set_jobs_def set_registry_def del: ReleaseNodes_Cons\<close>)
      with False f Some g show ?thesis by (intro mon_stepI) (simp add: Let_def)
    qed
  qed
qed

lemma failer_somes:
  fixes h0 :: "'dur Hub"
  shows "\<exists>r m h. dead_loop (Some Failer_FailRunningJob) clk seen dead r0 (Some m0, Some h0) = (r, (Some m, Some h))"
proof -
  let ?P = "\<lambda>f. \<exists>(m :: JobManager) (h :: 'dur Hub). f = (Some m, Some h)"
  have "?P (snd (Failer_FailRunningJob now jid why f))" if "?P f" for now jid why f
    using that by (auto simp: Failer_FailRunningJob_def split: option.split prod.split)
  then have "?P (snd (dead_loop (Some Failer_FailRunningJob) clk seen dead r0 (Some m0, Some h0)))"
    by (rule failer.dead_loop_keeps) simp_all
  then show ?thesis by (metis prod.collapse)
qed

lemma tick_alone: "mon_alone c ks now (MonDrain, s) (MonWait, srv_tick (\<lambda>_. now) ks now (\<lambda>_. now) s)"
proof -
  let ?r1 = "drain_loop (\<lambda>_. now) (heartbeats (srv_monitor s)) (srv_registry s)"
  let ?s1 = "set_registry ?r1 (s\<lparr>srv_monitor := (srv_monitor s)\<lparr>heartbeats := []\<rparr>\<rparr>)"
  obtain dead r2 where reap: "ReapStale ks now (mon_timeout (srv_monitor s)) ?r1 = (dead, r2)" by fastforce
  obtain r m h where d: "dead_loop (Some Failer_FailRunningJob) (\<lambda>_. now) {||} dead r2 (Some (srv_jobs s), Some (srv_hub s)) = (r, (Some m, Some h))"
    using failer_somes by metis
  have "tick (Some Failer_FailRunningJob) (\<lambda>_. now) ks now (\<lambda>_. now) (srv_monitor s) (srv_registry s) (Some (srv_jobs s), Some (srv_hub s)) =
      ((srv_monitor s)\<lparr>heartbeats := []\<rparr>, r, (Some m, Some h))"
    using reap d by (simp add: tick_def drainHeartbeats_def handleDeadNodes_eq)
  then have goal: "srv_tick (\<lambda>_. now) ks now (\<lambda>_. now) s = set_hub h (set_jobs m (set_registry r (set_registry r2 ?s1)))"
    by (simp add: srv_tick_def)
  have "dead_loop (Some Failer_FailRunningJob) (\<lambda>_. now) {||} dead (srv_registry (set_registry r2 ?s1))
      (Some (srv_jobs (set_registry r2 ?s1)), Some (srv_hub (set_registry r2 ?s1))) = (r, (Some m, Some h))"
    using d by (simp add: set_registry_def)
  note rest = dead_alone [OF this, of c ks]
  have "mon_alone c ks now (MonReap, ?s1) (MonWait, srv_tick (\<lambda>_. now) ks now (\<lambda>_. now) s)"
    using rest reap unfolding goal by (intro mon_stepI) (simp add: set_registry_def)
  then show ?thesis by (rule drain_alone)
qed

section \<open>Handlers return\<close>

text \<open>How far a handler is from its end: the calls still to come, and within them the nodes still to notify.\<close>

fun calls_left :: "('dur, 'ts) pc \<Rightarrow> nat" where
  "calls_left (Entered req) = 9"
| "calls_left (RegisterKick nid) = 1"
| "calls_left (HeartbeatRecord nid) = 2"
| "calls_left (HeartbeatPending nid) = 1"
| "calls_left (SubmitStore jid spec) = 3"
| "calls_left (SubmitKick jid) = 2"
| "calls_left (SubmitGet jid) = 1"
| "calls_left (CancelCancel jid j) = 5"
| "calls_left (CancelRelease jid j) = 4"
| "calls_left (CancelNotify jid cs) = 3"
| "calls_left (CancelKick jid) = 2"
| "calls_left (CancelGet jid) = 1"
| "calls_left (ReportGet req) = 8"
| "calls_left (ReportDropCancel req) = 1"
| "calls_left (ReportEvent req prior) = 7"
| "calls_left (ReportClear req prior) = 6"
| "calls_left (ReportAfter req prior) = 5"
| "calls_left (ReportRelease req after) = 4"
| "calls_left (ReportNotify cs) = 3"
| "calls_left ReportKick = 2"
| "calls_left (WatchSubscribe n) = 0"
| "calls_left (WatchLoop n ch sent) = 0"
| "calls_left (WatchUnsubscribe n ch e) = 0"
| "calls_left (Returned r) = 0"

fun sections_left :: "('dur, 'ts) pc \<Rightarrow> nat" where
  "sections_left (CancelNotify jid cs) = length cs"
| "sections_left (ReportNotify cs) = length cs"
| "sections_left p = 0"

definition pc_less :: "(('dur, 'ts) pc \<times> ('dur, 'ts) pc) set" where
  "pc_less = inv_image (less_than <*lex*> less_than) (\<lambda>p. (calls_left p, sections_left p))"

lemma wf_pc_less: "wf pc_less"
  unfolding pc_less_def by (intro wf_inv_image wf_lex_prod wf_less_than)

fun unary :: "('dur, 'ts) pc \<Rightarrow> bool" where
  "unary (Entered (WatchWorkReq req)) = False"
| "unary (WatchSubscribe n) = False"
| "unary (WatchLoop n ch sent) = False"
| "unary (WatchUnsubscribe n ch e) = False"
| "unary p = True"

definition returned :: "('dur, 'ts) pc \<Rightarrow> bool" where
  "returned p = (case p of Returned r \<Rightarrow> True | _ \<Rightarrow> False)"

lemma returned_iff: "returned p \<longleftrightarrow> (\<exists>r. p = Returned r)"
  by (auto simp: returned_def split: pc.split)

lemma enter_progress:
  "unary (Entered req) \<Longrightarrow> enter asDur dNew tsNew i req s = (p', s') \<Longrightarrow> calls_left p' < 9 \<and> unary p'"
  by (cases req) (auto simp: Let_def split: if_splits sum.splits)

lemma call_progress:
  assumes "unary p" "\<not> returned p" "call_step asDur dNew tsNew i p s = (p', s')"
  shows "(p', p) \<in> pc_less \<and> unary p'"
proof (cases p)
  case (Entered req)
  with assms enter_progress [of req asDur dNew tsNew i s p' s'] show ?thesis by (simp add: pc_less_def)
qed (use assms in \<open>auto simp: pc_less_def Let_def returned_iff split: sum.splits option.splits prod.splits list.splits if_splits\<close>)

primrec world_at ::
  "('dur \<Rightarrow> duration) \<Rightarrow> (duration \<Rightarrow> 'dur) \<Rightarrow> (instant \<Rightarrow> 'ts) \<Rightarrow> (nat \<Rightarrow> 'dur event) \<Rightarrow> ('dur, 'ts) World \<Rightarrow> nat \<Rightarrow> ('dur, 'ts) World" where
  "world_at asDur dNew tsNew es w 0 = w"
| "world_at asDur dNew tsNew es w (Suc t) = world_step asDur dNew tsNew (es t) (world_at asDur dNew tsNew es w t)"

lemma world_step_other:
  "mover e \<noteq> Some k \<Longrightarrow> fmlookup (calls w) k = Some p \<Longrightarrow> fmlookup (calls (world_step asDur dNew tsNew e w)) k = Some p"
  by (cases e) (auto split: option.split prod.split)

lemma world_waits:
  "fmlookup (calls (world_at asDur dNew tsNew es w t)) k = Some p \<Longrightarrow> t \<le> u \<Longrightarrow>
   \<forall>v. t \<le> v \<longrightarrow> v < u \<longrightarrow> mover (es v) \<noteq> Some k \<Longrightarrow>
   fmlookup (calls (world_at asDur dNew tsNew es w u)) k = Some p"
proof (induction u)
  case (Suc u)
  then show ?case by (cases "t = Suc u") (auto intro: world_step_other)
qed simp

lemma returns_from:
  assumes fair: "\<forall>t. \<exists>u \<ge> t. mover (es u) = Some k"
  shows "unary p \<Longrightarrow> fmlookup (calls (world_at asDur dNew tsNew es w t)) k = Some p \<Longrightarrow>
    \<exists>u \<ge> t. \<exists>r. fmlookup (calls (world_at asDur dNew tsNew es w u)) k = Some (Returned r)"
proof (induction p arbitrary: t rule: wf_induct_rule [OF wf_pc_less])
  case (1 p)
  show ?case
  proof (cases "returned p")
    case True
    with 1 show ?thesis by (auto simp: returned_iff)
  next
    case False
    define u where "u = (LEAST u. t \<le> u \<and> mover (es u) = Some k)"
    have u: "t \<le> u" "mover (es u) = Some k"
      using LeastI_ex [of "\<lambda>u. t \<le> u \<and> mover (es u) = Some k"] fair unfolding u_def by blast+
    have "\<forall>v. t \<le> v \<longrightarrow> v < u \<longrightarrow> mover (es v) \<noteq> Some k"
      unfolding u_def using not_less_Least by blast
    from world_waits [OF 1(3) u(1) this] have now: "fmlookup (calls (world_at asDur dNew tsNew es w u)) k = Some p" .
    from u(2) obtain i where i: "es u = CallStep k i" by (cases "es u") auto
    obtain p' s' where c: "call_step asDur dNew tsNew i p (server (world_at asDur dNew tsNew es w u)) = (p', s')" by fastforce
    from call_progress [OF 1(2) False c] have less: "(p', p) \<in> pc_less" "unary p'" by simp_all
    have "fmlookup (calls (world_at asDur dNew tsNew es w (Suc u))) k = Some p'" using now i c by simp
    from 1(1) [OF less this] u(1) show ?thesis by (meson Suc_leD le_trans)
  qed
qed

section \<open>Properties\<close>

text \<open>C6.  The model call by call and the model of whole handlers agree: a handler, an attempt of the scheduler
  or a tick of the monitor whose steps are not interrupted ends with the reply and the state that the
  function of the atomic model gives.\<close>

theorem threads_alone_are_atomic:
  "handler_alone asDur dNew tsNew i (Entered (RegisterNodeReq r1), s)
     (Returned (RegisterNodeReply (fst (Server_RegisterNode (in_now i) r1 s))), snd (Server_RegisterNode (in_now i) r1 s)) \<and>
   handler_alone asDur dNew tsNew i (Entered (HeartbeatReq r2), s)
     (Returned (HeartbeatReply (fst (Server_Heartbeat r2 s))), snd (Server_Heartbeat r2 s)) \<and>
   handler_alone asDur dNew tsNew i (Entered (SubmitJobReq r3), s)
     (Returned (SubmitJobReply (fst (Server_SubmitJob asDur dNew tsNew (in_now i) r3 s))),
      snd (Server_SubmitJob asDur dNew tsNew (in_now i) r3 s)) \<and>
   handler_alone asDur dNew tsNew i (Entered (CancelJobReq r4), s)
     (Returned (CancelJobReply (fst (Server_CancelJob dNew tsNew (in_now i) r4 s))), snd (Server_CancelJob dNew tsNew (in_now i) r4 s)) \<and>
   handler_alone asDur dNew tsNew i (Entered (ReportJobStatusReq r5), s)
     (Returned (ReportJobStatusReply (fst (Server_ReportJobStatus (in_now i) r5 s))), snd (Server_ReportJobStatus (in_now i) r5 s)) \<and>
   sched_alone dNew wk now (SchedPeek, s)
     (if fst (trySchedule (Some (Dispatch dNew)) now now (comps s)) then SchedPeek else SchedWait, srv_schedule dNew now now s) \<and>
   mon_alone c ks now (MonDrain, s) (MonWait, srv_tick (\<lambda>_. now) ks now (\<lambda>_. now) s)"
  by (intro conjI register_alone heartbeat_alone submit_alone cancel_alone report_alone schedule_alone tick_alone)

text \<open>C26.  No handler blocks or runs forever: whatever the other threads do, a unary call that is given a step
  again and again returns.\<close>

theorem handlers_return:
  fixes w :: "('dur, 'ts) World"
  assumes "fmlookup (calls (world_at asDur dNew tsNew es w t)) k = Some (Entered req)"
    and "unary (Entered req :: ('dur, 'ts) pc)"
    and "\<forall>t. \<exists>u \<ge> t. mover (es u) = Some k"
  shows "\<exists>u \<ge> t. \<exists>r. fmlookup (calls (world_at asDur dNew tsNew es w u)) k = Some (Returned r)"
  using returns_from [OF assms(3) assms(2,1)] .

text \<open>A cancellation between the steps of the scheduler.\<close>

theorem handlers_return_witness:
  "\<exists>u r. fmlookup (calls (world_at (\<lambda>d. d) (\<lambda>d. d) (\<lambda>t. t)
      (\<lambda>t. if even t then CallStep 7 (sample_input (int t)) else SchedStep WakeTick (int t))
      (sample_world\<lparr>calls := fmupd 7 (Entered (CancelJobReq (Some \<lparr>CancelJobRequest_JobId = ''job-1''\<rparr>))) fmempty\<rparr>) u)) 7
     = Some (Returned r)"
proof -
  let ?es = "\<lambda>t. if even t then CallStep 7 (sample_input (int t)) else SchedStep WakeTick (int t) :: int event"
  have "\<forall>t. \<exists>u \<ge> t. mover (?es u) = Some 7"
    by (intro allI, rule_tac x = "2 * t" in exI) simp
  from handlers_return [OF _ _ this, of "\<lambda>d. d" "\<lambda>d. d" "\<lambda>t. t" _ 0 "CancelJobReq (Some \<lparr>CancelJobRequest_JobId = ''job-1''\<rparr>)"]
  show ?thesis by fastforce
qed

end
