(* ===== verification/Races.thy ===== *)
theory Races
  imports Cluster Solo
begin

text \<open>
  What can go wrong between the calls of two threads of \<open>Threads\<close>, where the hypotheses of
  \<open>gangs_survive_interleaving\<close> fail or where nothing orders two messages to a node: the monitor releases a
  node between its reservation and the start of the job, and a cancellation gets ahead of the
  assignments that the scheduler is still sending.  The last section shows that nothing the controller does
  ends an open stream.
\<close>

section \<open>A thread's steps in a run\<close>

lemma fmupd_present: "fmlookup m k = Some v \<Longrightarrow> fmupd k v m = m"
  by (rule fmap_ext) auto

lemma world_run_replicate: "world_run asDur dNew tsNew (replicate n e) w = (world_step asDur dNew tsNew e ^^ n) w"
  by (induction n arbitrary: w) (simp_all add: funpow_swap1)

lemma handler_in_world:
  assumes "fmlookup (calls w) k = Some p" "handler_alone asDur dNew tsNew i (p, server w) (p', s')"
  shows "\<exists>n. world_run asDur dNew tsNew (replicate n (CallStep k i)) w = w\<lparr>server := s', calls := fmupd k p' (calls w)\<rparr>"
proof -
  let ?f = "\<lambda>(p, s). call_step asDur dNew tsNew i p s"
  from assms(2) obtain n where n: "(?f ^^ n) (p, server w) = (p', s')" by (auto simp: reaches_def)
  have "world_run asDur dNew tsNew (replicate n (CallStep k i)) w = w\<lparr>server := s', calls := fmupd k p' (calls w)\<rparr>"
    if "(?f ^^ n) (p, server w) = (p', s')" for n p' s'
    using that
  proof (induction n arbitrary: p' s')
    case 0
    with assms(1) show ?case by (simp add: fmupd_present)
  next
    case (Suc n)
    obtain p1 s1 where one: "(?f ^^ n) (p, server w) = (p1, s1)" by fastforce
    with Suc.prems have "call_step asDur dNew tsNew i p1 s1 = (p', s')" by simp
    with Suc.IH [OF one] show ?case unfolding world_run_replicate by simp
  qed
  with n show ?thesis by blast
qed

section \<open>The monitor between reservation and start\<close>

text \<open>C36.  The reap race: if a node goes silent after the scheduler has reserved it and before it has marked the
  job running, the monitor finds no running job, releases that node alone and is done with it; the
  scheduler then marks the job running on nodes of which one is free again and offline.  The invariant
  of the placement is broken and nothing repairs it: no thread has that node in hand any more.\<close>

theorem reap_race_frees_a_node_of_a_running_job:
  assumes "sched_at w = SchedMark j ids" "mon_at w = MonDead seen (n # dead)"
    and "CurrentJobID n = job_ID j" "job_ID j \<noteq> []" "job_ID j |\<notin>| seen" "node_ID n \<in> set ids"
    and "fmlookup (jobs (srv_jobs (server w))) (job_ID j) = Some j'" "job_Status j' = StatusPending"
    and "fmlookup (nodes (srv_registry (server w))) (node_ID n) = Some n"
    and "w' = world_run asDur dNew tsNew [MonStep c ks now, MonStep c ks now', SchedStep wk t] w"
  shows "\<exists>j1 n1. fmlookup (jobs (srv_jobs (server w'))) (job_ID j) = Some j1 \<and> job_Status j1 = StatusRunning \<and>
      node_ID n \<in> set (AssignedNodeIDs j1) \<and>
      fmlookup (nodes (srv_registry (server w'))) (node_ID n) = Some n1 \<and>
      CurrentJobID n1 = [] \<and> AllocatedCPUs n1 = 0 \<and> node_Status n1 = node_Status n \<and>
      \<not> srv_inv (server w') \<and> mon_at w' = MonDead (finsert (job_ID j) seen) dead \<and> sched_at w' = SchedDispatch j ids 0 ids []"
proof -
  let ?m = "srv_jobs (server w)" and ?r = "srv_registry (server w)"
  let ?s = "set_registry (ReleaseNodes [node_ID n] (AllocatedCPUs n) ?r) (server w)"
  have "FailRunningJob now (job_ID j) why ?m = (None, ?m)" for why
    using assms(7,8) by (simp add: FailRunningJob_eq)
  then have two: "world_run asDur dNew tsNew [MonStep c ks now, MonStep c ks now'] w =
      w\<lparr>server := ?s, mon_at := MonDead (finsert (job_ID j) seen) dead\<rparr>"
    using assms(2-5) by (simp add: Let_def del: ReleaseNodes_Cons)
  let ?j1 = "j'\<lparr>job_Status := StatusRunning, AssignedNodeIDs := ids, StartedAt := t\<rparr>"
  have "ids \<noteq> []" using assms(6) by auto
  then have "fst (JM_MarkRunning t (job_ID j) ids ?m) = None"
    "fmlookup (jobs (snd (JM_MarkRunning t (job_ID j) ids ?m))) (job_ID j) = Some ?j1"
    using assms(7,8) by (simp_all add: JM_MarkRunning_def Job_MarkRunning_pending Let_def)
  then obtain m where m: "JM_MarkRunning t (job_ID j) ids ?m = (None, m)" "fmlookup (jobs m) (job_ID j) = Some ?j1"
    by (metis prod.collapse)
  have w': "w' = w\<lparr>server := set_jobs m ?s, mon_at := MonDead (finsert (job_ID j) seen) dead, sched_at := SchedDispatch j ids 0 ids []\<rparr>"
    using two assms(1) m(1) unfolding assms(10) by (simp del: ReleaseNodes_Cons)
  have node: "fmlookup (nodes (srv_registry (server w'))) (node_ID n) = Some (released (AllocatedCPUs n) n)"
    using assms(9) by (simp add: w')
  have job: "fmlookup (jobs (srv_jobs (server w'))) (job_ID j) = Some ?j1" using m(2) by (simp add: w')
  have inv: "\<not> srv_inv (server w')"
  proof
    assume "srv_inv (server w')"
    from srv_inv_running(3) [OF this job] assms(6) node assms(4) show False by (auto simp: released_def)
  qed
  have "CurrentJobID (released (AllocatedCPUs n) n) = []" "AllocatedCPUs (released (AllocatedCPUs n) n) = 0"
    "node_Status (released (AllocatedCPUs n) n) = node_Status n"
    by (simp_all add: released_def wrap64_def)
  moreover have "job_Status ?j1 = StatusRunning" "node_ID n \<in> set (AssignedNodeIDs ?j1)" using assms(6) by simp_all
  moreover have "mon_at w' = MonDead (finsert (job_ID j) seen) dead" "sched_at w' = SchedDispatch j ids 0 ids []"
    by (simp_all add: w')
  ultimately show ?thesis using node job inv by blast
qed

text \<open>A node registers and goes silent for ten time units; the monitor looks in the middle of an attempt.\<close>

definition reap_events :: "int event list" where
  "reap_events =
     [Arrive 0 (RegisterNodeReq (Some sample_node_request)), CallStep 0 (sample_input 1),
      Arrive 1 (SubmitJobReq (Some sample_request)), CallStep 1 (sample_input 2), CallStep 1 (sample_input 3),
      SchedStep WakeTick 4, SchedStep WakeTick 5, SchedStep WakeTick 6,
      MonStep MonTick [''n1''] 20, MonStep MonTick [''n1''] 20, MonStep MonTick [''n1''] 20]"

definition reap_world :: "(int, int) World" where
  "reap_world = world_run (\<lambda>d. d) (\<lambda>d. d) (\<lambda>t. t) reap_events (world_main 10)"

definition sched_mark :: "('dur, 'ts) World \<Rightarrow> (Job \<times> string list) option" where
  "sched_mark w = (case sched_at w of SchedMark j ids \<Rightarrow> Some (j, ids) | _ \<Rightarrow> None)"

definition mon_dead :: "('dur, 'ts) World \<Rightarrow> (string fset \<times> Node list) option" where
  "mon_dead w = (case mon_at w of MonDead seen dead \<Rightarrow> Some (seen, dead) | _ \<Rightarrow> None)"

definition lost_node :: Node where
  "lost_node = zero_Node\<lparr>node_ID := ''n1'', node_Status := StatusOffline, TotalCPUs := 4, AllocatedCPUs := 1,
     LastHeartbeat := 1, CurrentJobID := ''job-1''\<rparr>"

lemma reap_world_state:
  "map_option (\<lambda>(j, ids). (job_ID j, ids)) (sched_mark reap_world) = Some (''job-1'', [''n1''])"
  "map_option (\<lambda>(seen, dead). (''job-1'' |\<in>| seen, dead)) (mon_dead reap_world) = Some (False, [lost_node])"
  "fmlookup (nodes (srv_registry (server reap_world))) ''n1'' = Some lost_node"
  "job_status (server reap_world) ''job-1'' = Some StatusPending"
  by code_simp+

theorem reap_race_frees_a_node_of_a_running_job_witness:
  "\<exists>w' j1 n1. w' = world_run (\<lambda>d. d) (\<lambda>d. d) (\<lambda>t. t) [MonStep MonTick [''n1''] 21, MonStep MonTick [''n1''] 22, SchedStep WakeTick 23] reap_world \<and>
     fmlookup (jobs (srv_jobs (server w'))) ''job-1'' = Some j1 \<and> job_Status j1 = StatusRunning \<and> ''n1'' \<in> set (AssignedNodeIDs j1) \<and>
     fmlookup (nodes (srv_registry (server w'))) ''n1'' = Some n1 \<and> CurrentJobID n1 = [] \<and> node_Status n1 = StatusOffline"
proof -
  from reap_world_state(1) obtain j where j: "sched_at reap_world = SchedMark j [''n1'']" "job_ID j = ''job-1''"
    by (auto simp: sched_mark_def split: sched_pc.splits)
  from reap_world_state(2) obtain seen where d: "mon_at reap_world = MonDead seen [lost_node]" "''job-1'' |\<notin>| seen"
    by (auto simp: mon_dead_def split: mon_pc.splits)
  from reap_world_state(4) obtain j' where j': "fmlookup (jobs (srv_jobs (server reap_world))) ''job-1'' = Some j'" "job_Status j' = StatusPending"
    by (auto simp: job_status_def)
  have n: "CurrentJobID lost_node = ''job-1''" "node_ID lost_node = ''n1''" "node_Status lost_node = StatusOffline"
    by (simp_all add: lost_node_def)
  from reap_race_frees_a_node_of_a_running_job [OF j(1) d(1), unfolded j(2) n, OF refl _ d(2) _ j' reap_world_state(3) refl,
      of "\<lambda>d. d" "\<lambda>d. d" "\<lambda>t. t" MonTick "[''n1'']" 21 22 WakeTick 23]
  show ?thesis by (simp only: list.set insertI1 simp_thms list.distinct not_False_eq_True) blast
qed

section \<open>A cancellation before the assignment\<close>

lemma cancel_running_job:
  assumes "fmlookup (jobs (srv_jobs s)) jid = Some j" "job_Status j = StatusRunning" "jid \<noteq> []"
  shows "fst (Server_CancelJob dNew tsNew now (Some \<lparr>CancelJobRequest_JobId = jid\<rparr>) s) =
      Inr \<lparr>CancelJobResponse_Job = jobToProto dNew tsNew (Some (cancelled now j))\<rparr>"
    "fmlookup (jobs (srv_jobs (snd (Server_CancelJob dNew tsNew now (Some \<lparr>CancelJobRequest_JobId = jid\<rparr>) s)))) jid = Some (cancelled now j)"
    "srv_hub (snd (Server_CancelJob dNew tsNew now (Some \<lparr>CancelJobRequest_JobId = jid\<rparr>) s)) = NotifyCancel (AssignedNodeIDs j) jid (srv_hub s)"
    "srv_registry (snd (Server_CancelJob dNew tsNew now (Some \<lparr>CancelJobRequest_JobId = jid\<rparr>) s)) =
      ReleaseNodes (AssignedNodeIDs j) (CPUsPerNode (Resources (job_Spec j))) (srv_registry s)"
  using assms by (simp_all add: Server_CancelJob_def JM_Get_def pb_getters cancel_found_cases Let_def JM_Cancel_eq cancelled_def)

text \<open>C37.  A cancellation can overtake the work it cancels: if a job is cancelled while the scheduler is still
  sending its assignments, every node that was told to stop before its assignment was sent gets the
  assignment afterwards, and with it loses its pending cancel.  The node is free at the controller and the
  job is cancelled, yet the idle agent that reads the assignment starts the process, and no heartbeat
  will ever tell it to stop.\<close>

theorem cancel_overtakes_the_assignment:
  assumes "sched_at w = SchedDispatch j ids rank (n # rest) []" "n \<noteq> []"
    and "fmlookup (jobs (srv_jobs (server w))) (job_ID j) = Some j'" "job_Status j' = StatusRunning" "job_ID j \<noteq> []"
    and "distinct (AssignedNodeIDs j')" "n \<in> set (AssignedNodeIDs j')"
    and "fmlookup (nodes (srv_registry (server w))) n = Some x" "hub_inv (srv_hub (server w))"
    and "fmlookup (calls w) k = Some (Entered (CancelJobReq (Some \<lparr>CancelJobRequest_JobId = job_ID j\<rparr>)))"
    and "Command (job_Spec j) \<noteq> []" "ex_jobID (executor (ag_exec a)) = []"
  shows "\<exists>m w' work. w' = world_run asDur dNew tsNew (replicate m (CallStep k i) @ replicate 3 (SchedStep wk now)) w \<and>
      (\<exists>resp. fmlookup (calls w') k = Some (Returned (CancelJobReply (Inr resp)))) \<and>
      job_status (server w') (job_ID j) = Some StatusCancelled \<and>
      map_option CurrentJobID (fmlookup (nodes (srv_registry (server w'))) n) = Some [] \<and>
      PendingCancel n (srv_hub (server w')) = [] \<and>
      work \<in> set (mailbox (srv_hub (server w')) n) \<and>
      ex_jobID (executor (ag_exec (fst (recv_message asDur cl (Some work) a v)))) = job_ID j"
proof -
  let ?req = "Some \<lparr>CancelJobRequest_JobId = job_ID j\<rparr>"
  let ?s = "snd (Server_CancelJob dNew tsNew (in_now i) ?req (server w))"
  let ?work = "assignment_msg dNew (assignment_for j rank (int (length ids)))"
  note c = cancel_running_job [OF assms(3,4,5), of dNew tsNew "in_now i"]
  from handler_in_world [OF assms(10) cancel_alone] obtain m where m:
    "world_run asDur dNew tsNew (replicate m (CallStep k i)) w =
     w\<lparr>server := ?s, calls := fmupd k (Returned (CancelJobReply (fst (Server_CancelJob dNew tsNew (in_now i) ?req (server w))))) (calls w)\<rparr>"
    by blast
  let ?h = "send n ?work ((srv_hub ?s)\<lparr>hub_cancel := fmdrop n (hub_cancel (srv_hub ?s))\<rparr>)"
  define w' where "w' = world_run asDur dNew tsNew (replicate m (CallStep k i) @ replicate 3 (SchedStep wk now)) w"
  have w': "w' = w\<lparr>server := set_hub ?h ?s, sched_at := SchedDispatch j ids (rank + 1) rest [],
      calls := fmupd k (Returned (CancelJobReply (fst (Server_CancelJob dNew tsNew (in_now i) ?req (server w))))) (calls w)\<rparr>"
    unfolding w'_def fold_append o_apply m using assms(1,2)
    by (simp add: dispatch_sections_def numeral_3_eq_3 del: ReleaseNodes_Cons)
  have "hub_inv (srv_hub ?s)" by (simp add: c(3) inv_intros assms(9))
  then have "?work \<in> set (mailbox ?h n)" by (intro send_delivers) simp
  then have "?work \<in> set (mailbox (srv_hub (server w')) n)" by (simp add: w')
  moreover have "PendingCancel n ?h = []"
    by (simp add: PendingCancel_def) (simp add: cancel_of_def)
  then have "PendingCancel n (srv_hub (server w')) = []" by (simp add: w')
  moreover have "map_option CurrentJobID (fmlookup (nodes (srv_registry (server w'))) n) = Some []"
    using assms(6-8) by (simp add: w' c(4) ReleaseNodes_lookup released_def)
  moreover have "job_status (server w') (job_ID j) = Some StatusCancelled"
    by (simp add: w' job_status_def c(2) cancelled_def)
  moreover have "\<exists>resp. fmlookup (calls w') k = Some (Returned (CancelJobReply (Inr resp)))" by (simp add: w' c(1))
  moreover have "ex_jobID (executor (ag_exec (fst (recv_message asDur cl (Some ?work) a v)))) = job_ID j"
    using assms(11,12) by (simp add: recv_message_def assignment_msg_def handleAssignment_def Run_begin_def pb_getters
        assignmentToProto_def assignment_for_def Let_def)
  ultimately show ?thesis using w'_def by blast
qed

text \<open>The run of \<open>sample_events\<close> up to the arrival of the cancellation: the scheduler is about to send.\<close>

definition sending_world :: "(int, int) World" where
  "sending_world = world_run (\<lambda>d. d) (\<lambda>d. d) (\<lambda>t. t) (take 15 sample_events) (world_main 0)"

definition sched_sends :: "('dur, 'ts) World \<Rightarrow> (Job \<times> string list \<times> int \<times> string list \<times> nat) option" where
  "sched_sends w = (case sched_at w of SchedDispatch j ids rank rest cs \<Rightarrow> Some (j, ids, rank, rest, length cs) | _ \<Rightarrow> None)"

definition cancels :: "('dur, 'ts) World \<Rightarrow> nat \<Rightarrow> string option" where
  "cancels w k = (case fmlookup (calls w) k of Some (Entered (CancelJobReq (Some req))) \<Rightarrow> Some (CancelJobRequest_JobId req) | _ \<Rightarrow> None)"

definition idle_agent :: Agent where
  "idle_agent = Make_Agent \<lparr>cf_ID = ''n1'', cf_Hostname = [], cf_Address = [], cf_TotalCPUs = 4, cf_Interval = 0\<rparr>"

lemma sending_world_state:
  "map_option (\<lambda>(j, ids, rank, rest, n). (job_ID j, Command (job_Spec j) = [], ids, rank, rest, n)) (sched_sends sending_world) =
     Some (''job-1'', False, [''n1''], 0, [''n1''], 0)"
  "map_option (\<lambda>j. (job_Status j, AssignedNodeIDs j)) (fmlookup (jobs (srv_jobs (server sending_world))) ''job-1'') =
     Some (StatusRunning, [''n1''])"
  "map_option node_ID (fmlookup (nodes (srv_registry (server sending_world))) ''n1'') = Some ''n1''"
  "cancels sending_world 2 = Some ''job-1''"
  by code_simp+

theorem cancel_overtakes_the_assignment_witness:
  "\<exists>w' :: (int, int) World. (\<exists>es. w' = world_run (\<lambda>d. d) (\<lambda>d. d) (\<lambda>t. t) es sending_world) \<and>
     job_status (server w') ''job-1'' = Some StatusCancelled \<and> PendingCancel ''n1'' (srv_hub (server w')) = [] \<and>
     (\<exists>work. work \<in> set (mailbox (srv_hub (server w')) ''n1'') \<and>
        ex_jobID (executor (ag_exec (fst (recv_message (\<lambda>d. d) (server_client 30) (Some work) idle_agent (server sending_world))))) = ''job-1'')"
proof -
  from sending_world_state(1) obtain j where j: "sched_at sending_world = SchedDispatch j [''n1''] 0 [''n1''] []"
      "job_ID j = ''job-1''" "Command (job_Spec j) \<noteq> []"
    by (auto simp: sched_sends_def split: sched_pc.splits)
  from sending_world_state(2) obtain j' where j': "fmlookup (jobs (srv_jobs (server sending_world))) ''job-1'' = Some j'"
      "job_Status j' = StatusRunning" "AssignedNodeIDs j' = [''n1'']"
    by auto
  from sending_world_state(3) obtain x where x: "fmlookup (nodes (srv_registry (server sending_world))) ''n1'' = Some x" by auto
  from sending_world_state(4) have c: "fmlookup (calls sending_world) 2 =
      Some (Entered (CancelJobReq (Some \<lparr>CancelJobRequest_JobId = ''job-1''\<rparr>)))"
    by (auto simp: cancels_def split: option.splits pc.splits request.splits)
  have "world_ok sending_world" unfolding sending_world_def by (rule world.inv_run)
  then have h: "hub_inv (srv_hub (server sending_world))" by (simp add: world_ok_def comps_ok_def)
  have a: "ex_jobID (executor (ag_exec idle_agent)) = []"
    by (simp add: idle_agent_def Make_Agent_def Let_def node_start_def NewExecutor_def)
  have sides: "''n1'' \<noteq> []" "''job-1'' \<noteq> []" "distinct (AssignedNodeIDs j')" "''n1'' \<in> set (AssignedNodeIDs j')"
    by (simp_all add: j'(3))
  note race = cancel_overtakes_the_assignment [OF j(1) sides(1) _ j'(2) _ sides(3,4) x h _ j(3) a, unfolded j(2), OF j'(1) sides(2) c]
  from race [where asDur = "\<lambda>d. d" and dNew = "\<lambda>d. d" and tsNew = "\<lambda>t. t" and i = "sample_input 16" and cl = "server_client 30" and v = "server sending_world"
      and wk = WakeTick and now = 17]
  show ?thesis by - (elim exE conjE, intro exI conjI, assumption+)
qed

section \<open>A stream that nobody ends\<close>

text \<open>The calls of the hub that wait in a thread never touch the subscriptions.\<close>

fun sends_only :: "'dur hub_op \<Rightarrow> bool" where
  "sends_only (DropCancelOp n) = True"
| "sends_only (SetCancelOp n j) = True"
| "sends_only (SendOp n msg) = True"
| "sends_only _ = False"

lemma sends_only_sub: "sends_only c \<Longrightarrow> hub_sub (hub_apply c h) = hub_sub h"
  by (cases c) (auto simp: send_def enqueue_def Let_def split: option.split)

lemma sections_send: "c \<in> set (notify_sections ids jid) \<Longrightarrow> sends_only c" "c \<in> set (dispatch_sections dNew n a) \<Longrightarrow> sends_only c"
  by (auto simp: notify_sections_def dispatch_sections_def split: if_splits)

fun call_ops :: "('dur, 'ts) pc \<Rightarrow> 'dur hub_op list" where
  "call_ops (CancelNotify jid cs) = cs"
| "call_ops (ReportNotify cs) = cs"
| "call_ops p = []"

fun sched_ops :: "'dur sched_pc \<Rightarrow> 'dur hub_op list" where
  "sched_ops (SchedDispatch j ids rank rest cs) = cs"
| "sched_ops p = []"

fun mon_ops :: "'dur mon_pc \<Rightarrow> 'dur hub_op list" where
  "mon_ops (MonNotify n ids cpus cs seen dead) = cs"
| "mon_ops p = []"

definition ops_ok :: "('dur, 'ts) World \<Rightarrow> bool" where
  "ops_ok w \<longleftrightarrow> (\<forall>c \<in> set (sched_ops (sched_at w)) \<union> set (mon_ops (mon_at w)). sends_only c) \<and>
     (\<forall>k p. fmlookup (calls w) k = Some p \<longrightarrow> (\<forall>c \<in> set (call_ops p). sends_only c))"

lemma enter_ops: "call_ops (fst (enter asDur dNew tsNew i req s)) = []"
  by (cases req) (auto simp: Let_def split: sum.split)

lemma call_step_ops:
  assumes "\<forall>c \<in> set (call_ops p). sends_only c"
  shows "\<forall>c \<in> set (call_ops (fst (call_step asDur dNew tsNew i p s))). sends_only c"
proof (cases p)
  case (Entered req)
  then show ?thesis by (simp add: enter_ops)
qed (use assms in \<open>auto simp: Let_def sections_send split: sum.split option.split prod.split list.split watch_case.split recv.split\<close>)

lemma sched_step_ops:
  "(\<forall>c \<in> set (sched_ops p). sends_only c) \<longrightarrow> (\<forall>c \<in> set (sched_ops (fst (sched_step dNew wk now p s))). sends_only c)"
  by (induction dNew wk now p s rule: sched_step.induct) (auto simp: sections_send split: option.split prod.split)

lemma mon_step_ops:
  "(\<forall>c \<in> set (mon_ops p). sends_only c) \<longrightarrow> (\<forall>c \<in> set (mon_ops (fst (mon_step c' ks now p s))). sends_only c)"
  by (induction c' ks now p s rule: mon_step.induct)
    (auto simp: Let_def sections_send split: option.split prod.split mon_case.split list.split)

lemma ops_ok_step: "ops_ok w \<Longrightarrow> ops_ok (world_step asDur dNew tsNew e w)"
proof (cases e)
  case (CallStep k i)
  assume ok: "ops_ok w"
  show ?thesis
  proof (cases "fmlookup (calls w) k")
    case (Some p)
    with ok have "\<forall>c \<in> set (call_ops p). sends_only c" by (simp add: ops_ok_def)
    from call_step_ops [OF this, of asDur dNew tsNew i "server w"] ok CallStep Some show ?thesis
      by (auto simp: ops_ok_def split_beta split: if_splits)
  qed (use ok CallStep in simp)
next
  case (SchedStep wk now)
  assume "ops_ok w"
  with sched_step_ops [of "sched_at w" dNew wk now "server w"] SchedStep show ?thesis by (auto simp: ops_ok_def split_beta)
next
  case (MonStep c ks now)
  assume "ops_ok w"
  with mon_step_ops [of "mon_at w" c ks now "server w"] MonStep show ?thesis by (auto simp: ops_ok_def split_beta)
qed (auto simp: ops_ok_def)

lemma ops_ok_main: "ops_ok (world_main timeout)"
  by (simp add: ops_ok_def world_main_def)

lemma ops_ok_run: "ops_ok w \<Longrightarrow> ops_ok (world_run asDur dNew tsNew es w)"
  by (induction es arbitrary: w) (simp_all add: ops_ok_step)

text \<open>What a step does to a subscription: only a \<open>WatchWork\<close> call of the same node touches it.\<close>

fun watches :: "string \<Rightarrow> ('dur, 'ts) pc \<Rightarrow> bool" where
  "watches n (Entered (WatchWorkReq req)) = (WatchWorkRequest_GetNodeId req = n)"
| "watches n (WatchSubscribe m) = (m = n)"
| "watches n (WatchLoop m ch sent) = (m = n)"
| "watches n (WatchUnsubscribe m ch e) = (m = n)"
| "watches n p = False"

lemma Subscribe_other: "Subscribe m h = (ch, h') \<Longrightarrow> m \<noteq> n \<Longrightarrow> fmlookup (hub_sub h') n = fmlookup (hub_sub h) n"
  by (auto simp: Subscribe_def Let_def close_chan_def split: option.splits)

lemma receive_sub: "receive ch h = (r, h') \<Longrightarrow> hub_sub h' = hub_sub h"
  by (auto simp: receive_def split: option.splits list.splits)

lemma call_sub:
  assumes "\<not> watches n p" "\<forall>c \<in> set (call_ops p). sends_only c" "call_step asDur dNew tsNew i p s = (p', s')"
  shows "fmlookup (hub_sub (srv_hub s')) n = fmlookup (hub_sub (srv_hub s)) n \<and> \<not> watches n p'"
proof (cases p)
  case (Entered req)
  with assms(1,3) show ?thesis by (cases req) (auto simp: Let_def split: sum.splits if_splits)
next
  case (CancelNotify jid cs)
  with assms(2,3) show ?thesis by (cases cs) (auto simp: sends_only_sub)
next
  case (ReportNotify cs)
  with assms(2,3) show ?thesis by (cases cs) (auto simp: sends_only_sub)
qed (use assms(1,3) in \<open>auto simp: Let_def ClearCancel_def Unsubscribe_def dest: Subscribe_other receive_sub
      split: sum.splits option.splits prod.splits watch_case.splits recv.splits if_splits\<close>)

lemma sched_sub:
  "\<forall>c \<in> set (sched_ops p). sends_only c \<Longrightarrow> hub_sub (srv_hub (snd (sched_step dNew wk now p s))) = hub_sub (srv_hub s)"
  by (induction dNew wk now p s rule: sched_step.induct)
    (auto simp: sends_only_sub set_comps_def wake_up_def split: option.split prod.split wake.split)

lemma mon_sub:
  "\<forall>c \<in> set (mon_ops p). sends_only c \<Longrightarrow> hub_sub (srv_hub (snd (mon_step c' ks now p s))) = hub_sub (srv_hub s)"
  by (induction c' ks now p s rule: mon_step.induct)
    (auto simp: Let_def sends_only_sub split: option.split prod.split mon_case.split list.split)

definition streaming :: "nat \<Rightarrow> string \<Rightarrow> nat \<Rightarrow> ('dur, 'ts) World \<Rightarrow> bool" where
  "streaming k n ch w \<longleftrightarrow> (\<exists>sent. fmlookup (calls w) k = Some (WatchLoop n ch sent)) \<and>
     fmlookup (hub_sub (srv_hub (server w))) n = Some ch \<and>
     (\<forall>j p. fmlookup (calls w) j = Some p \<longrightarrow> j \<noteq> k \<longrightarrow> \<not> watches n p)"

text \<open>Nothing ends the stream of thread \<open>k\<close>: no newer call for its node, no end of its context, no failed send.\<close>

fun leaves_alone :: "nat \<Rightarrow> string \<Rightarrow> 'dur event \<Rightarrow> bool" where
  "leaves_alone k n (Arrive j req) = (\<not> watches n (Entered req :: ('dur, unit) pc))"
| "leaves_alone k n (CallStep j i) = (j = k \<longrightarrow> in_case i = FromChannel None)"
| "leaves_alone k n _ = True"

lemma streaming_step:
  assumes "streaming k n ch w" "world_ok w" "ops_ok w" "leaves_alone k n e"
  shows "streaming k n ch (world_step asDur dNew tsNew e w)"
proof -
  from assms(1) obtain sent where me: "fmlookup (calls w) k = Some (WatchLoop n ch sent)"
      "fmlookup (hub_sub (srv_hub (server w))) n = Some ch"
      "\<And>j p. fmlookup (calls w) j = Some p \<Longrightarrow> j \<noteq> k \<Longrightarrow> \<not> watches n p"
    unfolding streaming_def by blast
  show ?thesis
  proof (cases e)
    case (Arrive j req)
    have "watches n (Entered req :: ('a, 'c) pc) = watches n (Entered req :: ('a, unit) pc)" by (cases req) simp_all
    with Arrive assms(1,4) show ?thesis by (auto simp: streaming_def split: if_splits)
  next
    case (CallStep j i)
    show ?thesis
    proof (cases "j = k")
      case True
      from assms(2) have "hub_inv (srv_hub (server w))" by (simp add: world_ok_def comps_ok_def)
      with me(2) obtain c where c: "fmlookup (hub_chans (srv_hub (server w))) ch = Some c" "\<not> ch_closed c"
        unfolding hub_inv_def by blast
      obtain r h where r: "receive ch (srv_hub (server w)) = (r, h)" by fastforce
      with c have "r \<noteq> ChanClosed" "hub_sub h = hub_sub (srv_hub (server w))"
        by (auto simp: receive_def split: list.splits)
      with True CallStep assms(1,4) me r show ?thesis
        by (cases r) (auto simp: streaming_def split: if_splits)
    next
      case False
      show ?thesis
      proof (cases "fmlookup (calls w) j")
        case None
        with CallStep assms(1) show ?thesis by simp
      next
        case (Some p)
        obtain p' s' where c: "call_step asDur dNew tsNew i p (server w) = (p', s')" by fastforce
        have "\<forall>c \<in> set (call_ops p). sends_only c" using assms(3) Some by (simp add: ops_ok_def)
        from call_sub [OF me(3) [OF Some False] this c] CallStep Some c False assms(1) show ?thesis
          by (auto simp: streaming_def split: if_splits)
      qed
    qed
  next
    case (SchedStep wk now)
    with sched_sub [of "sched_at w" dNew wk now "server w"] assms(1,3) show ?thesis
      by (auto simp: streaming_def ops_ok_def split_beta)
  next
    case (MonStep c ks now)
    with mon_sub [of "mon_at w" c ks now "server w"] assms(1,3) show ?thesis
      by (auto simp: streaming_def ops_ok_def split_beta)
  qed
qed

lemma streaming_run:
  "streaming k n ch w \<Longrightarrow> world_ok w \<Longrightarrow> ops_ok w \<Longrightarrow> \<forall>e. e \<in> set es \<longrightarrow> leaves_alone k n e \<Longrightarrow>
   streaming k n ch (world_run asDur dNew tsNew es w)"
  by (induction es arbitrary: w) (simp_all add: streaming_step world_ok_step ops_ok_step)

end
