(* ===== verification/AgentRun.thy ===== *)
theory AgentRun
  imports Agent
begin

text \<open>
  The node program as threads: \<open>main\<close> of \<open>src/cmd/node/main.go\<close>, \<open>Run\<close> of \<open>src/internal/node/agent.go\<close> with
  its two loops, and the goroutine of every assignment, interleaved step by step with the executor's
  processes.  The context of the loops is done when a signal has arrived or \<open>Run\<close> has cancelled it; it
  is also the parent of every process's context, so \<open>parent_done\<close> of the executor's state is its flag.
  Every step that calls the controller takes the client as it answers then, so a call may succeed now and
  fail later.
\<close>

section \<open>State\<close>

datatype 'e run_error = CallFailed 'e | CtxCanceled

datatype 'e run_pc =
    RunRegister
  | RunHeartbeat
  | RunWait
  | RunCancel "'e run_error"
  | RunStop "'e run_error"
  | RunDrain "'e run_error"
  | RunReturned "'e run_error"

datatype 'e hb_pc = HbOff | HbSelect | HbCall | HbReturn "'e run_error" | HbSent

datatype 'e wl_pc =
    WlOff
  | WlTop duration
  | WlFailed 'e duration
  | WlRecv
  | WlEnded
  | WlSleep duration duration
  | WlReturn "'e run_error"
  | WlSent

text \<open>The goroutine of \<open>handleAssignment\<close>; \<open>TaskWait\<close> is blocked inside \<open>Executor.Run\<close>, in run \<open>i\<close>.\<close>

datatype 'dur task =
    TaskEntered "'dur pb_WorkAssignment option"
  | TaskRun "'dur pb_WorkAssignment option"
  | TaskWait nat string
  | TaskReport string Result
  | TaskOver

record ('w, 'e, 'dur) Proc =
  agent :: Agent
  net :: 'w
  run_at :: "'e run_pc"
  hb_at :: "'e hb_pc"
  wl_at :: "'e wl_pc"
  errCh :: "'e run_error list"
  tasks :: "(nat, 'dur task) fmap"
  next_task :: nat

definition set_exec :: "(node_state \<Rightarrow> node_state) \<Rightarrow> ('w, 'e, 'dur) Proc \<Rightarrow> ('w, 'e, 'dur) Proc" where
  "set_exec f p = p\<lparr>agent := (agent p)\<lparr>ag_exec := f (ag_exec (agent p))\<rparr>\<rparr>"

definition ctx_done :: "('w, 'e, 'dur) Proc \<Rightarrow> bool" where
  "ctx_done p = parent_done (ag_exec (agent p))"

section \<open>The goroutine of \<open>Run\<close>\<close>

definition run_step :: "('w, 'e) Client \<Rightarrow> ('w, 'e, 'dur) Proc \<Rightarrow> ('w, 'e, 'dur) Proc" where
  "run_step cl p = (case run_at p of
     RunRegister \<Rightarrow> (case Agent_Register cl (agent p) (net p) of
         (Inl err, a, w) \<Rightarrow> p\<lparr>agent := a, net := w, run_at := RunReturned (CallFailed err)\<rparr>
       | (Inr nid, a, w) \<Rightarrow> p\<lparr>agent := a, net := w, run_at := RunHeartbeat\<rparr>)
   | RunHeartbeat \<Rightarrow> (case Agent_Heartbeat cl (agent p) (net p) of
         (Some err, a, w) \<Rightarrow> p\<lparr>agent := a, net := w, run_at := RunReturned (CallFailed err)\<rparr>
       | (None, a, w) \<Rightarrow> p\<lparr>agent := a, net := w, run_at := RunWait, hb_at := HbSelect, wl_at := WlTop initial_backoff\<rparr>)
   | RunWait \<Rightarrow> (case errCh p of
         [] \<Rightarrow> p
       | err # errs \<Rightarrow> p\<lparr>run_at := RunCancel err, errCh := errs\<rparr>)
   | RunCancel err \<Rightarrow> (set_exec parent_cancel p)\<lparr>run_at := RunStop err\<rparr>
   | RunStop err \<Rightarrow> (set_exec (\<lambda>e. snd (node_stop [] e)) p)\<lparr>run_at := RunDrain err\<rparr>
   | RunDrain err \<Rightarrow> (case errCh p of
         [] \<Rightarrow> p
       | _ # errs \<Rightarrow> p\<lparr>run_at := RunReturned err, errCh := errs\<rparr>)
   | RunReturned err \<Rightarrow> p)"

section \<open>The heartbeat loop\<close>

text \<open>\<open>tick\<close> says which case the \<open>select\<close> takes; the other one needs a context that is done.\<close>

definition hb_step :: "bool \<Rightarrow> ('w, 'e) Client \<Rightarrow> ('e \<Rightarrow> bool) \<Rightarrow> ('w, 'e, 'dur) Proc \<Rightarrow> ('w, 'e, 'dur) Proc" where
  "hb_step ticked cl notFound p = (case hb_at p of
     HbSelect \<Rightarrow>
       if ticked then p\<lparr>hb_at := HbCall\<rparr>
       else if ctx_done p then p\<lparr>hb_at := HbReturn CtxCanceled\<rparr>
       else p
   | HbCall \<Rightarrow> (case heartbeat_turn cl notFound (ctx_done p) (agent p) (net p) of
       (go_on, a, w) \<Rightarrow> p\<lparr>agent := a, net := w, hb_at := if go_on then HbSelect else HbReturn CtxCanceled\<rparr>)
   | HbReturn err \<Rightarrow> if length (errCh p) < 2 then p\<lparr>hb_at := HbSent, errCh := errCh p @ [err]\<rparr> else p
   | HbOff \<Rightarrow> p
   | HbSent \<Rightarrow> p)"

section \<open>The work loop\<close>

text \<open>
  What a step of \<open>watchLoop\<close> meets: the answer of \<open>WatchWork\<close>, what \<open>Recv\<close> returns (a message, or an error
  or the end of the stream), or the case of the \<open>select\<close> in \<open>sleepBackoff\<close> (\<open>timer\<close>).
\<close>

record ('w, 'e, 'dur) wl_input =
  wl_open :: "'e option"
  wl_recv :: "'dur pb_WatchWorkResponse option option"
  wl_timer :: bool

definition spawn :: "'dur pb_WorkAssignment option \<Rightarrow> ('w, 'e, 'dur) Proc \<Rightarrow> ('w, 'e, 'dur) Proc" where
  "spawn asgn p = p\<lparr>tasks := fmupd (next_task p) (TaskEntered asgn) (tasks p), next_task := next_task p + 1\<rparr>"

text \<open>The body of the loop in \<open>recvWork\<close>.\<close>

definition recvWork :: "'dur pb_WatchWorkResponse option \<Rightarrow> ('w, 'e, 'dur) Proc \<Rightarrow> ('w, 'e, 'dur) Proc" where
  "recvWork msg p = (case WatchWorkResponse_GetPayload msg of
     Some (WatchWorkResponse_Assignment asgn) \<Rightarrow> spawn asgn p
   | Some (WatchWorkResponse_Cancel c) \<Rightarrow>
       (if c \<noteq> None then set_exec (\<lambda>e. snd (node_stop (CancelWork_GetJobId c) e)) p else p)
   | None \<Rightarrow> p)"

text \<open>\<open>sleepBackoff\<close>: no result while it blocks, else nil or the error of the context.\<close>

definition sleepBackoff :: "bool \<Rightarrow> bool \<Rightarrow> 'e run_error option option" where
  "sleepBackoff timer ended = (if timer then Some None else if ended then Some (Some CtxCanceled) else None)"

declare sleepBackoff_def [simp]

definition wl_step ::
  "('w, 'e, 'dur) wl_input \<Rightarrow> ('w, 'e) Client \<Rightarrow> ('e \<Rightarrow> bool) \<Rightarrow> ('w, 'e, 'dur) Proc \<Rightarrow> ('w, 'e, 'dur) Proc" where
  "wl_step i cl notFound p = (case wl_at p of
     WlTop backoff \<Rightarrow>
       if ctx_done p then p\<lparr>wl_at := WlReturn CtxCanceled\<rparr>
       else (case wl_open i of
           None \<Rightarrow> p\<lparr>wl_at := WlRecv\<rparr>
         | Some err \<Rightarrow> p\<lparr>wl_at := WlFailed err backoff\<rparr>)
   | WlFailed err backoff \<Rightarrow>
       (case watch_failed cl notFound (ctx_done p) err backoff (agent p) (net p) of
          ((None, _), a, w) \<Rightarrow> p\<lparr>wl_at := WlReturn CtxCanceled\<rparr>
        | ((Some d, b), a, w) \<Rightarrow> p\<lparr>agent := a, net := w, wl_at := WlSleep d b\<rparr>)
   | WlRecv \<Rightarrow>
       (case wl_recv i of None \<Rightarrow> p\<lparr>wl_at := WlEnded\<rparr> | Some msg \<Rightarrow> recvWork msg p)
   | WlEnded \<Rightarrow>
       (case watch_ended (ctx_done p) of
          (None, _) \<Rightarrow> p\<lparr>wl_at := WlReturn CtxCanceled\<rparr>
        | (Some d, b) \<Rightarrow> p\<lparr>wl_at := WlSleep d b\<rparr>)
   | WlSleep d b \<Rightarrow>
       (case sleepBackoff (wl_timer i) (ctx_done p) of
          None \<Rightarrow> p
        | Some None \<Rightarrow> p\<lparr>wl_at := WlTop b\<rparr>
        | Some (Some err) \<Rightarrow> p\<lparr>wl_at := WlReturn err\<rparr>)
   | WlReturn err \<Rightarrow> if length (errCh p) < 2 then p\<lparr>wl_at := WlSent, errCh := errCh p @ [err]\<rparr> else p
   | WlOff \<Rightarrow> p
   | WlSent \<Rightarrow> p)"

section \<open>The goroutine of an assignment\<close>

definition task_step ::
  "('dur \<Rightarrow> duration) \<Rightarrow> nat \<Rightarrow> ('w, 'e) Client \<Rightarrow> ('w, 'e, 'dur) Proc \<Rightarrow> ('w, 'e, 'dur) Proc" where
  "task_step asDur t cl p = (case fmlookup (tasks p) t of
     None \<Rightarrow> p
   | Some (TaskEntered asgn) \<Rightarrow>
       if asgn = None then p\<lparr>tasks := fmupd t TaskOver (tasks p)\<rparr>
       else p\<lparr>net := Agent_report cl (WorkAssignment_GetJobId asgn) JOB_EVENT_STARTED 0 [] (agent p) (net p),
              tasks := fmupd t (TaskRun asgn) (tasks p)\<rparr>
   | Some (TaskRun asgn) \<Rightarrow>
       (case Run_begin asDur asgn (ag_exec (agent p)) of
          (None, e) \<Rightarrow> (set_exec (\<lambda>_. e) p)\<lparr>tasks := fmupd t (TaskWait (next_run (ag_exec (agent p))) (WorkAssignment_GetJobId asgn)) (tasks p)\<rparr>
        | (Some res, e) \<Rightarrow> (set_exec (\<lambda>_. e) p)\<lparr>tasks := fmupd t (TaskReport (WorkAssignment_GetJobId asgn) res) (tasks p)\<rparr>)
   | Some (TaskWait i jobID) \<Rightarrow>
       (case fmlookup (active (ag_exec (agent p))) i of
          None \<Rightarrow> p
        | Some r \<Rightarrow> (case run_phase r of
            Done res \<Rightarrow> (set_exec (Run_end i r) p)\<lparr>tasks := fmupd t (TaskReport jobID res) (tasks p)\<rparr>
          | _ \<Rightarrow> p))
   | Some (TaskReport jobID res) \<Rightarrow>
       p\<lparr>net := Agent_report cl jobID (rs_Event res) (rs_ExitCode res) (rs_ErrMsg res) (agent p) (net p),
         tasks := fmupd t TaskOver (tasks p)\<rparr>
   | Some TaskOver \<Rightarrow> p)"

section \<open>Processes and timers\<close>

text \<open>The executable form of the steps of \<open>exec_step\<close> that the agent does not take itself.\<close>

fun exec_own :: "'dur exec_event \<Rightarrow> node_state \<Rightarrow> node_state" where
  "exec_own (Started i) s = (case fmlookup (active s) i of
     Some r \<Rightarrow> if run_phase r = Starting then set_phase i r Waiting s else s | None \<Rightarrow> s)"
| "exec_own (StartFailed i msg) s = (case fmlookup (active s) i of
     Some r \<Rightarrow> if run_phase r = Starting then set_phase i r (Done (failed_result msg)) s else s | None \<Rightarrow> s)"
| "exec_own (Exited i err) s = (case fmlookup (active s) i of
     Some r \<Rightarrow> if run_phase r = Waiting then set_phase i r (Done (resultFromWait err)) s else s | None \<Rightarrow> s)"
| "exec_own (Kill i) s = (case fmlookup (active s) i of
     Some r \<Rightarrow> if run_phase r = Waiting \<and> run_ctx r \<noteq> Live then set_phase i r (Killed (context_result (run_ctx r))) s else s
   | None \<Rightarrow> s)"
| "exec_own (Reaped i) s = (case fmlookup (active s) i of
     Some r \<Rightarrow> (case run_phase r of Killed res \<Rightarrow> set_phase i r (Done res) s | _ \<Rightarrow> s) | None \<Rightarrow> s)"
| "exec_own (TimeUp i) s = (case fmlookup (active s) i of
     Some r \<Rightarrow> if run_timed r then s\<lparr>active := fmupd i (end_ctx DeadlineExceeded r) (active s)\<rparr> else s | None \<Rightarrow> s)"
| "exec_own _ s = s"

section \<open>The program\<close>

datatype ('w, 'e, 'dur) proc_event =
    Signal
  | RunTurn "('w, 'e) Client"
  | HbTurn bool "('w, 'e) Client"
  | WlTurn "('w, 'e, 'dur) wl_input" "('w, 'e) Client"
  | TaskTurn nat "('w, 'e) Client"
  | ExecTurn "'dur exec_event"

fun proc_step ::
  "('dur \<Rightarrow> duration) \<Rightarrow> ('e \<Rightarrow> bool) \<Rightarrow> ('w, 'e, 'dur) proc_event \<Rightarrow> ('w, 'e, 'dur) Proc \<Rightarrow> ('w, 'e, 'dur) Proc" where
  "proc_step asDur notFound Signal p = set_exec parent_cancel p"
| "proc_step asDur notFound (RunTurn cl) p = run_step cl p"
| "proc_step asDur notFound (HbTurn ticked cl) p = hb_step ticked cl notFound p"
| "proc_step asDur notFound (WlTurn i cl) p = wl_step i cl notFound p"
| "proc_step asDur notFound (TaskTurn t cl) p = task_step asDur t cl p"
| "proc_step asDur notFound (ExecTurn e) p = set_exec (exec_own e) p"

abbreviation proc_run ::
  "('dur \<Rightarrow> duration) \<Rightarrow> ('e \<Rightarrow> bool) \<Rightarrow> ('w, 'e, 'dur) proc_event list \<Rightarrow> ('w, 'e, 'dur) Proc \<Rightarrow> ('w, 'e, 'dur) Proc" where
  "proc_run asDur notFound es p \<equiv> fold (proc_step asDur notFound) es p"

text \<open>\<open>main\<close>: \<open>dialled\<close> says whether \<open>Dial\<close> (\<open>grpc.NewClient\<close>, which makes no call yet) accepted the address;
  \<open>None\<close> when \<open>main\<close> gives up before \<open>Run\<close>.\<close>

definition node_main :: "string \<Rightarrow> string \<Rightarrow> int \<Rightarrow> duration \<Rightarrow> bool \<Rightarrow> 'w \<Rightarrow> ('w, 'e, 'dur) Proc option" where
  "node_main flag_id hostname cpus interval dialled w =
     (case node_config flag_id hostname cpus interval of
        None \<Rightarrow> None
      | Some cfg \<Rightarrow>
          if \<not> dialled then None
          else Some \<lparr>agent = Make_Agent cfg, net = w, run_at = RunRegister, hb_at = HbOff, wl_at = WlOff,
                 errCh = [], tasks = fmempty, next_task = 0\<rparr>)"

text \<open>What \<open>main\<close> makes of the error of \<open>Run\<close>: whether it ends with \<open>log.Fatal\<close>.\<close>

definition fatal_exit :: "('e \<Rightarrow> bool) \<Rightarrow> 'e run_error \<Rightarrow> bool" where
  "fatal_exit isCanceled err = (case err of CtxCanceled \<Rightarrow> False | CallFailed e \<Rightarrow> \<not> isCanceled e)"

section \<open>The executor inside the program\<close>

lemma set_exec_simps [simp]:
  "ag_exec (agent (set_exec f p)) = f (ag_exec (agent p))" "net (set_exec f p) = net p" "run_at (set_exec f p) = run_at p"
  "hb_at (set_exec f p) = hb_at p" "wl_at (set_exec f p) = wl_at p" "errCh (set_exec f p) = errCh p"
  "tasks (set_exec f p) = tasks p" "next_task (set_exec f p) = next_task p"
  by (simp_all add: set_exec_def)

lemma register_exec: "Agent_Register cl a w = (res, a', w') \<Longrightarrow> ag_exec a' = ag_exec a"
  by (auto simp: Agent_Register_def Let_def split: prod.splits sum.splits if_splits)

lemma exec_one: "exec_step asDur s e t \<Longrightarrow> exec_steps asDur s [e] t"
  by (rule exec_steps.more [OF _ exec_steps.none])

lemma exec_stop: "exec_steps asDur s [StopCall jid (fst (node_stop jid s))] (snd (node_stop jid s))"
  by (rule exec_one [OF exec_step.stop]) simp

definition no_calls :: "'dur exec_event list \<Rightarrow> bool" where
  "no_calls xs \<longleftrightarrow> (\<forall>a. Call a \<notin> set xs)"

lemma stop_events: "\<exists>xs. exec_steps asDur s xs (snd (node_stop jid s)) \<and> no_calls xs"
  using exec_stop [of asDur s jid] by (intro exI conjI) (auto simp: no_calls_def)

lemma heartbeat_exec:
  assumes "Agent_Heartbeat cl a w = (res, a', w')"
  shows "\<exists>xs. exec_steps asDur (ag_exec a) xs (ag_exec a') \<and> no_calls xs"
proof -
  from assms consider "ag_exec a' = ag_exec a" | jid where "ag_exec a' = snd (node_stop jid (ag_exec a))"
    by (auto simp: Agent_Heartbeat_def Let_def split: prod.splits sum.splits if_splits)
  then show ?thesis
  proof cases
    case 1
    then show ?thesis by (intro exI [of _ "[]"]) (simp add: exec_steps.none no_calls_def)
  next
    case (2 jid)
    then show ?thesis by (simp add: stop_events)
  qed
qed

lemma heartbeat_turn_exec:
  assumes "heartbeat_turn cl notFound done a w = (go_on, a', w')"
  shows "\<exists>xs. exec_steps asDur (ag_exec a) xs (ag_exec a') \<and> no_calls xs"
proof -
  obtain res a1 w1 where h: "Agent_Heartbeat cl a w = (res, a1, w1)" by (metis prod_cases3)
  have "ag_exec a' = ag_exec a1"
    using assms h by (auto simp: heartbeat_turn_def dest: register_exec split: option.splits prod.splits sum.splits if_splits)
  with heartbeat_exec [OF h] show ?thesis by simp
qed

lemma exec_own_step: "exec_own e s = s \<or> (exec_step asDur s e (exec_own e s) \<and> (\<forall>a. e \<noteq> Call a))"
  by (cases e) (auto intro: exec_step.intros split: option.splits phase.splits)

lemma stays: "s' = s \<Longrightarrow> \<exists>xs. exec_steps asDur s xs s' \<and> no_calls xs"
  by (intro exI [of _ "[]"]) (simp add: exec_steps.none no_calls_def)

lemma exec_events: "exec_step asDur s e t \<Longrightarrow> \<forall>a. e \<noteq> Call a \<Longrightarrow> \<exists>xs. exec_steps asDur s xs t \<and> no_calls xs"
  by (intro exI [of _ "[e]"]) (auto simp: exec_one no_calls_def)

lemma wl_exec: "\<exists>xs. exec_steps asDur (ag_exec (agent p)) xs (ag_exec (agent (wl_step i cl notFound p))) \<and> no_calls xs"
proof -
  let ?s = "ag_exec (agent p)"
  have "\<exists>xs. exec_steps asDur ?s xs (ag_exec (agent (recvWork msg p))) \<and> no_calls xs" for msg
    by (auto simp: recvWork_def spawn_def stop_events intro: stays
        split: option.split WatchWorkResponse_payload.split)
  moreover have "ag_exec a = ?s" if "watch_failed cl notFound d err b (agent p) (net p) = (x, a, w)" for d err b x a w
  proof -
    have "ag_exec (fst (snd (Agent_Register cl (agent p) (net p)))) = ?s"
      by (rule register_exec [of cl "agent p" "net p" "fst (Agent_Register cl (agent p) (net p))" _ "snd (snd (Agent_Register cl (agent p) (net p)))"]) simp
    with that show ?thesis by (auto simp: watch_failed_def split: if_splits)
  qed
  ultimately show ?thesis by (cases "wl_at p") (auto simp: wl_step_def intro!: stays split: prod.split option.split)
qed

lemma task_exec:
  assumes "\<nexists>a e'. fmlookup (tasks p) t = Some (TaskRun a) \<and> Run_begin asDur a (ag_exec (agent p)) = (None, e')"
  shows "\<exists>xs. exec_steps asDur (ag_exec (agent p)) xs (ag_exec (agent (task_step asDur t cl p))) \<and> no_calls xs"
proof -
  let ?s = "ag_exec (agent p)"
  have ret: "\<exists>xs. exec_steps asDur ?s xs (Run_end i r ?s) \<and> no_calls xs"
    if "fmlookup (active ?s) i = Some r" "run_phase r = Done res" for i r res
    using exec_events [OF exec_step.return [OF that]] by simp
  have ref: "\<exists>xs. exec_steps asDur ?s xs e' \<and> no_calls xs" if "Run_begin asDur a ?s = (Some res, e')" for a res e'
    using exec_events [OF exec_step.refuse [OF that]] by simp
  from assms show ?thesis
    by (auto simp: task_step_def ret ref intro: stays split: option.split task.split prod.split phase.split)
qed

text \<open>Every step of the program is some steps of its executor; a call is made for a goroutine's assignment.\<close>

lemma proc_step_exec:
  "\<exists>xs. exec_steps asDur (ag_exec (agent p)) xs (ag_exec (agent (proc_step asDur notFound e p))) \<and>
     (\<forall>a. Call a \<in> set xs \<longrightarrow> (\<exists>t. fmlookup (tasks p) t = Some (TaskRun a)))"
proof -
  let ?s = "ag_exec (agent p)" and ?p' = "proc_step asDur notFound e p"
  have quiet: ?thesis if "\<exists>xs. exec_steps asDur ?s xs (ag_exec (agent ?p')) \<and> no_calls xs"
    using that unfolding no_calls_def by blast
  show ?thesis
  proof (cases e)
    case Signal
    then show ?thesis by (intro quiet) (simp add: exec_events [OF exec_step.shutdown])
  next
    case (RunTurn cl)
    have cancel: "\<exists>xs. exec_steps asDur ?s xs (parent_cancel ?s) \<and> no_calls xs"
      by (rule exec_events [OF exec_step.shutdown]) simp
    show ?thesis
      by (rule quiet, cases "run_at p") (auto simp: RunTurn run_step_def stop_events cancel intro: heartbeat_exec stays dest: register_exec
          split: prod.split sum.split option.split list.split)
  next
    case (HbTurn ticked cl)
    then show ?thesis
      by (intro quiet, cases "hb_at p") (auto simp: hb_step_def intro: heartbeat_turn_exec stays split: prod.split)
  next
    case (WlTurn i cl)
    then show ?thesis by (intro quiet) (simp add: wl_exec)
  next
    case (TaskTurn t cl)
    show ?thesis
    proof (cases "\<exists>a e'. fmlookup (tasks p) t = Some (TaskRun a) \<and> Run_begin asDur a ?s = (None, e')")
      case True
      then obtain a e' where t: "fmlookup (tasks p) t = Some (TaskRun a)" "Run_begin asDur a ?s = (None, e')" by blast
      then have "exec_steps asDur ?s [Call a] (ag_exec (agent ?p'))"
        by (simp add: TaskTurn task_step_def exec_one [OF exec_step.call])
      with t(1) show ?thesis by (intro exI [of _ "[Call a]"]) auto
    next
      case False
      with TaskTurn task_exec [of p t asDur cl] show ?thesis by (intro quiet) simp
    qed
  next
    case (ExecTurn x)
    with exec_own_step [of x ?s asDur] show ?thesis
      by (intro quiet) (auto intro: stays exec_events)
  qed
qed

text \<open>Where assignments come from: from a message of the stream.\<close>

definition received :: "('w, 'e, 'dur) proc_event list \<Rightarrow> 'dur pb_WorkAssignment option \<Rightarrow> bool" where
  "received es asgn \<longleftrightarrow> (\<exists>i cl msg. WlTurn i cl \<in> set es \<and> wl_recv i = Some msg \<and>
     WatchWorkResponse_GetPayload msg = Some (WatchWorkResponse_Assignment asgn))"

lemma received_append: "received (es @ fs) asgn \<longleftrightarrow> received es asgn \<or> received fs asgn"
  unfolding received_def by auto

lemma tasks_of_step:
  assumes "fmlookup (tasks (proc_step asDur notFound e p)) t = Some x" "x = TaskEntered asgn \<or> x = TaskRun asgn"
  shows "(\<exists>t. fmlookup (tasks p) t = Some (TaskEntered asgn) \<or> fmlookup (tasks p) t = Some (TaskRun asgn)) \<or> received [e] asgn"
proof (cases e)
  case (RunTurn cl)
  with assms show ?thesis by (auto simp: run_step_def split: run_pc.splits prod.splits sum.splits option.splits list.splits)
next
  case (HbTurn ticked cl)
  with assms show ?thesis by (auto simp: hb_step_def split: hb_pc.splits prod.splits if_splits)
next
  case (WlTurn i cl)
  have "(\<exists>t. fmlookup (tasks p) t = Some (TaskEntered asgn) \<or> fmlookup (tasks p) t = Some (TaskRun asgn)) \<or> received [e] asgn"
    if "wl_recv i = Some msg" "fmlookup (tasks (recvWork msg p)) t = Some x" for msg
    using that assms(2) by (auto simp: WlTurn received_def recvWork_def spawn_def
        split: option.splits WatchWorkResponse_payload.splits if_splits)
  with assms WlTurn show ?thesis by (auto simp: wl_step_def split: wl_pc.splits prod.splits option.splits if_splits)
next
  case (TaskTurn t' cl)
  with assms show ?thesis
    by (auto simp: task_step_def split: option.splits task.splits prod.splits phase.splits if_splits)
qed (use assms in auto)

definition started :: "('w, 'e, 'dur) Proc \<Rightarrow> bool" where
  "started p \<longleftrightarrow> ag_exec (agent p) = node_start \<and> run_at p = RunRegister \<and> hb_at p = HbOff \<and> wl_at p = WlOff \<and>
     errCh p = [] \<and> tasks p = fmempty"

lemma node_main_started: "node_main flag_id hostname cpus interval dialled w = Some p \<Longrightarrow> started p"
  by (auto simp: node_main_def started_def Make_Agent_def Let_def split: option.splits if_splits)

lemma exec_steps_trans: "exec_steps asDur s xs t \<Longrightarrow> exec_steps asDur t ys u \<Longrightarrow> exec_steps asDur s (xs @ ys) u"
  unfolding exec_steps_append by blast

lemma proc_run_exec:
  assumes "started p0"
  shows "\<exists>xs. exec_steps asDur node_start xs (ag_exec (agent (proc_run asDur notFound es p0))) \<and>
      (\<forall>a. Call a \<in> set xs \<longrightarrow> received es a) \<and>
      (\<forall>t a. fmlookup (tasks (proc_run asDur notFound es p0)) t = Some (TaskEntered a) \<or>
             fmlookup (tasks (proc_run asDur notFound es p0)) t = Some (TaskRun a) \<longrightarrow> received es a)"
proof (induction es rule: rev_induct)
  case Nil
  with assms show ?case by (intro exI [of _ "[]"]) (simp add: started_def exec_steps.none)
next
  case (snoc e es)
  let ?p = "proc_run asDur notFound es p0"
  from snoc obtain xs where xs: "exec_steps asDur node_start xs (ag_exec (agent ?p))" "\<forall>a. Call a \<in> set xs \<longrightarrow> received es a"
      "\<forall>t a. fmlookup (tasks ?p) t = Some (TaskEntered a) \<or> fmlookup (tasks ?p) t = Some (TaskRun a) \<longrightarrow> received es a"
    by blast
  obtain ys where ys: "exec_steps asDur (ag_exec (agent ?p)) ys (ag_exec (agent (proc_step asDur notFound e ?p)))"
      "\<forall>a. Call a \<in> set ys \<longrightarrow> (\<exists>t. fmlookup (tasks ?p) t = Some (TaskRun a))"
    using proc_step_exec by blast
  have new: "received (es @ [e]) a"
    if "fmlookup (tasks (proc_step asDur notFound e ?p)) t = Some (TaskEntered a) \<or>
        fmlookup (tasks (proc_step asDur notFound e ?p)) t = Some (TaskRun a)" for t a
    using that tasks_of_step [of asDur notFound e ?p t _ a] xs(3) unfolding received_append by metis
  from exec_steps_trans [OF xs(1) ys(1)] xs(2,3) ys(2) new show ?case
    by (intro exI [of _ "xs @ ys"]) (auto simp: received_append)
qed

section \<open>One goroutine per run\<close>

text \<open>Every active run is waited for by exactly one goroutine, which will report it under its job's name; new
  goroutines get new numbers.\<close>

definition paired :: "(nat \<Rightarrow> 'j option) \<Rightarrow> (nat \<Rightarrow> (nat \<times> 'j) option) \<Rightarrow> bool" where
  "paired R W \<longleftrightarrow> (\<forall>i j. R i = Some j \<longleftrightarrow> (\<exists>t. W t = Some (i, j))) \<and>
     (\<forall>t t' i j j'. W t = Some (i, j) \<longrightarrow> W t' = Some (i, j') \<longrightarrow> t = t')"

lemma paired_once: "paired R W \<Longrightarrow> W t = Some (i, j) \<Longrightarrow> W t' = Some (i, j') \<Longrightarrow> t = t'"
  unfolding paired_def by blast

lemma paired_iff: "paired R W \<Longrightarrow> R i = Some j \<longleftrightarrow> (\<exists>t. W t = Some (i, j))"
  unfolding paired_def by blast

lemma paired_add:
  assumes "paired R W" "R n = None" "W t = None"
  shows "paired (R(n := Some j)) (W(t := Some (n, j)))"
proof -
  have fresh: "W t' \<noteq> Some (n, j')" for t' j' using paired_iff [OF assms(1), of n j'] assms(2) by auto
  have "(R(n := Some j)) i = Some k \<longleftrightarrow> (\<exists>t'. (W(t := Some (n, j))) t' = Some (i, k))" for i k
  proof (cases "i = n")
    case True
    then show ?thesis using fresh by auto
  next
    case False
    then have "(\<exists>t'. (W(t := Some (n, j))) t' = Some (i, k)) \<longleftrightarrow> (\<exists>t'. W t' = Some (i, k))"
      using assms(3) by (metis fun_upd_apply option.distinct(1) option.inject prod.inject)
    with False paired_iff [OF assms(1)] show ?thesis by simp
  qed
  moreover have "t1 = t2" if "(W(t := Some (n, j))) t1 = Some (i, k)" "(W(t := Some (n, j))) t2 = Some (i, k')" for t1 t2 i k k'
    using that fresh paired_once [OF assms(1)] by (auto split: if_splits)
  ultimately show ?thesis unfolding paired_def by blast
qed

lemma paired_del:
  assumes "paired R W" "W t = Some (i, j)"
  shows "paired (R(i := None)) (W(t := None))"
proof -
  have only: "W t' = Some (i, j') \<Longrightarrow> t' = t" for t' j' using paired_once [OF assms(1) _ assms(2)] .
  have "(R(i := None)) i' = Some k \<longleftrightarrow> (\<exists>t'. (W(t := None)) t' = Some (i', k))" for i' k
  proof (cases "i' = i")
    case True
    then show ?thesis using only by auto
  next
    case False
    then have "(\<exists>t'. (W(t := None)) t' = Some (i', k)) \<longleftrightarrow> (\<exists>t'. W t' = Some (i', k))"
      using assms(2) by (metis fun_upd_apply option.distinct(1) option.inject prod.inject)
    with False paired_iff [OF assms(1)] show ?thesis by simp
  qed
  moreover have "t1 = t2" if "(W(t := None)) t1 = Some (i', k)" "(W(t := None)) t2 = Some (i', k')" for t1 t2 i' k k'
    using that paired_once [OF assms(1)] by (auto split: if_splits)
  ultimately show ?thesis unfolding paired_def by blast
qed

definition runs :: "node_state \<Rightarrow> nat \<Rightarrow> string option" where
  "runs s i = map_option run_job (fmlookup (active s) i)"

definition waits :: "(nat, 'dur task) fmap \<Rightarrow> nat \<Rightarrow> (nat \<times> string) option" where
  "waits ts t = (case fmlookup ts t of Some (TaskWait i jid) \<Rightarrow> Some (i, jid) | _ \<Rightarrow> None)"

definition waited :: "('w, 'e, 'dur) Proc \<Rightarrow> bool" where
  "waited p \<longleftrightarrow> paired (runs (ag_exec (agent p))) (waits (tasks p)) \<and>
     (\<forall>i. next_run (ag_exec (agent p)) \<le> i \<longrightarrow> runs (ag_exec (agent p)) i = None) \<and>
     (\<forall>t. next_task p \<le> t \<longrightarrow> fmlookup (tasks p) t = None)"

lemma waits_upd: "waits (fmupd t x ts) = (waits ts)(t := case x of TaskWait i jid \<Rightarrow> Some (i, jid) | _ \<Rightarrow> None)"
  by (auto simp: waits_def fun_eq_iff split: task.split)

lemma runs_upd: "runs (s\<lparr>active := fmupd i r (active s)\<rparr>) = (runs s)(i := Some (run_job r))"
  by (auto simp: runs_def fun_eq_iff)

definition same_runs :: "node_state \<Rightarrow> node_state \<Rightarrow> bool" where
  "same_runs s s' \<longleftrightarrow> next_run s' = next_run s \<and> runs s' = runs s"

lemma same_runs_refl [simp]: "same_runs s s"
  by (simp add: same_runs_def)

lemma same_runs_upd: "fmlookup (active s) i = Some r \<Longrightarrow> run_job r' = run_job r \<Longrightarrow> same_runs s (s\<lparr>active := fmupd i r' (active s)\<rparr>)"
  by (auto simp: same_runs_def runs_def fun_eq_iff)

lemma same_runs_stop [simp]: "same_runs s (snd (node_stop jid s))"
  by (auto simp: node_stop_def cancel_ctx_def end_ctx_def intro: same_runs_upd split: prod.split option.split)

lemma same_runs_cancel [simp]: "same_runs s (parent_cancel s)"
  by (auto simp: same_runs_def runs_def parent_cancel_def fun_eq_iff option.map_comp comp_def end_ctx_def intro!: option.map_cong)

lemma same_runs_own [simp]: "same_runs s (exec_own e s)"
  by (cases e) (auto simp: set_phase_def end_ctx_def intro: same_runs_upd split: option.split phase.split)

lemma heartbeat_same: "Agent_Heartbeat cl a w = (res, a', w') \<Longrightarrow> same_runs (ag_exec a) (ag_exec a')"
  by (auto simp: Agent_Heartbeat_def Let_def split: prod.splits sum.splits if_splits)

lemma turn_same: "heartbeat_turn cl notFound done a w = (go_on, a', w') \<Longrightarrow> same_runs (ag_exec a) (ag_exec a')"
  by (auto simp: heartbeat_turn_def dest!: register_exec heartbeat_same split: option.splits prod.splits sum.splits if_splits)

lemma failed_same: "watch_failed cl notFound d err b a w = (x, a', w') \<Longrightarrow> ag_exec a' = ag_exec a"
  by (auto simp: watch_failed_def split: if_splits) (metis prod.collapse register_exec)

lemma waited_quiet:
  assumes "waited p" "same_runs (ag_exec (agent p)) (ag_exec (agent p'))" "tasks p' = tasks p" "next_task p' = next_task p"
  shows "waited p'"
  using assms by (simp add: waited_def same_runs_def)

lemma waits_same: "waits ts t = None \<Longrightarrow> (case y of TaskWait i jid \<Rightarrow> Some (i, jid) | _ \<Rightarrow> None) = None \<Longrightarrow> waits (fmupd t y ts) = waits ts"
  by (simp add: waits_upd fun_upd_idem)

lemma waited_spawn:
  assumes "waited p"
  shows "waited (spawn a p)"
proof -
  have "fmlookup (tasks p) (next_task p) = None" using assms by (simp add: waited_def)
  then have "waits (tasks p) (next_task p) = None" by (simp add: waits_def)
  with assms show ?thesis by (auto simp: waited_def spawn_def waits_same)
qed

lemma waited_begin:
  assumes "waited p" "fmlookup (tasks p) t = Some (TaskRun a)" "Run_begin asDur a (ag_exec (agent p)) = (None, e)"
  shows "waited ((set_exec (\<lambda>_. e) p)\<lparr>tasks := fmupd t (TaskWait (next_run (ag_exec (agent p))) (WorkAssignment_GetJobId a)) (tasks p)\<rparr>)"
proof -
  let ?s = "ag_exec (agent p)"
  have e: "runs e = (runs ?s)(next_run ?s := Some (WorkAssignment_GetJobId a))" "next_run e = next_run ?s + 1"
    using assms(3) by (auto simp: Run_begin_def runs_def fun_eq_iff split: if_splits)
  have "waits (tasks p) t = None" using assms(2) by (simp add: waits_def)
  from paired_add [where W = "waits (tasks p)", OF _ _ this, of "runs ?s" "next_run ?s" "WorkAssignment_GetJobId a"] assms(1,2)
  show ?thesis by (auto simp: waited_def e waits_upd)
qed

lemma waited_other_task:
  assumes "waited p" "fmlookup (tasks p) t = Some x" "waits (tasks p) t = None"
    and "(case y of TaskWait i jid \<Rightarrow> Some (i, jid) | _ \<Rightarrow> None) = None"
    and "ag_exec (agent p') = ag_exec (agent p)" "tasks p' = fmupd t y (tasks p)" "next_task p' = next_task p"
  shows "waited p'"
  using assms by (auto simp: waited_def waits_same)

lemma waited_end:
  assumes "waited p" "fmlookup (tasks p) t = Some (TaskWait i jid)"
  shows "waited ((set_exec (Run_end i r) p)\<lparr>tasks := fmupd t (TaskReport jid res) (tasks p)\<rparr>)"
proof -
  have "runs (Run_end i r (ag_exec (agent p))) = (runs (ag_exec (agent p)))(i := None)"
    "next_run (Run_end i r (ag_exec (agent p))) = next_run (ag_exec (agent p))"
    by (auto simp: Run_end_def runs_def fun_eq_iff)
  moreover have "waits (tasks p) t = Some (i, jid)" using assms(2) by (simp add: waits_def)
  ultimately show ?thesis using assms by (auto simp: waited_def waits_upd paired_del)
qed

text \<open>A turn of the goroutine of an assignment.\<close>

lemma waited_task:
  assumes "waited p"
  shows "waited (task_step asDur t cl p)"
proof (cases "fmlookup (tasks p) t")
  case None
  with assms show ?thesis by (simp add: task_step_def)
next
  case (Some x)
  show ?thesis
  proof (cases x)
    case (TaskRun a)
    obtain res e' where b: "Run_begin asDur a (ag_exec (agent p)) = (res, e')" by fastforce
    show ?thesis
    proof (cases res)
      case None
      with Some TaskRun b waited_begin [OF assms _ b [unfolded None]] show ?thesis by (simp add: task_step_def)
    next
      case res: (Some r)
      then have "e' = ag_exec (agent p)" using b by (auto simp: Run_begin_def split: if_splits)
      with Some TaskRun b res show ?thesis
        by (intro waited_other_task [OF assms Some, where y = "TaskReport (WorkAssignment_GetJobId a) r"]) (simp_all add: task_step_def waits_def)
    qed
  next
    case (TaskWait i jid)
    with Some assms show ?thesis
      by (auto simp: task_step_def intro: waited_end split: option.split phase.split)
  next
    case (TaskEntered a)
    with Some show ?thesis
      by (intro waited_other_task [OF assms Some, where y = "if a = None then TaskOver else TaskRun a"]) (simp_all add: task_step_def waits_def)
  next
    case (TaskReport jid res)
    with Some show ?thesis
      by (intro waited_other_task [OF assms Some, where y = TaskOver]) (simp_all add: task_step_def waits_def)
  next
    case TaskOver
    with Some assms show ?thesis by (simp add: task_step_def)
  qed
qed

lemma waited_step:
  assumes "waited p"
  shows "waited (proc_step asDur notFound e p)"
proof (cases e)
  case (RunTurn cl)
  have "waited p'" if "run_step cl p = p'" for p'
    using that by (intro waited_quiet [OF assms]) (cases "run_at p"; auto simp: run_step_def dest: register_exec heartbeat_same
        split: prod.splits sum.splits option.splits list.splits)+
  with RunTurn show ?thesis by simp
next
  case (HbTurn ticked cl)
  have "waited p'" if "hb_step ticked cl notFound p = p'" for p'
    using that by (intro waited_quiet [OF assms]) (cases "hb_at p"; auto simp: hb_step_def dest: turn_same split: prod.splits if_splits)+
  with HbTurn show ?thesis by simp
next
  case (WlTurn i cl)
  have msg: "waited (recvWork msg p)" for msg
    by (auto simp: recvWork_def intro: assms waited_spawn waited_quiet [OF assms] split: option.split WatchWorkResponse_payload.split)
  have "waited p'" if "wl_step i cl notFound p = p'" "\<forall>msg. p' \<noteq> recvWork msg p" for p'
    using that by (intro waited_quiet [OF assms]) (cases "wl_at p"; auto simp: wl_step_def dest: failed_same split: prod.splits option.splits if_splits)+
  with WlTurn msg show ?thesis by (metis proc_step.simps(4))
next
  case (TaskTurn t cl)
  with waited_task [OF assms] show ?thesis by simp
qed (auto intro: waited_quiet [OF assms])

lemma waited_run: "waited p \<Longrightarrow> waited (proc_run asDur notFound es p)"
  by (induction es arbitrary: p) (simp_all add: waited_step)

lemma waited_started: "started p \<Longrightarrow> waited p"
  by (simp add: started_def waited_def paired_def runs_def waits_def node_start_def)

section \<open>The life of the program\<close>

definition sends :: "('w, 'e, 'dur) Proc \<Rightarrow> nat" where
  "sends p = (if hb_at p = HbSent then 1 else 0) + (if wl_at p = WlSent then 1 else 0)"

fun receives :: "'e run_pc \<Rightarrow> nat" where
  "receives (RunCancel err) = 1"
| "receives (RunStop err) = 1"
| "receives (RunDrain err) = 1"
| "receives (RunReturned err) = 2"
| "receives _ = 0"

definition looping :: "('w, 'e, 'dur) Proc \<Rightarrow> bool" where
  "looping p \<longleftrightarrow> hb_at p \<noteq> HbOff \<and> wl_at p \<noteq> WlOff \<and>
     set (errCh p) \<subseteq> {CtxCanceled} \<and> length (errCh p) + receives (run_at p) = sends p \<and>
     (\<forall>err. hb_at p = HbReturn err \<longrightarrow> err = CtxCanceled) \<and> (\<forall>err. wl_at p = WlReturn err \<longrightarrow> err = CtxCanceled) \<and>
     (hb_at p = HbReturn CtxCanceled \<or> wl_at p = WlReturn CtxCanceled \<or> sends p > 0 \<longrightarrow> ctx_done p)"

definition off :: "('w, 'e, 'dur) Proc \<Rightarrow> bool" where
  "off p \<longleftrightarrow> hb_at p = HbOff \<and> wl_at p = WlOff \<and> errCh p = [] \<and> tasks p = fmempty"

definition life :: "('w, 'e, 'dur) Proc \<Rightarrow> bool" where
  "life p \<longleftrightarrow> (case run_at p of
     RunRegister \<Rightarrow> off p | RunHeartbeat \<Rightarrow> off p
   | RunReturned (CallFailed e) \<Rightarrow> off p
   | RunReturned CtxCanceled \<Rightarrow> looping p
   | RunWait \<Rightarrow> looping p
   | RunCancel err \<Rightarrow> looping p \<and> err = CtxCanceled
   | RunStop err \<Rightarrow> looping p \<and> err = CtxCanceled
   | RunDrain err \<Rightarrow> looping p \<and> err = CtxCanceled)"

lemma ctx_stays: "ctx_done p \<Longrightarrow> ctx_done (proc_step asDur notFound e p)"
proof -
  assume flag: "ctx_done p"
  have one: "parent_done t" if "exec_step asDur s x t" "parent_done s" for s x t
    using that by cases (auto simp: Run_begin_def set_phase_def Run_end_def node_stop_def parent_cancel_def split: if_splits prod.splits)
  have "parent_done t" if "exec_steps asDur s xs t" "parent_done s" for s xs t
    using that by (induction rule: exec_steps.induct) (auto intro: one)
  with flag proc_step_exec [of asDur p notFound e] show ?thesis unfolding ctx_done_def by blast
qed

lemma register_off: "watch_failed cl notFound (ctx_done p) err b (agent p) (net p) = ((None, b'), a, w) \<Longrightarrow> ctx_done p"
  by (auto simp: watch_failed_def split: if_splits)

lemma turn_ends: "heartbeat_turn cl notFound d a w = (False, a', w') \<Longrightarrow> d"
  by (auto simp: heartbeat_turn_def split: option.splits prod.splits sum.splits if_splits)

text \<open>Steps that leave the loops alone: only the context may end.\<close>

lemma looping_frame:
  "looping p \<Longrightarrow> (ctx_done p \<Longrightarrow> ctx_done p') \<Longrightarrow> run_at p' = run_at p \<Longrightarrow> hb_at p' = hb_at p \<Longrightarrow> wl_at p' = wl_at p \<Longrightarrow>
   errCh p' = errCh p \<Longrightarrow> looping p'"
  by (auto simp: looping_def sends_def)

lemma recvWork_frame [simp]:
  "run_at (recvWork msg p) = run_at p" "hb_at (recvWork msg p) = hb_at p" "wl_at (recvWork msg p) = wl_at p"
  "errCh (recvWork msg p) = errCh p"
  by (auto simp: recvWork_def spawn_def split: option.split WatchWorkResponse_payload.split)

lemma task_frame [simp]:
  "run_at (task_step asDur t cl p) = run_at p" "hb_at (task_step asDur t cl p) = hb_at p"
  "wl_at (task_step asDur t cl p) = wl_at p" "errCh (task_step asDur t cl p) = errCh p"
  by (auto simp: task_step_def split: option.split task.split prod.split phase.split)

text \<open>A turn of a loop.\<close>

lemma looping_hb:
  assumes "looping p" "ctx_done p \<Longrightarrow> ctx_done (hb_step ticked cl notFound p)"
  shows "looping (hb_step ticked cl notFound p)"
proof (cases "hb_at p")
  case HbCall
  obtain go_on a w where t: "heartbeat_turn cl notFound (ctx_done p) (agent p) (net p) = (go_on, a, w)" by (metis prod_cases3)
  have "\<not> go_on \<Longrightarrow> ctx_done p" using turn_ends t by metis
  moreover have "hb_step ticked cl notFound p = p\<lparr>agent := a, net := w, hb_at := if go_on then HbSelect else HbReturn CtxCanceled\<rparr>"
    by (simp add: hb_step_def HbCall t)
  ultimately show ?thesis using assms HbCall by (auto simp: looping_def sends_def)
qed (use assms in \<open>auto simp: hb_step_def looping_def sends_def split: if_splits\<close>)

lemma looping_wl:
  assumes "looping p" "ctx_done p \<Longrightarrow> ctx_done (wl_step i cl notFound p)"
  shows "looping (wl_step i cl notFound p)"
proof (cases "wl_at p")
  case (WlFailed err b)
  obtain d b' a w where f: "watch_failed cl notFound (ctx_done p) err b (agent p) (net p) = ((d, b'), a, w)" by (metis prod.collapse)
  have "d = None \<Longrightarrow> ctx_done p" using register_off f by metis
  moreover have "wl_step i cl notFound p = (case d of None \<Rightarrow> p\<lparr>wl_at := WlReturn CtxCanceled\<rparr>
      | Some d \<Rightarrow> p\<lparr>agent := a, net := w, wl_at := WlSleep d b'\<rparr>)"
    by (simp add: wl_step_def WlFailed f split: option.split)
  ultimately show ?thesis using assms WlFailed by (auto simp: looping_def sends_def split: option.splits)
next
  case WlRecv
  then show ?thesis
    using assms by (auto simp: wl_step_def looping_def sends_def split: option.splits)
next
  case WlEnded
  then show ?thesis
    using assms by (auto simp: wl_step_def looping_def sends_def watch_ended_def split: option.splits if_splits)
qed (use assms in \<open>auto simp: wl_step_def looping_def sends_def split: if_splits option.splits\<close>)

text \<open>A step of \<open>Run\<close> while the loops are alive.\<close>

lemma looping_receives:
  "looping p \<Longrightarrow> errCh p = e # es \<Longrightarrow> receives r' = receives (run_at p) + 1 \<Longrightarrow> looping (p\<lparr>run_at := r', errCh := es\<rparr>) \<and> e = CtxCanceled"
  by (auto simp: looping_def sends_def ctx_done_def)

lemma looping_exec: "looping p \<Longrightarrow> ctx_done (set_exec f p) \<Longrightarrow> receives r' = receives (run_at p) \<Longrightarrow> looping ((set_exec f p)\<lparr>run_at := r'\<rparr>)"
  by (auto simp: looping_def sends_def ctx_done_def)

text \<open>Before the loops start nothing else moves.\<close>

lemma off_step: "off p \<Longrightarrow> (\<And>cl. e \<noteq> RunTurn cl) \<Longrightarrow> off (proc_step asDur notFound e p) \<and> run_at (proc_step asDur notFound e p) = run_at p"
  by (cases e) (auto simp: off_def hb_step_def wl_step_def task_step_def)

lemma looping_ctx: "looping p \<Longrightarrow> 0 < receives (run_at p) \<Longrightarrow> ctx_done p"
  by (auto simp: looping_def)

lemma life_cases:
  assumes "life p"
  obtains "run_at p = RunRegister" "off p" | "run_at p = RunHeartbeat" "off p" | err where "run_at p = RunReturned (CallFailed err)" "off p"
  | "run_at p \<in> {RunWait, RunCancel CtxCanceled, RunStop CtxCanceled, RunDrain CtxCanceled, RunReturned CtxCanceled}" "looping p"
  using assms unfolding life_def by (cases "run_at p") (auto split: run_error.splits)

lemma looping_life:
  "run_at p \<in> {RunWait, RunCancel CtxCanceled, RunStop CtxCanceled, RunDrain CtxCanceled, RunReturned CtxCanceled} \<Longrightarrow> looping p \<Longrightarrow> life p"
  by (auto simp: life_def)

lemma run_looping:
  assumes "run_at p \<in> {RunWait, RunCancel CtxCanceled, RunStop CtxCanceled, RunDrain CtxCanceled, RunReturned CtxCanceled}" "looping p"
    and "ctx_done p \<Longrightarrow> ctx_done (run_step cl p)"
  shows "life (run_step cl p)"
proof -
  consider "run_at p = RunWait" | "run_at p = RunCancel CtxCanceled" | "run_at p = RunStop CtxCanceled"
    | "run_at p = RunDrain CtxCanceled" | "run_at p = RunReturned CtxCanceled" using assms(1) by blast
  then show ?thesis
  proof cases
    case 1
    show ?thesis
    proof (cases "errCh p")
      case (Cons e es)
      from looping_receives [OF assms(2) this, of "RunCancel CtxCanceled"] 1 have "looping (p\<lparr>run_at := RunCancel CtxCanceled, errCh := es\<rparr>)" "e = CtxCanceled"
        by simp_all
      with 1 Cons show ?thesis by (intro looping_life) (simp_all add: run_step_def)
    qed (use 1 assms(1,2) in \<open>simp add: run_step_def looping_life\<close>)
  next
    case 2
    with looping_ctx [OF assms(2)] have "ctx_done (set_exec parent_cancel p)" by (simp add: ctx_done_def parent_cancel_def)
    from looping_exec [OF assms(2) this, of "RunStop CtxCanceled"] 2 show ?thesis by (intro looping_life) (simp_all add: run_step_def)
  next
    case 3
    with looping_ctx [OF assms(2)] assms(3) have "ctx_done (set_exec (\<lambda>e. snd (node_stop [] e)) p)"
      by (simp add: ctx_done_def run_step_def)
    from looping_exec [OF assms(2) this, of "RunDrain CtxCanceled"] 3 show ?thesis by (intro looping_life) (simp_all add: run_step_def)
  next
    case 4
    show ?thesis
    proof (cases "errCh p")
      case (Cons e es)
      from looping_receives [OF assms(2) this, of "RunReturned CtxCanceled"] 4 have "looping (p\<lparr>run_at := RunReturned CtxCanceled, errCh := es\<rparr>)"
        by simp
      with 4 Cons show ?thesis by (intro looping_life) (simp_all add: run_step_def)
    qed (use 4 assms(1,2) in \<open>simp add: run_step_def looping_life\<close>)
  next
    case 5
    then show ?thesis using assms(1,2) by (simp add: run_step_def looping_life)
  qed
qed

lemma run_off:
  assumes "off p" "run_at p = RunRegister \<or> run_at p = RunHeartbeat"
  shows "life (run_step cl p)"
proof (cases "run_at p = RunRegister")
  case True
  then show ?thesis using assms(1) by (auto simp: run_step_def life_def off_def split: prod.split sum.split)
next
  case False
  with assms show ?thesis
    by (auto simp: run_step_def life_def off_def looping_def sends_def split: prod.split option.split)
qed

lemma looping_step:
  assumes "looping p" "\<And>cl. e \<noteq> RunTurn cl"
  shows "looping (proc_step asDur notFound e p) \<and> run_at (proc_step asDur notFound e p) = run_at p"
proof (cases e)
  case (HbTurn ticked cl)
  have "run_at (hb_step ticked cl notFound p) = run_at p" by (auto simp: hb_step_def split: hb_pc.split prod.split)
  with looping_hb [OF assms(1)] ctx_stays [of p undefined notFound "HbTurn ticked cl"] HbTurn show ?thesis by simp
next
  case (WlTurn i cl)
  have "run_at (wl_step i cl notFound p) = run_at p" by (auto simp: wl_step_def split: wl_pc.split prod.split option.split)
  with looping_wl [OF assms(1)] ctx_stays [of p undefined notFound "WlTurn i cl"] WlTurn show ?thesis by simp
qed (use assms ctx_stays [of p asDur notFound e] in \<open>auto intro: looping_frame\<close>)

lemma life_step: "life p \<Longrightarrow> life (proc_step asDur notFound e p)"
proof (erule life_cases)
  note ctx = ctx_stays [of p asDur notFound e]
  show "life (proc_step asDur notFound e p)" if "run_at p = RunRegister" "off p"
    using that run_off [of p] off_step [of p e asDur notFound] by (cases e) (auto simp: life_def)
  show "life (proc_step asDur notFound e p)" if "run_at p = RunHeartbeat" "off p"
    using that run_off [of p] off_step [of p e asDur notFound] by (cases e) (auto simp: life_def)
  show "life (proc_step asDur notFound e p)" if "run_at p = RunReturned (CallFailed err)" "off p" for err
    using that off_step [of p e asDur notFound] by (cases e) (auto simp: life_def run_step_def)
  show "life (proc_step asDur notFound e p)"
    if "run_at p \<in> {RunWait, RunCancel CtxCanceled, RunStop CtxCanceled, RunDrain CtxCanceled, RunReturned CtxCanceled}" "looping p"
  proof (cases "\<exists>cl. e = RunTurn cl")
    case True
    with run_looping [OF that] ctx show ?thesis by auto
  next
    case False
    with looping_step [OF that(2)] that(1) show ?thesis by (intro looping_life) auto
  qed
qed

lemma life_run: "life p \<Longrightarrow> life (proc_run asDur notFound es p)"
  by (induction es arbitrary: p) (simp_all add: life_step)

lemma life_started: "started p \<Longrightarrow> life p"
  by (simp add: started_def life_def off_def)

text \<open>Only a signal ends the context: \<open>Run\<close> cancels it when it has ended already.\<close>

lemma parent_frames [simp]:
  "parent_done (snd (node_stop jid s)) = parent_done s" "parent_done (Run_end i r s) = parent_done s"
  "parent_done (set_phase i r x s) = parent_done s"
  by (simp_all add: node_stop_def Run_end_def set_phase_def split: prod.split)

lemma parent_own [simp]: "parent_done (exec_own e s) = parent_done s"
  by (cases e) (auto split: option.split phase.split)

lemma parent_begin: "Run_begin asDur a s = (res, e) \<Longrightarrow> parent_done e = parent_done s"
  by (auto simp: Run_begin_def split: if_splits)

lemma parent_heartbeat: "Agent_Heartbeat cl a w = (res, a', w') \<Longrightarrow> parent_done (ag_exec a') = parent_done (ag_exec a)"
  by (auto simp: Agent_Heartbeat_def Let_def split: prod.splits sum.splits if_splits)

lemma parent_turn: "heartbeat_turn cl notFound d a w = (go_on, a', w') \<Longrightarrow> parent_done (ag_exec a') = parent_done (ag_exec a)"
  by (auto simp: heartbeat_turn_def dest!: register_exec parent_heartbeat split: option.splits prod.splits sum.splits if_splits)

lemma ctx_by_signal:
  assumes "life p" "ctx_done (proc_step asDur notFound e p)" "e \<noteq> Signal"
  shows "ctx_done p"
proof (cases e)
  case (RunTurn cl)
  show ?thesis
  proof (cases "run_at p")
    case (RunCancel err)
    with assms(1) have "looping p" by (simp add: life_def)
    with RunCancel show ?thesis by (intro looping_ctx) simp_all
  qed (use assms(2) RunTurn in \<open>auto simp: ctx_done_def run_step_def dest: register_exec parent_heartbeat
      split: prod.splits sum.splits option.splits list.splits\<close>)
next
  case (HbTurn ticked cl)
  with assms(2) show ?thesis by (auto simp: ctx_done_def hb_step_def dest: parent_turn split: hb_pc.splits prod.splits if_splits)
next
  case (WlTurn i cl)
  have "parent_done (ag_exec (agent (recvWork msg p))) = parent_done (ag_exec (agent p))" for msg
    by (simp add: recvWork_def spawn_def split: option.split WatchWorkResponse_payload.split)
  with assms(2) WlTurn show ?thesis
    by (auto simp: ctx_done_def wl_step_def dest: failed_same split: wl_pc.splits prod.splits option.splits if_splits)
next
  case (TaskTurn t cl)
  with assms(2) show ?thesis
    by (auto simp: ctx_done_def task_step_def dest: parent_begin split: option.splits task.splits prod.splits phase.splits if_splits)
qed (use assms(2,3) in \<open>simp_all add: ctx_done_def\<close>)

lemma ctx_signalled:
  assumes "started p0" "ctx_done (proc_run asDur notFound es p0)"
  shows "Signal \<in> set es"
  using assms(2)
proof (induction es rule: rev_induct)
  case Nil
  with assms(1) show ?case by (simp add: started_def ctx_done_def node_start_def)
next
  case (snoc e es)
  then show ?case
    using ctx_by_signal [OF life_run [OF life_started [OF assms(1)]], of asDur notFound e asDur notFound es] by auto
qed

section \<open>Shutting down\<close>

text \<open>A thread that is given steps again and again, each of which brings it nearer its end, gets there.\<close>

lemma drains:
  fixes r :: "'s \<Rightarrow> nat"
  assumes "\<forall>t. \<exists>u \<ge> t. own u"
  shows "\<forall>t \<ge> T. r (f (Suc t)) \<le> r (f t) \<and> (own t \<longrightarrow> 0 < r (f t) \<longrightarrow> r (f (Suc t)) < r (f t)) \<Longrightarrow> \<exists>u \<ge> T. \<forall>v \<ge> u. r (f v) = 0"
proof (induction "r (f T)" arbitrary: T rule: less_induct)
  case less
  have mono: "r (f v) \<le> r (f t)" if "T \<le> t" "t \<le> v" for t v
    using that(2)
  proof (induction v rule: dec_induct)
    case (step n)
    from step.hyps \<open>T \<le> t\<close> have "T \<le> n" by simp
    with less.prems have "r (f (Suc n)) \<le> r (f n)" by blast
    with step.IH show ?case by simp
  qed simp
  show ?case
  proof (cases "r (f T) = 0")
    case True
    then show ?thesis using mono [of T] by (intro exI [of _ T]) auto
  next
    case False
    obtain u where u: "T \<le> u" "own u" using assms by blast
    have "r (f (Suc u)) < r (f T)"
    proof (cases "r (f u) = 0")
      case True
      with mono [of u "Suc u"] u(1) False show ?thesis by simp
    next
      case nz: False
      with less.prems u have "r (f (Suc u)) < r (f u)" by simp
      with mono [of T u] u(1) show ?thesis by simp
    qed
    moreover have "\<forall>t \<ge> Suc u. r (f (Suc t)) \<le> r (f t) \<and> (own t \<longrightarrow> 0 < r (f t) \<longrightarrow> r (f (Suc t)) < r (f t))"
      using less.prems u(1) by simp
    ultimately obtain u' where "Suc u \<le> u'" "\<forall>v \<ge> u'. r (f v) = 0" using less.hyps by blast
    with u(1) show ?thesis by (intro exI [of _ u']) simp
  qed
qed

fun hb_rank :: "'e hb_pc \<Rightarrow> nat" where
  "hb_rank HbCall = 3"
| "hb_rank HbSelect = 2"
| "hb_rank (HbReturn err) = 1"
| "hb_rank _ = 0"

fun wl_rank :: "'e wl_pc \<Rightarrow> nat" where
  "wl_rank WlRecv = 5"
| "wl_rank WlEnded = 4"
| "wl_rank (WlFailed err b) = 4"
| "wl_rank (WlSleep d b) = 3"
| "wl_rank (WlTop b) = 2"
| "wl_rank (WlReturn err) = 1"
| "wl_rank _ = 0"

fun run_rank :: "'e run_pc \<Rightarrow> nat" where
  "run_rank RunWait = 4"
| "run_rank (RunCancel err) = 3"
| "run_rank (RunStop err) = 2"
| "run_rank (RunDrain err) = 1"
| "run_rank _ = 0"

text \<open>The loops have started and their context is done.\<close>

definition ending :: "('w, 'e, 'dur) Proc \<Rightarrow> bool" where
  "ending p \<longleftrightarrow> looping p \<and> ctx_done p \<and>
     run_at p \<in> {RunWait, RunCancel CtxCanceled, RunStop CtxCanceled, RunDrain CtxCanceled, RunReturned CtxCanceled}"

lemma hb_turn_rank:
  assumes "ending p" "\<not> (hb_at p = HbSelect \<and> ticked)"
  shows "hb_rank (hb_at (hb_step ticked cl notFound p)) \<le> hb_rank (hb_at p) \<and>
    (0 < hb_rank (hb_at p) \<longrightarrow> hb_rank (hb_at (hb_step ticked cl notFound p)) < hb_rank (hb_at p))"
proof (cases "hb_at p")
  case (HbReturn err)
  with assms(1) have "length (errCh p) < 2" by (auto simp: ending_def looping_def sends_def split: if_splits)
  with HbReturn show ?thesis by (simp add: hb_step_def)
qed (use assms in \<open>auto simp: hb_step_def ending_def split: prod.split\<close>)

lemma wl_turn_rank:
  assumes "ending p" "wl_at p = WlRecv \<longrightarrow> wl_recv i = None"
  shows "wl_rank (wl_at (wl_step i cl notFound p)) \<le> wl_rank (wl_at p) \<and>
    (0 < wl_rank (wl_at p) \<longrightarrow> wl_rank (wl_at (wl_step i cl notFound p)) < wl_rank (wl_at p))"
proof (cases "wl_at p")
  case (WlReturn err)
  with assms(1) have "length (errCh p) < 2" by (auto simp: ending_def looping_def sends_def split: if_splits)
  with WlReturn show ?thesis by (simp add: wl_step_def)
qed (use assms in \<open>auto simp: wl_step_def ending_def watch_failed_def watch_ended_def split: prod.split option.split\<close>)

lemma run_turn_rank:
  assumes "ending p" "hb_rank (hb_at p) = 0" "wl_rank (wl_at p) = 0" "0 < run_rank (run_at p)"
  shows "run_rank (run_at (run_step cl p)) < run_rank (run_at p)"
proof -
  have two: "hb_at p = HbSent" "wl_at p = WlSent"
    using assms(1-3) by (cases "hb_at p"; cases "wl_at p"; auto simp: ending_def looping_def)+
  then have "length (errCh p) + receives (run_at p) = 2" using assms(1) by (simp add: ending_def looping_def sends_def)
  then show ?thesis
    using assms(1,4) by (auto simp: ending_def run_step_def split: list.split)
qed

lemma other_ranks:
  "(\<nexists>cl. e = RunTurn cl) \<Longrightarrow> run_at (proc_step asDur notFound e p) = run_at p"
  "ending p \<Longrightarrow> (\<nexists>b cl. e = HbTurn b cl) \<Longrightarrow> hb_at (proc_step asDur notFound e p) = hb_at p"
  "ending p \<Longrightarrow> (\<nexists>i cl. e = WlTurn i cl) \<Longrightarrow> wl_at (proc_step asDur notFound e p) = wl_at p"
proof -
  have run: "run_at (hb_step b cl notFound p) = run_at p" "wl_at (hb_step b cl notFound p) = wl_at p"
    "run_at (wl_step i cl notFound p) = run_at p" "hb_at (wl_step i cl notFound p) = hb_at p" for b cl i
    by (auto simp: hb_step_def wl_step_def split: hb_pc.split wl_pc.split prod.split option.split)
  have loops: "hb_at (run_step cl p) = hb_at p \<and> wl_at (run_step cl p) = wl_at p" if "ending p" for cl
    using that by (auto simp: ending_def run_step_def split: list.split)
  show "(\<nexists>cl. e = RunTurn cl) \<Longrightarrow> run_at (proc_step asDur notFound e p) = run_at p" by (cases e) (simp_all add: run)
  show "ending p \<Longrightarrow> (\<nexists>b cl. e = HbTurn b cl) \<Longrightarrow> hb_at (proc_step asDur notFound e p) = hb_at p"
    by (cases e) (simp_all add: run loops)
  show "ending p \<Longrightarrow> (\<nexists>i cl. e = WlTurn i cl) \<Longrightarrow> wl_at (proc_step asDur notFound e p) = wl_at p"
    by (cases e) (simp_all add: run loops)
qed

lemma ending_step:
  assumes "ending p"
  shows "ending (proc_step asDur notFound e p)"
proof -
  have l: "looping p" "ctx_done p" "life p" using assms looping_life by (auto simp: ending_def)
  note ctx = ctx_stays [OF l(2), of asDur notFound e]
  show ?thesis
  proof (cases "\<exists>cl. e = RunTurn cl")
    case True
    then obtain cl where e: "e = RunTurn cl" by blast
    have "hb_at (run_step cl p) \<noteq> HbOff"
      using other_ranks(2) [OF assms, of e asDur notFound] l(1) e by (simp add: looping_def)
    with life_cases [OF life_step [OF l(3), of asDur notFound e]] ctx e show ?thesis
      by (auto simp: ending_def off_def)
  next
    case False
    with looping_step [OF l(1), of e asDur notFound] ctx assms show ?thesis by (auto simp: ending_def)
  qed
qed

primrec proc_at ::
  "('dur \<Rightarrow> duration) \<Rightarrow> ('e \<Rightarrow> bool) \<Rightarrow> (nat \<Rightarrow> ('w, 'e, 'dur) proc_event) \<Rightarrow> ('w, 'e, 'dur) Proc \<Rightarrow> nat \<Rightarrow> ('w, 'e, 'dur) Proc" where
  "proc_at asDur notFound es p 0 = p"
| "proc_at asDur notFound es p (Suc t) = proc_step asDur notFound (es t) (proc_at asDur notFound es p t)"

lemma proc_at_ending: "ending (proc_at asDur notFound es p T) \<Longrightarrow> T \<le> t \<Longrightarrow> ending (proc_at asDur notFound es p t)"
  by (induction t) (auto simp: le_Suc_eq ending_step)

text \<open>
  Fairness.  A \<open>select\<close> that is entered again and again with its context done does not take the ticker each time, and
  a stream whose context is done does not deliver a message each time it is asked.  Before the loop takes the
  way out the controller may answer as it likes.
\<close>

definition strongly_fair :: "(nat \<Rightarrow> bool) \<Rightarrow> (nat \<Rightarrow> bool) \<Rightarrow> bool" where
  "strongly_fair enabled taken \<longleftrightarrow> (\<forall>t. \<exists>u \<ge> t. enabled u) \<longrightarrow> (\<forall>t. \<exists>u \<ge> t. taken u)"

definition fair_select :: "(nat \<Rightarrow> ('w, 'e, 'dur) Proc) \<Rightarrow> (nat \<Rightarrow> ('w, 'e, 'dur) proc_event) \<Rightarrow> bool" where
  "fair_select p es \<longleftrightarrow> strongly_fair
     (\<lambda>t. ctx_done (p t) \<and> hb_at (p t) = HbSelect \<and> (\<exists>b cl. es t = HbTurn b cl))
     (\<lambda>t. hb_at (p t) = HbSelect \<and> (\<exists>cl. es t = HbTurn False cl))"

definition fair_stream :: "(nat \<Rightarrow> ('w, 'e, 'dur) Proc) \<Rightarrow> (nat \<Rightarrow> ('w, 'e, 'dur) proc_event) \<Rightarrow> bool" where
  "fair_stream p es \<longleftrightarrow> strongly_fair
     (\<lambda>t. ctx_done (p t) \<and> wl_at (p t) = WlRecv \<and> (\<exists>i cl. es t = WlTurn i cl))
     (\<lambda>t. wl_at (p t) = WlRecv \<and> (\<exists>i cl. es t = WlTurn i cl \<and> wl_recv i = None))"

text \<open>A choice whose way out leads to no such choice any more is met only finitely often.\<close>

lemma fair_choice_ends:
  assumes "strongly_fair enabled taken" "\<And>t u. taken t \<Longrightarrow> T \<le> t \<Longrightarrow> t < u \<Longrightarrow> \<not> enabled u"
  shows "\<exists>U \<ge> T. \<forall>t \<ge> U. \<not> enabled t"
proof (rule ccontr)
  assume "\<not> (\<exists>U \<ge> T. \<forall>t \<ge> U. \<not> enabled t)"
  then have more: "\<exists>u \<ge> t. enabled u" if "T \<le> t" for t using that by blast
  have often: "\<exists>u \<ge> t. enabled u" for t using more [of "max T t"] by auto
  with assms(1) obtain t where "T \<le> t" "taken t" unfolding strongly_fair_def by blast
  moreover obtain u where "Suc t \<le> u" "enabled u" using often by blast
  ultimately show False using assms(2) [of t u] by simp
qed

lemma hb_leaves:
  assumes "ending p" "hb_rank (hb_at p) \<le> 1"
  shows "hb_rank (hb_at (proc_step asDur notFound e p)) \<le> 1"
proof (cases "\<exists>b cl. e = HbTurn b cl")
  case True
  then show ?thesis using assms(2) by (cases "hb_at p") (auto simp: hb_step_def)
qed (use assms other_ranks(2) [OF assms(1), of e asDur notFound] in simp)

lemma wl_leaves:
  assumes "ending p" "wl_rank (wl_at p) \<le> 4"
  shows "wl_rank (wl_at (proc_step asDur notFound e p)) \<le> 4"
proof (cases "\<exists>i cl. e = WlTurn i cl")
  case True
  then obtain i cl where e: "e = WlTurn i cl" by blast
  have "wl_at p \<noteq> WlRecv" using assms(2) by auto
  with assms wl_turn_rank [OF assms(1), of i cl notFound] e show ?thesis by simp
qed (use assms other_ranks(3) [OF assms(1), of e asDur notFound] in simp)

lemma hb_left: "ending (proc_at asDur notFound es p t) \<Longrightarrow> hb_rank (hb_at (proc_at asDur notFound es p t)) \<le> 1 \<Longrightarrow> t \<le> u \<Longrightarrow>
  hb_rank (hb_at (proc_at asDur notFound es p u)) \<le> 1"
proof (induction u)
  case (Suc u)
  then show ?case using hb_leaves [OF proc_at_ending [OF Suc.prems(1), of u]] by (cases "t = Suc u") simp_all
qed simp

lemma wl_left: "ending (proc_at asDur notFound es p t) \<Longrightarrow> wl_rank (wl_at (proc_at asDur notFound es p t)) \<le> 4 \<Longrightarrow> t \<le> u \<Longrightarrow>
  wl_rank (wl_at (proc_at asDur notFound es p u)) \<le> 4"
proof (induction u)
  case (Suc u)
  then show ?case using wl_leaves [OF proc_at_ending [OF Suc.prems(1), of u]] by (cases "t = Suc u") simp_all
qed simp

text \<open>From some moment on no turn of the loops goes on.\<close>

lemma select_ends:
  assumes "ending (proc_at asDur notFound es p T)" "fair_select (proc_at asDur notFound es p) es"
  shows "\<exists>U \<ge> T. \<forall>t \<ge> U. \<not> (hb_at (proc_at asDur notFound es p t) = HbSelect \<and> (\<exists>b cl. es t = HbTurn b cl))"
proof -
  let ?f = "proc_at asDur notFound es p"
  note end_at = proc_at_ending [OF assms(1)]
  have "\<exists>U \<ge> T. \<forall>t \<ge> U. \<not> (ctx_done (?f t) \<and> hb_at (?f t) = HbSelect \<and> (\<exists>b cl. es t = HbTurn b cl))"
  proof (rule fair_choice_ends [OF assms(2) [unfolded fair_select_def]])
    fix t u assume t: "hb_at (?f t) = HbSelect \<and> (\<exists>cl. es t = HbTurn False cl)" "T \<le> t" "t < u"
    then have "hb_rank (hb_at (?f (Suc t))) \<le> 1" using end_at [OF t(2)] by (auto simp: hb_step_def ending_def)
    moreover have "ending (?f (Suc t))" by (rule end_at) (use t(2) in simp)
    ultimately have "hb_rank (hb_at (?f u)) \<le> 1" using hb_left [of asDur notFound es p "Suc t" u] t(3) by simp
    then show "\<not> (ctx_done (?f u) \<and> hb_at (?f u) = HbSelect \<and> (\<exists>b cl. es u = HbTurn b cl))" by auto
  qed
  then obtain U where U: "T \<le> U" "\<forall>t \<ge> U. \<not> (ctx_done (?f t) \<and> hb_at (?f t) = HbSelect \<and> (\<exists>b cl. es t = HbTurn b cl))" by blast
  have "ctx_done (?f t)" if "U \<le> t" for t using end_at [of t] that U(1) by (simp add: ending_def)
  with U show ?thesis by (intro exI [of _ U]) auto
qed

lemma stream_ends:
  assumes "ending (proc_at asDur notFound es p T)" "fair_stream (proc_at asDur notFound es p) es"
  shows "\<exists>U \<ge> T. \<forall>t \<ge> U. \<not> (wl_at (proc_at asDur notFound es p t) = WlRecv \<and> (\<exists>i cl. es t = WlTurn i cl))"
proof -
  let ?f = "proc_at asDur notFound es p"
  note end_at = proc_at_ending [OF assms(1)]
  have "\<exists>U \<ge> T. \<forall>t \<ge> U. \<not> (ctx_done (?f t) \<and> wl_at (?f t) = WlRecv \<and> (\<exists>i cl. es t = WlTurn i cl))"
  proof (rule fair_choice_ends [OF assms(2) [unfolded fair_stream_def]])
    fix t u assume t: "wl_at (?f t) = WlRecv \<and> (\<exists>i cl. es t = WlTurn i cl \<and> wl_recv i = None)" "T \<le> t" "t < u"
    then have "wl_rank (wl_at (?f (Suc t))) \<le> 4" by (auto simp: wl_step_def)
    moreover have "ending (?f (Suc t))" by (rule end_at) (use t(2) in simp)
    ultimately have "wl_rank (wl_at (?f u)) \<le> 4" using wl_left [of asDur notFound es p "Suc t" u] t(3) by simp
    then show "\<not> (ctx_done (?f u) \<and> wl_at (?f u) = WlRecv \<and> (\<exists>i cl. es u = WlTurn i cl))" by auto
  qed
  then obtain U where U: "T \<le> U" "\<forall>t \<ge> U. \<not> (ctx_done (?f t) \<and> wl_at (?f t) = WlRecv \<and> (\<exists>i cl. es t = WlTurn i cl))" by blast
  have "ctx_done (?f t)" if "U \<le> t" for t using end_at [of t] that U(1) by (simp add: ending_def)
  with U show ?thesis by (intro exI [of _ U]) auto
qed

text \<open>Every goroutine comes to its end: the loops first, then \<open>Run\<close>.\<close>

lemma heartbeat_loop_ends:
  assumes "ending (proc_at asDur notFound es p T)" "fair_select (proc_at asDur notFound es p) es" "\<forall>t. \<exists>u \<ge> t. \<exists>b cl. es u = HbTurn b cl"
  shows "\<exists>u \<ge> T. \<forall>v \<ge> u. hb_rank (hb_at (proc_at asDur notFound es p v)) = 0"
proof -
  let ?f = "proc_at asDur notFound es p"
  obtain U where U: "T \<le> U" "\<forall>t \<ge> U. \<not> (hb_at (?f t) = HbSelect \<and> (\<exists>b cl. es t = HbTurn b cl))"
    using select_ends [OF assms(1,2)] by blast
  have "\<exists>u \<ge> U. \<forall>v \<ge> u. hb_rank (hb_at (?f v)) = 0"
  proof (rule drains [OF assms(3), where f = ?f and r = "\<lambda>p. hb_rank (hb_at p)"], intro allI impI)
    fix t assume t: "U \<le> t"
    then have "ending (?f t)" using U(1) by (intro proc_at_ending [OF assms(1)]) simp
    from hb_turn_rank [OF this] other_ranks(2) [OF this, of "es t" asDur notFound] U(2) t
    show "hb_rank (hb_at (?f (Suc t))) \<le> hb_rank (hb_at (?f t)) \<and>
        ((\<exists>b cl. es t = HbTurn b cl) \<longrightarrow> 0 < hb_rank (hb_at (?f t)) \<longrightarrow> hb_rank (hb_at (?f (Suc t))) < hb_rank (hb_at (?f t)))"
      by (cases "es t") auto
  qed
  with U(1) show ?thesis using le_trans by blast
qed

lemma work_loop_ends:
  assumes "ending (proc_at asDur notFound es p T)" "fair_stream (proc_at asDur notFound es p) es" "\<forall>t. \<exists>u \<ge> t. \<exists>i cl. es u = WlTurn i cl"
  shows "\<exists>u \<ge> T. \<forall>v \<ge> u. wl_rank (wl_at (proc_at asDur notFound es p v)) = 0"
proof -
  let ?f = "proc_at asDur notFound es p"
  obtain U where U: "T \<le> U" "\<forall>t \<ge> U. \<not> (wl_at (?f t) = WlRecv \<and> (\<exists>i cl. es t = WlTurn i cl))"
    using stream_ends [OF assms(1,2)] by blast
  have "\<exists>u \<ge> U. \<forall>v \<ge> u. wl_rank (wl_at (?f v)) = 0"
  proof (rule drains [OF assms(3), where f = ?f and r = "\<lambda>p. wl_rank (wl_at p)"], intro allI impI)
    fix t assume t: "U \<le> t"
    then have "ending (?f t)" using U(1) by (intro proc_at_ending [OF assms(1)]) simp
    from wl_turn_rank [OF this] other_ranks(3) [OF this, of "es t" asDur notFound] U(2) t
    show "wl_rank (wl_at (?f (Suc t))) \<le> wl_rank (wl_at (?f t)) \<and>
        ((\<exists>i cl. es t = WlTurn i cl) \<longrightarrow> 0 < wl_rank (wl_at (?f t)) \<longrightarrow> wl_rank (wl_at (?f (Suc t))) < wl_rank (wl_at (?f t)))"
      by (cases "es t") auto
  qed
  with U(1) show ?thesis using le_trans by blast
qed

lemma ending_returns:
  assumes "ending (proc_at asDur notFound es p T)"
    and "fair_select (proc_at asDur notFound es p) es" "fair_stream (proc_at asDur notFound es p) es"
    and "\<forall>t. \<exists>u \<ge> t. \<exists>cl. es u = RunTurn cl" "\<forall>t. \<exists>u \<ge> t. \<exists>b cl. es u = HbTurn b cl" "\<forall>t. \<exists>u \<ge> t. \<exists>i cl. es u = WlTurn i cl"
  shows "\<exists>u \<ge> T. run_at (proc_at asDur notFound es p u) = RunReturned CtxCanceled"
proof -
  let ?f = "proc_at asDur notFound es p"
  note end_at = proc_at_ending [OF assms(1)]
  obtain u1 where u1: "T \<le> u1" "\<forall>v \<ge> u1. hb_rank (hb_at (?f v)) = 0" using heartbeat_loop_ends [OF assms(1,2,5)] by blast
  obtain u2 where u2: "T \<le> u2" "\<forall>v \<ge> u2. wl_rank (wl_at (?f v)) = 0" using work_loop_ends [OF assms(1,3,6)] by blast
  have "\<exists>u \<ge> max u1 u2. \<forall>v \<ge> u. run_rank (run_at (?f v)) = 0"
  proof (rule drains [OF assms(4), where f = ?f and r = "\<lambda>p. run_rank (run_at p)"], intro allI impI)
    fix t assume t: "max u1 u2 \<le> t"
    with u1 u2 have "ending (?f t)" "hb_rank (hb_at (?f t)) = 0" "wl_rank (wl_at (?f t)) = 0" by (auto intro: end_at)
    moreover have "run_rank (run_at (run_step cl (?f t))) \<le> run_rank (run_at (?f t))" for cl
      using run_turn_rank [OF calculation, of cl] \<open>ending (?f t)\<close>
      by (cases "run_rank (run_at (?f t)) = 0") (auto simp: ending_def run_step_def)
    ultimately show "run_rank (run_at (?f (Suc t))) \<le> run_rank (run_at (?f t)) \<and>
        ((\<exists>cl. es t = RunTurn cl) \<longrightarrow> 0 < run_rank (run_at (?f t)) \<longrightarrow> run_rank (run_at (?f (Suc t))) < run_rank (run_at (?f t)))"
      using run_turn_rank [of "?f t"] other_ranks(1) [of "es t" asDur notFound "?f t"] by (cases "es t") auto
  qed
  then obtain u where u: "max u1 u2 \<le> u" "run_rank (run_at (?f u)) = 0" by blast
  moreover have "ending (?f u)" using u(1) u1(1) by (intro end_at) simp
  ultimately have "run_at (?f u) = RunReturned CtxCanceled" by (auto simp: ending_def)
  with u(1) u1(1) show ?thesis by (intro exI [of _ u]) simp
qed

text \<open>\<open>Run\<close> does not stay in its first two calls, and loops that have begun stay begun.\<close>

fun start_rank :: "'e run_pc \<Rightarrow> nat" where
  "start_rank RunRegister = 2"
| "start_rank RunHeartbeat = 1"
| "start_rank _ = 0"

lemma start_turn:
  "start_rank (run_at (run_step cl p)) \<le> start_rank (run_at p) \<and>
   (0 < start_rank (run_at p) \<longrightarrow> start_rank (run_at (run_step cl p)) < start_rank (run_at p))"
  by (cases "run_at p") (auto simp: run_step_def split: prod.split sum.split option.split list.split)

lemma start_ends:
  assumes "\<forall>t. \<exists>u \<ge> t. \<exists>cl. es u = RunTurn cl"
  shows "\<exists>u \<ge> T. \<forall>v \<ge> u. start_rank (run_at (proc_at asDur notFound es p v)) = 0"
proof (rule drains [OF assms, where f = "proc_at asDur notFound es p" and r = "\<lambda>p. start_rank (run_at p)"], intro allI impI)
  fix t
  let ?p = "proc_at asDur notFound es p"
  show "start_rank (run_at (?p (Suc t))) \<le> start_rank (run_at (?p t)) \<and>
      ((\<exists>cl. es t = RunTurn cl) \<longrightarrow> 0 < start_rank (run_at (?p t)) \<longrightarrow> start_rank (run_at (?p (Suc t))) < start_rank (run_at (?p t)))"
    using start_turn [of _ "?p t"] other_ranks(1) [of "es t" asDur notFound "?p t"] by (cases "es t") auto
qed

lemma begun_stays: "hb_at p \<noteq> HbOff \<Longrightarrow> hb_at (proc_step asDur notFound e p) \<noteq> HbOff"
  by (cases e)
    (auto simp: run_step_def hb_step_def wl_step_def recvWork_def spawn_def task_step_def split: run_pc.split hb_pc.split wl_pc.split
      prod.split sum.split option.split list.split task.split phase.split WatchWorkResponse_payload.split)

lemma begun_at: "hb_at (proc_at asDur notFound es p t) \<noteq> HbOff \<Longrightarrow> t \<le> u \<Longrightarrow> hb_at (proc_at asDur notFound es p u) \<noteq> HbOff"
  by (induction u) (auto simp: le_Suc_eq begun_stays)

section \<open>A sample node\<close>

text \<open>A client for the samples: it accepts the node and answers everything else with an empty message.\<close>

definition mute_client :: "(nat, unit) Client" where
  "mute_client = \<lparr>cl_RegisterNode = \<lambda>req w. (Inr \<lparr>RegisterNodeResponse_NodeId = []\<rparr>, w),
     cl_Heartbeat = \<lambda>req w. (Inr \<lparr>HeartbeatResponse_Acknowledged = True, HeartbeatResponse_CancelJobId = []\<rparr>, w),
     cl_ReportJobStatus = \<lambda>req w. (Inr \<lparr>ReportJobStatusResponse_Acknowledged = True\<rparr>, w + 1)\<rparr>"

definition mute_node :: "(nat, unit, int) Proc" where
  "mute_node = the (node_main ''n1'' ''h'' 2 0 True 0)"

lemma mute_node: "node_main ''n1'' ''h'' 2 0 True 0 = Some mute_node"
  by (simp add: mute_node_def node_main_def node_config_def)

definition quiet_input :: "(nat, unit, int) wl_input" where
  "quiet_input = \<lparr>wl_open = None, wl_recv = None, wl_timer = False\<rparr>"

definition work_input :: "(nat, unit, int) wl_input" where
  "work_input = \<lparr>wl_open = None,
     wl_recv = Some (Some \<lparr>WatchWorkResponse_Payload = Some (WatchWorkResponse_Assignment sample_assignment)\<rparr>), wl_timer = False\<rparr>"

definition waiting_job :: "('w, 'e, 'dur) Proc \<Rightarrow> string option" where
  "waiting_job p = (case (run_at p, hb_at p, wl_at p, errCh p, fmlookup (active (ag_exec (agent p))) 0) of
     (RunWait, HbSelect, WlRecv, [], Some r) \<Rightarrow> (if run_phase r = Waiting then Some (run_job r) else None) | _ \<Rightarrow> None)"

definition mute_events :: "(nat, unit, int) proc_event list" where
  "mute_events = [RunTurn mute_client, RunTurn mute_client, WlTurn work_input mute_client, WlTurn work_input mute_client,
     TaskTurn 0 mute_client, TaskTurn 0 mute_client, ExecTurn (Started 0)]"

lemma mute_waiting: "waiting_job (proc_run (\<lambda>d. d) (\<lambda>_. False) mute_events mute_node) = Some ''job-1''"
  by code_simp

lemma waiting_jobD:
  assumes "waiting_job p = Some jid"
  obtains r where "run_at p = RunWait" "hb_at p = HbSelect" "wl_at p = WlRecv" "errCh p = []"
    "fmlookup (active (ag_exec (agent p))) 0 = Some r" "run_phase r = Waiting" "run_job r = jid"
  using assms by (auto simp: waiting_job_def split: run_pc.splits hb_pc.splits wl_pc.splits list.splits option.splits if_splits)

section \<open>Properties\<close>

text \<open>C16.  The node program runs the executor of the executor's model and nothing else: in every interleaving of
  its goroutines, the signal, the controller's answers and the processes, what its executor has been
  through is a sequence of the executor's own steps, every job it was given came from a message of the
  stream, and each run that is active is waited for by exactly one goroutine, which reports it under the
  name of the run's job.\<close>

theorem agent_embeds_the_executor:
  assumes "node_main flag_id hostname cpus interval dialled w0 = Some p0" "p = proc_run asDur notFound es p0"
  shows "(\<exists>xs. exec_steps asDur node_start xs (ag_exec (agent p)) \<and> (\<forall>asgn. Call asgn \<in> set xs \<longrightarrow> received es asgn)) \<and>
    (\<forall>i r. fmlookup (active (ag_exec (agent p))) i = Some r \<longrightarrow>
       (\<exists>!t. \<exists>jid. fmlookup (tasks p) t = Some (TaskWait i jid)) \<and>
       (\<exists>t. fmlookup (tasks p) t = Some (TaskWait i (run_job r))))"
proof -
  note start = node_main_started [OF assms(1)]
  have "paired (runs (ag_exec (agent p))) (waits (tasks p))"
    using waited_run [OF waited_started [OF start]] by (simp add: assms(2) waited_def)
  note pair = paired_iff [OF this] paired_once [OF this]
  have waits_iff: "waits (tasks p) t = Some (i, jid) \<longleftrightarrow> fmlookup (tasks p) t = Some (TaskWait i jid)" for t i jid
    by (auto simp: waits_def split: option.splits task.splits)
  have "(\<exists>!t. \<exists>jid. fmlookup (tasks p) t = Some (TaskWait i jid)) \<and> (\<exists>t. fmlookup (tasks p) t = Some (TaskWait i (run_job r)))"
    if "fmlookup (active (ag_exec (agent p))) i = Some r" for i r
  proof -
    have "runs (ag_exec (agent p)) i = Some (run_job r)" using that by (simp add: runs_def)
    then obtain t where "fmlookup (tasks p) t = Some (TaskWait i (run_job r))" using pair(1) waits_iff by metis
    then show ?thesis using pair(2) waits_iff by metis
  qed
  with proc_run_exec [OF start, of asDur notFound es] show ?thesis unfolding assms(2) by blast
qed

theorem agent_embeds_the_executor_witness:
  "\<exists>!t. \<exists>jid. fmlookup (tasks (proc_run (\<lambda>d. d) (\<lambda>_. False) mute_events mute_node)) t = Some (TaskWait 0 jid)"
proof -
  obtain r where "fmlookup (active (ag_exec (agent (proc_run (\<lambda>d. d) (\<lambda>_. False) mute_events mute_node)))) 0 = Some r"
    using waiting_jobD [OF mute_waiting] by metis
  with agent_embeds_the_executor [OF mute_node refl, of "\<lambda>d. d" "\<lambda>_. False" mute_events] show ?thesis by blast
qed

text \<open>C17.  The node program ends only when it is told to: a loop ends, and \<open>Run\<close> goes past its start, only after a
  signal; neither loop ever blocks on the error channel; and when \<open>Run\<close> returns, either the first
  registration or heartbeat failed and no work was ever accepted, or a signal came, both loops have
  ended, the context they share with the processes is done, and the program does not exit as a failure.\<close>

theorem agent_ends_only_when_told:
  assumes "node_main flag_id hostname cpus interval dialled w0 = Some p0" "p = proc_run asDur notFound es p0"
  shows "length (errCh p) + (if hb_at p = HbSent then 0 else 1) + (if wl_at p = WlSent then 0 else 1) \<le> 2 \<and>
    (Signal \<notin> set es \<longrightarrow> run_at p \<in> {RunRegister, RunHeartbeat, RunWait} \<or> (\<exists>e. run_at p = RunReturned (CallFailed e))) \<and>
    (Signal \<notin> set es \<longrightarrow> run_at p = RunWait \<longrightarrow> hb_at p \<in> {HbSelect, HbCall} \<and> wl_at p \<notin> {WlOff, WlSent, WlReturn CtxCanceled}) \<and>
    (\<forall>err. run_at p = RunReturned err \<longrightarrow>
       (\<exists>e. err = CallFailed e) \<and> hb_at p = HbOff \<and> wl_at p = WlOff \<and> tasks p = fmempty \<or>
       err = CtxCanceled \<and> Signal \<in> set es \<and> hb_at p = HbSent \<and> wl_at p = WlSent \<and> errCh p = [] \<and> ctx_done p \<and>
         \<not> fatal_exit isCanceled err)"
proof -
  note start = node_main_started [OF assms(1)]
  have sig: "Signal \<notin> set es \<Longrightarrow> \<not> ctx_done p" using ctx_signalled [OF start] unfolding assms(2) by blast
  have "life p" unfolding assms(2) by (rule life_run [OF life_started [OF start]])
  then show ?thesis
  proof (rule life_cases)
    assume r: "run_at p \<in> {RunWait, RunCancel CtxCanceled, RunStop CtxCanceled, RunDrain CtxCanceled, RunReturned CtxCanceled}"
      and l: "looping p"
    have "run_at p = RunWait" if "\<not> ctx_done p" using that r l by (auto simp: looping_def)
    moreover have "hb_at p \<in> {HbSelect, HbCall} \<and> wl_at p \<notin> {WlOff, WlSent, WlReturn CtxCanceled}" if "\<not> ctx_done p"
      using that l by (cases "hb_at p") (auto simp: looping_def sends_def split: if_splits)
    moreover have "length (errCh p) + (if hb_at p = HbSent then 0 else 1) + (if wl_at p = WlSent then 0 else 1) \<le> 2"
      using l by (auto simp: looping_def sends_def split: if_splits)
    moreover have "err = CtxCanceled \<and> hb_at p = HbSent \<and> wl_at p = WlSent \<and> errCh p = [] \<and> ctx_done p" if "run_at p = RunReturned err" for err
      using that r l by (auto simp: looping_def sends_def split: if_splits)
    ultimately show ?thesis using sig by (auto simp: fatal_exit_def)
  qed (auto simp: off_def)
qed

theorem agent_ends_only_when_told_witness:
  "hb_at (proc_run (\<lambda>d. d) (\<lambda>_. False) mute_events mute_node) \<in> {HbSelect, HbCall}"
proof -
  have "run_at (proc_run (\<lambda>d. d) (\<lambda>_. False) mute_events mute_node) = RunWait"
    using waiting_jobD [OF mute_waiting] by metis
  moreover have "Signal \<notin> set mute_events" by (simp add: mute_events_def)
  ultimately show ?thesis
    using agent_ends_only_when_told [OF mute_node refl, of "\<lambda>d. d" "\<lambda>_. False" mute_events "\<lambda>_. False"] by blast
qed

text \<open>C27.  A signal ends the node program, whenever it comes and whatever the controller answers: as long as \<open>Run\<close> and
  both loops keep being scheduled, and neither the heartbeat loop's \<open>select\<close> takes its ticker nor the stream delivers a
  message every time for ever once the context is done, \<open>Run\<close> returns.  Heartbeats and messages may still
  come after the signal, in any number.  If the loops had begun, \<open>Run\<close> returns the error of the context, with which the
  program does not exit as a failure.\<close>

theorem signal_ends_the_agent:
  assumes "node_main flag_id hostname cpus interval dialled w0 = Some p0" "p = proc_at asDur notFound es p0" "es T = Signal"
    and "fair_select p es" "fair_stream p es"
    and "\<forall>t. \<exists>u \<ge> t. \<exists>cl. es u = RunTurn cl" "\<forall>t. \<exists>u \<ge> t. \<exists>b cl. es u = HbTurn b cl" "\<forall>t. \<exists>u \<ge> t. \<exists>i cl. es u = WlTurn i cl"
  shows "\<exists>u > T. \<exists>err. run_at (p u) = RunReturned err \<and>
    (hb_at (p T) \<noteq> HbOff \<longrightarrow> err = CtxCanceled \<and> \<not> fatal_exit isCanceled err)"
proof -
  have life: "life (p t)" for t
    unfolding assms(2) by (induction t) (simp_all add: life_started [OF node_main_started [OF assms(1)]] life_step)
  have ctx: "ctx_done (p t)" if "Suc T \<le> t" for t
    using that
  proof (induction t rule: dec_induct)
    case base
    show ?case using assms(3) by (simp add: assms(2) ctx_done_def parent_cancel_def)
  qed (simp add: assms(2) ctx_stays)
  obtain u where u: "Suc T \<le> u" "start_rank (run_at (p u)) = 0"
    using start_ends [OF assms(6), of "Suc T" asDur notFound p0] unfolding assms(2) by blast
  from life [of u] show ?thesis
  proof (rule life_cases)
    fix err assume r: "run_at (p u) = RunReturned (CallFailed err)" "off (p u)"
    then have "hb_at (p T) = HbOff" using begun_at [of asDur notFound es p0 T u] u(1) by (auto simp: off_def assms(2))
    with r(1) u(1) show ?thesis by (intro exI [of _ u]) auto
  next
    assume "run_at (p u) \<in> {RunWait, RunCancel CtxCanceled, RunStop CtxCanceled, RunDrain CtxCanceled, RunReturned CtxCanceled}" "looping (p u)"
    with ctx [OF u(1)] have "ending (p u)" by (simp add: ending_def)
    from ending_returns [OF this [unfolded assms(2)] assms(4,5) [unfolded assms(2)] assms(6-8)]
    obtain v where "u \<le> v" "run_at (p v) = RunReturned CtxCanceled" unfolding assms(2) by blast
    with u(1) show ?thesis by (intro exI [of _ v]) (auto simp: fatal_exit_def)
  qed (use u(2) in simp_all)
qed

text \<open>After the signal the ticker still fires and the stream still delivers, until both have had enough.\<close>

definition fair_turns :: "nat \<Rightarrow> (nat, unit, int) proc_event" where
  "fair_turns t = (if t = 8 then Signal else if t mod 3 = 0 then RunTurn mute_client
     else if t mod 3 = 1 then HbTurn (t < 30) mute_client else WlTurn (if t < 30 then work_input else quiet_input) mute_client)"

lemma fair_turns_fair:
  "\<forall>t. \<exists>u \<ge> t. \<exists>cl. fair_turns u = RunTurn cl" "\<forall>t. \<exists>u \<ge> t. \<exists>b cl. fair_turns u = HbTurn b cl"
  "\<forall>t. \<exists>u \<ge> t. \<exists>i cl. fair_turns u = WlTurn i cl"
proof -
  have "fair_turns (3 * (t + 3)) = RunTurn mute_client" "\<exists>b. fair_turns (3 * (t + 3) + 1) = HbTurn b mute_client"
    "\<exists>i. fair_turns (3 * (t + 3) + 2) = WlTurn i mute_client" for t
  proof -
    have "3 * (t + 3) \<noteq> 8" "3 * (t + 3) + 1 \<noteq> 8" "3 * (t + 3) + 2 \<noteq> 8" by presburger+
    moreover have "3 * (t + 3) mod 3 = 0" "(3 * (t + 3) + 1) mod 3 = 1" "(3 * (t + 3) + 2) mod 3 = 2" by presburger+
    ultimately show "fair_turns (3 * (t + 3)) = RunTurn mute_client" "\<exists>b. fair_turns (3 * (t + 3) + 1) = HbTurn b mute_client"
      "\<exists>i. fair_turns (3 * (t + 3) + 2) = WlTurn i mute_client" unfolding fair_turns_def by simp_all
  qed
  moreover have "t \<le> 3 * (t + 3)" "t \<le> 3 * (t + 3) + 1" "t \<le> 3 * (t + 3) + 2" for t :: nat by simp_all
  ultimately show "\<forall>t. \<exists>u \<ge> t. \<exists>cl. fair_turns u = RunTurn cl" "\<forall>t. \<exists>u \<ge> t. \<exists>b cl. fair_turns u = HbTurn b cl"
    "\<forall>t. \<exists>u \<ge> t. \<exists>i cl. fair_turns u = WlTurn i cl" by metis+
qed

lemma fair_turns_choices: "fair_select p fair_turns" "fair_stream p fair_turns"
proof -
  have late: "b = False" if "fair_turns u = HbTurn b cl" "30 \<le> u" for u b cl
    using that by (auto simp: fair_turns_def split: if_splits)
  have quiet: "wl_recv i = None" if "fair_turns u = WlTurn i cl" "30 \<le> u" for u i cl
    using that by (auto simp: fair_turns_def quiet_input_def split: if_splits)
  show "fair_select p fair_turns"
    unfolding fair_select_def strongly_fair_def
  proof (intro impI allI)
    fix t assume "\<forall>t. \<exists>u \<ge> t. ctx_done (p u) \<and> hb_at (p u) = HbSelect \<and> (\<exists>b cl. fair_turns u = HbTurn b cl)"
    then obtain u b cl where "max 30 t \<le> u" "hb_at (p u) = HbSelect" "fair_turns u = HbTurn b cl" by blast
    with late show "\<exists>u \<ge> t. hb_at (p u) = HbSelect \<and> (\<exists>cl. fair_turns u = HbTurn False cl)" by (intro exI [of _ u]) auto
  qed
  show "fair_stream p fair_turns"
    unfolding fair_stream_def strongly_fair_def
  proof (intro impI allI)
    fix t assume "\<forall>t. \<exists>u \<ge> t. ctx_done (p u) \<and> wl_at (p u) = WlRecv \<and> (\<exists>i cl. fair_turns u = WlTurn i cl)"
    then obtain u i cl where "max 30 t \<le> u" "wl_at (p u) = WlRecv" "fair_turns u = WlTurn i cl" by blast
    with quiet show "\<exists>u \<ge> t. wl_at (p u) = WlRecv \<and> (\<exists>i cl. fair_turns u = WlTurn i cl \<and> wl_recv i = None)" by (intro exI [of _ u]) auto
  qed
qed

text \<open>Both loops have begun at the signal, and go on after it: a heartbeat and a message come between.\<close>

definition loops_at :: "('w, 'e, 'dur) Proc \<Rightarrow> bool" where
  "loops_at p \<longleftrightarrow> (case (hb_at p, wl_at p) of (HbSelect, WlRecv) \<Rightarrow> True | (HbCall, WlRecv) \<Rightarrow> True | _ \<Rightarrow> False)"

lemma fair_turns_begun:
  "loops_at (proc_at (\<lambda>d. d) (\<lambda>_. False) fair_turns mute_node 8)" "loops_at (proc_at (\<lambda>d. d) (\<lambda>_. False) fair_turns mute_node 18)"
  by code_simp+

theorem signal_ends_the_agent_witness:
  "loops_at (proc_at (\<lambda>d. d) (\<lambda>_. False) fair_turns mute_node 18) \<and>
   (\<exists>u > 8. run_at (proc_at (\<lambda>d. d) (\<lambda>_. False) fair_turns mute_node u) = RunReturned CtxCanceled)"
proof -
  have "hb_at (proc_at (\<lambda>d. d) (\<lambda>_. False) fair_turns mute_node 8) \<noteq> HbOff"
    using fair_turns_begun(1) by (auto simp: loops_at_def)
  moreover have "fair_turns 8 = Signal" by (simp add: fair_turns_def)
  ultimately show ?thesis
    using signal_ends_the_agent [OF mute_node refl _ fair_turns_choices fair_turns_fair, of 8] fair_turns_begun(2) by blast
qed

section \<open>Work that is left behind\<close>

lemma stop_keeps:
  "fmlookup (active s) k = Some r \<Longrightarrow>
   \<exists>r'. fmlookup (active (snd (node_stop jid s))) k = Some r' \<and> run_phase r' = run_phase r \<and> run_job r' = run_job r"
  by (auto simp: node_stop_def cancel_ctx_def end_ctx_def split: prod.split option.split)

text \<open>A shutdown does not wait for the work: \<open>Run\<close> cancels the context and returns as soon as its two loops
  have ended.  If a process was running when the signal came, the program can be over while the process
  has not been killed (it has a process group of its own, so it lives on) and before anything about it was
  reported, so the controller only learns of it when it gives the node up.\<close>

theorem shutdown_leaves_the_process:
  fixes p :: "('w, 'e, 'dur) Proc"
  assumes "run_at p = RunWait" "hb_at p = HbSelect" "wl_at p = WlRecv" "errCh p = []" "wl_recv i = None"
    and "fmlookup (active (ag_exec (agent p))) k = Some r" "run_phase r = Waiting"
    and "p' = proc_run asDur notFound ([Signal, HbTurn False cl, HbTurn False cl, WlTurn i cl, WlTurn i cl, WlTurn i cl] @
      replicate 4 (RunTurn cl)) p"
  shows "run_at p' = RunReturned CtxCanceled \<and> \<not> fatal_exit isCanceled (CtxCanceled :: 'e run_error) \<and> net p' = net p \<and> tasks p' = tasks p \<and>
    (\<exists>r'. fmlookup (active (ag_exec (agent p'))) k = Some r' \<and> run_phase r' = Waiting \<and> run_job r' = run_job r)"
proof -
  let ?p1 = "(set_exec parent_cancel p)\<lparr>hb_at := HbSent, wl_at := WlSent, errCh := [CtxCanceled, CtxCanceled]\<rparr>"
  have loops: "proc_run asDur notFound [Signal, HbTurn False cl, HbTurn False cl, WlTurn i cl, WlTurn i cl, WlTurn i cl] p = ?p1"
    using assms(1-5) by (simp add: hb_step_def wl_step_def ctx_done_def parent_cancel_def watch_ended_def set_exec_def)
  let ?e = "snd (node_stop [] (parent_cancel (parent_cancel (ag_exec (agent p)))))"
  have p': "p' = (set_exec (\<lambda>_. ?e) p)\<lparr>hb_at := HbSent, wl_at := WlSent, errCh := [], run_at := RunReturned CtxCanceled\<rparr>"
    unfolding assms(8) fold_append o_apply loops using assms(1) by (simp add: run_step_def set_exec_def numeral_eq_Suc)
  obtain r1 where "fmlookup (active (parent_cancel (parent_cancel (ag_exec (agent p))))) k = Some r1" "run_phase r1 = Waiting" "run_job r1 = run_job r"
    using assms(6,7) by (simp add: parent_cancel_def end_ctx_def)
  from stop_keeps [OF this(1), of "[]"] this(2,3) show ?thesis by (simp add: p' fatal_exit_def)
qed

theorem shutdown_leaves_the_process_witness:
  "\<exists>es p'. p' = proc_run (\<lambda>d. d) (\<lambda>_. False) es mute_node \<and> run_at p' = RunReturned CtxCanceled \<and>
     (\<exists>r'. fmlookup (active (ag_exec (agent p'))) 0 = Some r' \<and> run_phase r' = Waiting \<and> run_job r' = ''job-1'')"
proof -
  let ?p = "proc_run (\<lambda>d. d) (\<lambda>_. False) mute_events mute_node"
  let ?es = "[Signal, HbTurn False mute_client, HbTurn False mute_client, WlTurn quiet_input mute_client, WlTurn quiet_input mute_client,
    WlTurn quiet_input mute_client] @ replicate 4 (RunTurn mute_client)"
  obtain r where r: "run_at ?p = RunWait" "hb_at ?p = HbSelect" "wl_at ?p = WlRecv" "errCh ?p = []"
      "fmlookup (active (ag_exec (agent ?p))) 0 = Some r" "run_phase r = Waiting" "run_job r = ''job-1''"
    using waiting_jobD [OF mute_waiting] by metis
  have "wl_recv quiet_input = None" by (simp add: quiet_input_def)
  note left = shutdown_leaves_the_process [OF r(1-4) this r(5,6) refl, of "\<lambda>d. d" "\<lambda>_. False" mute_client "\<lambda>_. True", unfolded r(7)]
  moreover have "proc_run (\<lambda>d. d) (\<lambda>_. False) ?es ?p = proc_run (\<lambda>d. d) (\<lambda>_. False) (mute_events @ ?es) mute_node"
    by (simp only: fold_append o_apply)
  ultimately show ?thesis by metis
qed

end
