(* ===== verification/Causes.thy ===== *)
theory Causes
  imports Races Submissions AgentRun
begin

text \<open>
  Why a job changes.  Of all the steps that the threads of \<open>Threads\<close> make, only six kinds change what the
  job manager stores under a name, and each of them can be pointed at: a submission, the scheduler, a
  cancellation, a report of a node of the gang (the first failure, or the last success), and the monitor.  So a
  running job of which nothing is heard any more stays running; the last section shows how one call that is
  lost between a node and the controller (\<open>report\<close> of \<open>src/internal/node/agent.go\<close>) brings that about.
\<close>

section \<open>The causes of a change\<close>

definition report_fails :: "pb_ReportJobStatusRequest option \<Rightarrow> bool" where
  "report_fails req \<longleftrightarrow> ReportJobStatusRequest_GetEvent req = JOB_EVENT_FAILED \<or> ReportJobStatusRequest_GetEvent req = JOB_EVENT_CANCELLED"

text \<open>The reports of a job with that of \<open>req\<close> added to them.\<close>

definition with_report :: "JobManager \<Rightarrow> pb_ReportJobStatusRequest option \<Rightarrow> (string, nodeReport) fmap" where
  "with_report m req = fmupd (ReportJobStatusRequest_GetNodeId req)
     \<lparr>nr_failed = report_fails req, nr_exitCode = sint (ReportJobStatusRequest_GetExitCode req),
      nr_errMsg = ReportJobStatusRequest_GetErrorMessage req\<rparr> (reports_of m (ReportJobStatusRequest_GetJobId req))"

inductive changes :: "'dur event \<Rightarrow> ('dur, 'ts) World \<Rightarrow> string \<Rightarrow> Job option \<Rightarrow> Job option \<Rightarrow> bool" where
  submitted: "fmlookup (calls w) k = Some (SubmitStore jid spec) \<Longrightarrow> New_Job (in_now i) jid spec = Inr j \<Longrightarrow>
    changes (CallStep k i) w jid None (Some j)"
| started: "sched_at w = SchedMark p ids \<Longrightarrow> job_ID p = jid \<Longrightarrow> job_Status j = StatusPending \<Longrightarrow>
    changes (SchedStep wk now) w jid (Some j) (Some (j\<lparr>job_Status := StatusRunning, AssignedNodeIDs := ids, StartedAt := now\<rparr>))"
| cancelled: "fmlookup (calls w) k = Some (CancelCancel jid p) \<Longrightarrow> job_Status j \<in> {StatusPending, StatusRunning} \<Longrightarrow>
    changes (CallStep k i) w jid (Some j) (Some (j\<lparr>job_Status := StatusCancelled, FinishedAt := in_now i\<rparr>))"
| failed: "fmlookup (calls w) k = Some (ReportEvent req p) \<Longrightarrow> ReportJobStatusRequest_GetJobId req = jid \<Longrightarrow> report_fails req \<Longrightarrow>
    job_Status j = StatusRunning \<Longrightarrow> ReportJobStatusRequest_GetNodeId req \<in> set (AssignedNodeIDs j) \<Longrightarrow>
    changes (CallStep k i) w jid (Some j) (Some (j\<lparr>job_Status := StatusFailed, FinishedAt := in_now i,
      ExitCode := sint (ReportJobStatusRequest_GetExitCode req), ErrorMessage := ReportJobStatusRequest_GetErrorMessage req\<rparr>))"
| finished: "fmlookup (calls w) k = Some (ReportEvent req p) \<Longrightarrow> ReportJobStatusRequest_GetJobId req = jid \<Longrightarrow> \<not> report_fails req \<Longrightarrow>
    job_Status j = StatusRunning \<Longrightarrow> rs = with_report (srv_jobs (server w)) req \<Longrightarrow> fmdom' rs = set (AssignedNodeIDs j) \<Longrightarrow>
    changes (CallStep k i) w jid (Some j) (Some (j\<lparr>job_Status := StatusCompleted, FinishedAt := in_now i, ExitCode := max_exit (go_keys rs) rs\<rparr>))"
| lost: "mon_at w = MonDead seen (n # dead) \<Longrightarrow> CurrentJobID n = jid \<Longrightarrow> job_Status j = StatusRunning \<Longrightarrow>
    changes (MonStep c ks now) w jid (Some j) (Some (j\<lparr>job_Status := StatusFailed, FinishedAt := now,
      ExitCode := 1, ErrorMessage := ''node '' @ node_ID n @ '' lost''\<rparr>))"

inductive_cases changes_endE: "changes e w jid (Some j) (Some j')"

section \<open>The calls of the job manager\<close>

lemma Submit_changes:
  assumes "Submit (Some j) m = (res, m')" "fmlookup (jobs m') jid \<noteq> fmlookup (jobs m) jid"
  shows "job_ID j = jid \<and> fmlookup (jobs m) jid = None \<and> fmlookup (jobs m') jid = Some j"
  using assms by (auto simp: Submit_def split: if_splits)

lemma Cancel_changes:
  assumes "JM_Cancel now k m = (res, m')" "fmlookup (jobs m') jid \<noteq> fmlookup (jobs m) jid"
  shows "k = jid \<and> (\<exists>j. fmlookup (jobs m) jid = Some j \<and> job_Status j \<in> {StatusPending, StatusRunning} \<and>
    fmlookup (jobs m') jid = Some (j\<lparr>job_Status := StatusCancelled, FinishedAt := now\<rparr>))"
  using assms by (auto simp: JM_Cancel_eq Let_def split: option.splits if_splits)

lemma MarkRunning_changes:
  assumes "JM_MarkRunning now k ids m = (res, m')" "fmlookup (jobs m') jid \<noteq> fmlookup (jobs m) jid"
  shows "k = jid \<and> (\<exists>j. fmlookup (jobs m) jid = Some j \<and> job_Status j = StatusPending \<and>
    fmlookup (jobs m') jid = Some (j\<lparr>job_Status := StatusRunning, AssignedNodeIDs := ids, StartedAt := now\<rparr>))"
  using assms by (auto simp: JM_MarkRunning_def Let_def dest!: Job_MarkRunning_InrD split: option.splits sum.splits if_splits)

lemma FailRunning_changes:
  assumes "FailRunningJob now k reason m = (res, m')" "fmlookup (jobs m') jid \<noteq> fmlookup (jobs m) jid"
  shows "k = jid \<and> (\<exists>j. fmlookup (jobs m) jid = Some j \<and> job_Status j = StatusRunning \<and>
    fmlookup (jobs m') jid = Some (j\<lparr>job_Status := StatusFailed, FinishedAt := now, ExitCode := 1, ErrorMessage := reason\<rparr>))"
  using assms by (auto simp: FailRunningJob_eq split: option.splits if_splits)

text \<open>A report map with as many entries as the gang has nodes has one from each.\<close>

lemma full_reports:
  assumes "fmdom' rs \<subseteq> set ids" "length ids \<le> go_len rs"
  shows "fmdom' rs = set ids"
proof (rule card_seteq [OF _ assms(1)])
  have "go_len rs = card (fmdom' rs)" by (simp add: go_len_def fmdom'_alt_def fcard.rep_eq)
  with assms(2) card_length [of ids] show "card (set ids) \<le> card (fmdom' rs)" by simp
qed simp

lemma Report_changes:
  assumes inv: "jm_inv m" and rep: "ReportNodeEvent now (ReportJobStatusRequest_GetJobId req) (ReportJobStatusRequest_GetNodeId req)
      (report_fails req) (sint (ReportJobStatusRequest_GetExitCode req)) (ReportJobStatusRequest_GetErrorMessage req) m = (res, m')"
    and diff: "fmlookup (jobs m') jid \<noteq> fmlookup (jobs m) jid"
  shows "ReportJobStatusRequest_GetJobId req = jid \<and> (\<exists>j. fmlookup (jobs m) jid = Some j \<and> job_Status j = StatusRunning \<and>
    ReportJobStatusRequest_GetNodeId req \<in> set (AssignedNodeIDs j) \<and>
    (if report_fails req
     then fmlookup (jobs m') jid = Some (j\<lparr>job_Status := StatusFailed, FinishedAt := now,
       ExitCode := sint (ReportJobStatusRequest_GetExitCode req), ErrorMessage := ReportJobStatusRequest_GetErrorMessage req\<rparr>)
     else fmdom' (with_report m req) = set (AssignedNodeIDs j) \<and> fmlookup (jobs m') jid =
       Some (j\<lparr>job_Status := StatusCompleted, FinishedAt := now, ExitCode := max_exit (go_keys (with_report m req)) (with_report m req)\<rparr>)))"
proof (cases "fmlookup (jobs m) (ReportJobStatusRequest_GetJobId req)")
  case None
  with rep diff show ?thesis by (auto simp: ReportNodeEvent_eq)
next
  case (Some j)
  let ?n = "ReportJobStatusRequest_GetNodeId req"
  have doms: "?n \<in> set (AssignedNodeIDs j) \<Longrightarrow> fmdom' (with_report m req) \<subseteq> set (AssignedNodeIDs j)"
    using reports_ok_of [OF inv Some] by (auto simp: with_report_def reports_ok_def)
  show ?thesis
    using rep diff Some doms full_reports [of "with_report m req" "AssignedNodeIDs j"]
    by (auto simp: ReportNodeEvent_eq Let_def with_report_def not_less simp del: go_len_fmupd fmdom'_fmupd split: if_splits)
qed

section \<open>Every change has a cause\<close>

lemma call_changes:
  assumes "jm_inv (srv_jobs s)" "call_step asDur dNew tsNew i p s = (p', s')"
    and "fmlookup (jobs (srv_jobs s')) jid \<noteq> fmlookup (jobs (srv_jobs s)) jid"
    and "fmlookup (calls w) k = Some p" "server w = s"
  shows "changes (CallStep k i) w jid (fmlookup (jobs (srv_jobs s)) jid) (fmlookup (jobs (srv_jobs s')) jid)"
proof (cases p)
  case (Entered req)
  with assms enter_names [of asDur dNew tsNew i req s p' s'] show ?thesis by simp
next
  case (SubmitStore name spec)
  with assms obtain j res m where j: "New_Job (in_now i) name spec = Inr j" "Submit (Some j) (srv_jobs s) = (res, m)" "srv_jobs s' = m"
    by (auto split: sum.splits prod.splits option.splits)
  moreover have "job_ID j = name" using New_Job_Inr [OF j(1)] by simp
  ultimately show ?thesis
    using Submit_changes [OF j(2), of jid] assms(3,4) SubmitStore by (auto intro: changes.submitted)
next
  case (CancelCancel name q)
  then obtain res m where m: "JM_Cancel (in_now i) name (srv_jobs s) = (res, m)" "srv_jobs s' = m"
    using assms(2) by (auto split: prod.splits sum.splits)
  with Cancel_changes [OF m(1), of jid] assms(3,4) CancelCancel show ?thesis by (auto intro: changes.cancelled)
next
  case (ReportEvent req q)
  then obtain res m where m: "ReportNodeEvent (in_now i) (ReportJobStatusRequest_GetJobId req) (ReportJobStatusRequest_GetNodeId req)
      (report_fails req) (sint (ReportJobStatusRequest_GetExitCode req)) (ReportJobStatusRequest_GetErrorMessage req) (srv_jobs s) = (res, m)"
      "srv_jobs s' = m"
    using assms(2) by (auto simp: Let_def report_fails_def split: prod.splits option.splits)
  from Report_changes [OF assms(1) m(1), of jid] m(2) assms(3) obtain j where
      j: "ReportJobStatusRequest_GetJobId req = jid" "fmlookup (jobs (srv_jobs s)) jid = Some j" "job_Status j = StatusRunning"
      "ReportJobStatusRequest_GetNodeId req \<in> set (AssignedNodeIDs j)" and
      out: "if report_fails req
        then fmlookup (jobs (srv_jobs s')) jid = Some (j\<lparr>job_Status := StatusFailed, FinishedAt := in_now i,
          ExitCode := sint (ReportJobStatusRequest_GetExitCode req), ErrorMessage := ReportJobStatusRequest_GetErrorMessage req\<rparr>)
        else fmdom' (with_report (srv_jobs s) req) = set (AssignedNodeIDs j) \<and> fmlookup (jobs (srv_jobs s')) jid =
          Some (j\<lparr>job_Status := StatusCompleted, FinishedAt := in_now i,
            ExitCode := max_exit (go_keys (with_report (srv_jobs s) req)) (with_report (srv_jobs s) req)\<rparr>)"
    by blast
  note at = assms(4) [unfolded ReportEvent]
  from out changes.failed [OF at j(1) _ j(3,4)] changes.finished [OF at j(1) _ j(3)] j(2) assms(5) show ?thesis
    by (cases "report_fails req") auto
qed (use assms(2,3) in \<open>auto simp: Let_def split: sum.splits option.splits prod.splits list.splits watch_case.splits recv.splits if_splits\<close>)

lemma sched_changes:
  assumes "sched_ok (srv_jobs s) p" "sched_step dNew wk now p s = (p', s')"
    and "fmlookup (jobs (srv_jobs s')) jid \<noteq> fmlookup (jobs (srv_jobs s)) jid" "sched_at w = p"
  shows "changes (SchedStep wk now) w jid (fmlookup (jobs (srv_jobs s)) jid) (fmlookup (jobs (srv_jobs s')) jid)"
proof (cases p)
  case (SchedMark q ids)
  then obtain res m where m: "JM_MarkRunning now (job_ID q) ids (srv_jobs s) = (res, m)" "srv_jobs s' = m"
    using assms(2) by (auto split: prod.splits option.splits)
  with MarkRunning_changes [OF m(1), of jid] assms(3,4) SchedMark show ?thesis by (auto intro: changes.started)
next
  case (SchedDispatch q ids rank rest cs)
  with assms(2,3) show ?thesis by (cases cs; cases rest) (auto split: if_splits)
qed (use assms(1-3) in \<open>auto simp: set_comps_def wake_up_def split: option.splits prod.splits wake.splits if_splits\<close>)

lemma mon_changes:
  assumes "mon_step c ks now p s = (p', s')" "fmlookup (jobs (srv_jobs s')) jid \<noteq> fmlookup (jobs (srv_jobs s)) jid" "mon_at w = p"
  shows "changes (MonStep c ks now) w jid (fmlookup (jobs (srv_jobs s)) jid) (fmlookup (jobs (srv_jobs s')) jid)"
proof (cases p)
  case (MonDead seen dead)
  show ?thesis
  proof (cases dead)
    case (Cons n rest)
    let ?fail = "FailRunningJob now (CurrentJobID n) (''node '' @ node_ID n @ '' lost'') (srv_jobs s)"
    obtain res m where m: "?fail = (res, m)" by fastforce
    with assms(1,2) MonDead Cons have "srv_jobs s' = m"
      by (cases res) (auto simp: Let_def split: if_splits)
    with FailRunning_changes [OF m, of jid] assms(2) obtain j where
        "CurrentJobID n = jid" "fmlookup (jobs (srv_jobs s)) jid = Some j" "job_Status j = StatusRunning"
        "fmlookup (jobs (srv_jobs s')) jid = Some (j\<lparr>job_Status := StatusFailed, FinishedAt := now, ExitCode := 1,
           ErrorMessage := ''node '' @ node_ID n @ '' lost''\<rparr>)"
      by blast
    with changes.lost [of w seen n rest jid j c ks now] assms(3) MonDead Cons show ?thesis by simp
  qed (use assms(1,2) MonDead in simp)
next
  case (MonNotify n ids cpus cs seen dead)
  with assms(1,2) show ?thesis by (cases cs) auto
qed (use assms(1,2) in \<open>auto split: option.splits prod.splits list.splits mon_case.splits\<close>)

lemma step_changes:
  assumes "world_ok w" "w' = world_step asDur dNew tsNew e w"
    and "fmlookup (jobs (srv_jobs (server w'))) jid \<noteq> fmlookup (jobs (srv_jobs (server w))) jid"
  shows "changes e w jid (fmlookup (jobs (srv_jobs (server w))) jid) (fmlookup (jobs (srv_jobs (server w'))) jid)"
proof -
  have ok: "jm_inv (srv_jobs (server w))" "sched_ok (srv_jobs (server w)) (sched_at w)"
    using assms(1) by (simp_all add: world_ok_def comps_ok_def)
  show ?thesis
  proof (cases e)
    case (Arrive k req)
    with assms(2,3) show ?thesis by (simp split: if_splits)
  next
    case (CallStep k i)
    with assms(2,3) call_changes [OF ok(1) prod.collapse [symmetric], of asDur dNew tsNew i] show ?thesis
      by (cases "fmlookup (calls w) k") (auto simp: split_beta)
  next
    case (SchedStep wk now)
    with assms(2,3) sched_changes [OF ok(2) prod.collapse [symmetric], of dNew wk now] show ?thesis by (auto simp: split_beta)
  next
    case (MonStep c ks now)
    with assms(2,3) mon_changes [OF prod.collapse [symmetric], of c ks now "mon_at w" "server w"] show ?thesis by (auto simp: split_beta)
  qed
qed

section \<open>Jobs of which nothing is heard\<close>

text \<open>
  A step decides about a job that waits for the report of node \<open>n\<close> when it can end it: a cancellation, the report
  of a failure, a report of \<open>n\<close>, or the loss of a node.  A success that another node reports does not.
\<close>

fun decides :: "string \<Rightarrow> string \<Rightarrow> 'dur event \<Rightarrow> ('dur, 'ts) World \<Rightarrow> bool" where
  "decides jid n (CallStep k i) w = (case fmlookup (calls w) k of
     Some (CancelCancel name j) \<Rightarrow> name = jid
   | Some (ReportEvent req j) \<Rightarrow> ReportJobStatusRequest_GetJobId req = jid \<and> (report_fails req \<or> ReportJobStatusRequest_GetNodeId req = n)
   | _ \<Rightarrow> False)"
| "decides jid n (MonStep c ks now) w = (case mon_at w of MonDead seen (x # dead) \<Rightarrow> CurrentJobID x = jid | _ \<Rightarrow> False)"
| "decides jid n _ w = False"

fun undecided ::
  "('dur \<Rightarrow> duration) \<Rightarrow> (duration \<Rightarrow> 'dur) \<Rightarrow> (instant \<Rightarrow> 'ts) \<Rightarrow> string \<Rightarrow> string \<Rightarrow> 'dur event list \<Rightarrow> ('dur, 'ts) World \<Rightarrow> bool" where
  "undecided asDur dNew tsNew jid n [] w = True"
| "undecided asDur dNew tsNew jid n (e # es) w =
     (\<not> decides jid n e w \<and> undecided asDur dNew tsNew jid n es (world_step asDur dNew tsNew e w))"

text \<open>Node \<open>n\<close> has not reported the job, and only its own report changes that.\<close>

definition unreported :: "string \<Rightarrow> string \<Rightarrow> JobManager \<Rightarrow> bool" where
  "unreported jid n m \<longleftrightarrow> fmlookup (reports_of m jid) n = None"

lemma unreported_ops:
  assumes "unreported jid n m"
  shows "unreported jid n (snd (Submit j m))" "unreported jid n (snd (JM_Cancel now k m))" "unreported jid n (snd (JM_MarkRunning now k ids m))"
    "unreported jid n (snd (JM_MarkFailed now k c msg m))" "unreported jid n (snd (FailRunningJob now k msg m))"
    "k \<noteq> jid \<or> n' \<noteq> n \<Longrightarrow> unreported jid n (snd (ReportNodeEvent now k n' failed c msg m))"
proof -
  show "unreported jid n (snd (Submit j m))" using assms by (auto simp: Submit_def unreported_def reports_of_def split: option.split)
  show "unreported jid n (snd (JM_Cancel now k m))"
    using assms by (auto simp: JM_Cancel_eq Let_def unreported_def reports_of_def split: option.split sum.split)
  show "unreported jid n (snd (JM_MarkRunning now k ids m))"
    using assms by (auto simp: JM_MarkRunning_def Let_def unreported_def reports_of_def split: option.split sum.split)
  show "unreported jid n (snd (JM_MarkFailed now k c msg m))"
    using assms by (auto simp: JM_MarkFailed_def Let_def unreported_def reports_of_def split: option.split sum.split)
  show "unreported jid n (snd (FailRunningJob now k msg m))"
    using assms by (auto simp: FailRunningJob_eq unreported_def reports_of_def split: option.split)
  show "unreported jid n (snd (ReportNodeEvent now k n' failed c msg m))" if "k \<noteq> jid \<or> n' \<noteq> n"
    using assms that by (auto simp: ReportNodeEvent_eq Let_def unreported_def reports_of_def split: option.split)
qed

lemma unreported_step:
  assumes "unreported jid n (srv_jobs (server w))" "\<not> decides jid n e w"
  shows "unreported jid n (srv_jobs (server (world_step asDur dNew tsNew e w)))"
proof (cases e)
  case (CallStep k i)
  show ?thesis
  proof (cases "fmlookup (calls w) k")
    case (Some p)
    obtain p' s' where c: "call_step asDur dNew tsNew i p (server w) = (p', s')" by fastforce
    have "unreported jid n (srv_jobs s')"
    proof (cases p)
      case (Entered req)
      with c enter_names [of asDur dNew tsNew i req "server w" p' s'] assms(1) show ?thesis by simp
    next
      case (SubmitStore name spec)
      with c assms(1) unreported_ops(1) [OF assms(1)] show ?thesis by (auto split: sum.splits prod.splits option.splits) (metis snd_conv)+
    next
      case (CancelCancel name q)
      with c unreported_ops(2) [OF assms(1), of "in_now i" name] show ?thesis by (auto split: prod.splits sum.splits)
    next
      case (ReportEvent req q)
      with assms(2) CallStep Some have "ReportJobStatusRequest_GetJobId req \<noteq> jid \<or> ReportJobStatusRequest_GetNodeId req \<noteq> n" by auto
      from unreported_ops(6) [OF assms(1) this, of "in_now i"] ReportEvent c show ?thesis
        by (auto simp: Let_def split: prod.splits option.splits) (metis snd_conv)+
    qed (use c assms(1) in \<open>auto simp: Let_def split: sum.splits option.splits prod.splits list.splits watch_case.splits recv.splits if_splits\<close>)
    with CallStep Some c show ?thesis by simp
  qed (use CallStep assms(1) in simp)
next
  case (SchedStep wk now)
  have "unreported jid n (srv_jobs (snd (sched_step dNew wk now (sched_at w) (server w))))"
    using assms(1) unreported_ops(3,4) [OF assms(1)]
    by (cases "(dNew, wk, now, sched_at w, server w)" rule: sched_step.cases)
      (auto simp: set_comps_def wake_up_def split: option.split prod.split wake.split, (metis snd_conv)+)
  with SchedStep show ?thesis by (simp add: split_beta)
next
  case (MonStep c ks now)
  have "unreported jid n (srv_jobs (snd (mon_step c ks now (mon_at w) (server w))))"
    using assms(1) unreported_ops(5) [OF assms(1)]
    by (cases "(c, ks, now, mon_at w, server w)" rule: mon_step.cases)
      (auto simp: Let_def split: option.split prod.split mon_case.split list.split, (metis snd_conv)+)
  with MonStep show ?thesis by (simp add: split_beta)
qed (use assms(1) in simp)

lemma changes_decides:
  assumes "changes e w jid (Some j) x" "job_Status j = StatusRunning" "n \<in> set (AssignedNodeIDs j)" "unreported jid n (srv_jobs (server w))"
  shows "decides jid n e w"
  using assms
proof cases
  case (finished k req p rs i)
  have "n \<in> fmdom' rs" using finished assms(3) by simp
  then have "ReportJobStatusRequest_GetNodeId req = n"
    using assms(4) finished by (auto simp: with_report_def unreported_def fmlookup_dom'_iff split: if_splits)
  with finished show ?thesis by simp
qed (use assms(2) in auto)

lemma undecided_stays:
  assumes "world_ok w" "fmlookup (jobs (srv_jobs (server w))) jid = Some j" "job_Status j = StatusRunning"
    and "n \<in> set (AssignedNodeIDs j)" "unreported jid n (srv_jobs (server w))" "undecided asDur dNew tsNew jid n es w"
  shows "fmlookup (jobs (srv_jobs (server (world_run asDur dNew tsNew es w)))) jid = Some j"
  using assms
proof (induction es arbitrary: w)
  case (Cons e es)
  let ?w' = "world_step asDur dNew tsNew e w"
  have "fmlookup (jobs (srv_jobs (server ?w'))) jid = Some j"
  proof (rule ccontr)
    assume "fmlookup (jobs (srv_jobs (server ?w'))) jid \<noteq> Some j"
    with step_changes [OF Cons.prems(1) refl, of asDur dNew tsNew e jid] Cons.prems(2)
    have "changes e w jid (Some j) (fmlookup (jobs (srv_jobs (server ?w'))) jid)" by simp
    from changes_decides [OF this Cons.prems(3-5)] Cons.prems(6) show False by simp
  qed
  moreover have "unreported jid n (srv_jobs (server ?w'))" using unreported_step [OF Cons.prems(5)] Cons.prems(6) by simp
  ultimately show ?case using Cons.IH [OF world_ok_step [OF Cons.prems(1)] _ Cons.prems(3,4)] Cons.prems(6) by simp
qed simp

lemma undisturbed_append:
  "undisturbed asDur dNew tsNew (fs @ es) w \<longleftrightarrow>
   undisturbed asDur dNew tsNew fs w \<and> undisturbed asDur dNew tsNew es (world_run asDur dNew tsNew fs w)"
  by (induction fs arbitrary: w) simp_all

section \<open>Properties\<close>

text \<open>C7.  Every change of a job has a cause, however the threads interleave: what is stored under a name changes in
  a step only if the step submits a new job there; or the scheduler starts the pending job on the gang it has
  reserved; or a cancellation ends it; or the report of a node of its gang fails it, or completes it as the
  last one, with the greatest exit code; or the monitor fails it for a lost node.  The new job is exactly
  what the cause says.\<close>

theorem every_change_has_a_cause:
  assumes "w = world_run asDur dNew tsNew es (world_main timeout)" "w' = world_step asDur dNew tsNew e w"
    and "fmlookup (jobs (srv_jobs (server w'))) jid \<noteq> fmlookup (jobs (srv_jobs (server w))) jid"
  shows "changes e w jid (fmlookup (jobs (srv_jobs (server w))) jid) (fmlookup (jobs (srv_jobs (server w'))) jid)"
proof (rule step_changes [OF _ assms(2,3)])
  show "world_ok w" unfolding assms(1) by (rule world.inv_run)
qed

definition before_cancel :: "(int, int) World" where
  "before_cancel = world_run (\<lambda>d. d) (\<lambda>d. d) (\<lambda>t. t) (butlast sample_events) (world_main 0)"

lemma before_cancel_step: "sample_world = world_step (\<lambda>d. d) (\<lambda>d. d) (\<lambda>t. t) (CallStep 2 (sample_input 15)) before_cancel"
proof -
  have "sample_events = butlast sample_events @ [CallStep 2 (sample_input 15)]" by (simp add: sample_events_def)
  then show ?thesis unfolding sample_world_def before_cancel_def by (metis fold_append fold_simps comp_apply)
qed

lemma before_cancel_running: "job_status (server before_cancel) ''job-1'' = Some StatusRunning"
  by code_simp

theorem every_change_has_a_cause_witness:
  "\<exists>j j'. changes (CallStep 2 (sample_input 15)) before_cancel ''job-1'' (Some j) (Some j') \<and>
     job_Status j = StatusRunning \<and> job_Status j' = StatusCancelled"
proof -
  from before_cancel_running obtain j where j: "fmlookup (jobs (srv_jobs (server before_cancel))) ''job-1'' = Some j"
      "job_Status j = StatusRunning"
    by (auto simp: job_status_def)
  from sample_world_state(1) obtain j' where j': "fmlookup (jobs (srv_jobs (server sample_world))) ''job-1'' = Some j'"
      "job_Status j' = StatusCancelled"
    by (auto simp: job_status_def)
  have "fmlookup (jobs (srv_jobs (server sample_world))) ''job-1'' \<noteq> fmlookup (jobs (srv_jobs (server before_cancel))) ''job-1''"
    using j j' by auto
  from every_change_has_a_cause [OF before_cancel_def before_cancel_step this] j j' show ?thesis by auto
qed

text \<open>C32.  One lost report strands a gang.  When the call that carries the result of a process fails, its goroutine
  has ended all the same and nothing reports that result again.  From then on, if the node had not reported the job
  before, the job stays running, whatever else happens: the other nodes of the gang may report their success and this
  one may go on with its heartbeats, as long as nobody cancels the job, no failure is reported for it, no report
  about it comes from this node and the monitor gives none of its nodes up.  And if besides no step on the way disturbs a handler
  or the monitor (the condition of \<open>Interleaving\<close>), every node of the gang stays reserved for it.\<close>

theorem lost_report_strands_the_gang:
  assumes "fmlookup (tasks p) t = Some (TaskReport jid res)" "\<And>req v. cl_ReportJobStatus cl req v = (Inl err, v)"
    and "p' = proc_step asDur notFound (TaskTurn t cl) p" "net p = server w" "n = cf_ID (ag_cfg (agent p))"
    and "w = world_run asDur dNew tsNew fs (world_main timeout)"
    and "fmlookup (jobs (srv_jobs (server w))) jid = Some j" "job_Status j = StatusRunning"
    and "n \<in> set (AssignedNodeIDs j)" "unreported jid n (srv_jobs (server w))"
    and "undecided asDur dNew tsNew jid n es w" "w' = world_run asDur dNew tsNew es (w\<lparr>server := net p'\<rparr>)"
  shows "fmlookup (tasks p') t = Some TaskOver \<and> (\<forall>cl'. proc_step asDur notFound (TaskTurn t cl') p' = p') \<and>
    fmlookup (jobs (srv_jobs (server w'))) jid = Some j \<and>
    (undisturbed asDur dNew tsNew (fs @ es) (world_main timeout) \<longrightarrow>
      (\<forall>k \<in> set (AssignedNodeIDs j). \<exists>x. fmlookup (nodes (srv_registry (server w'))) k = Some x \<and> CurrentJobID x = jid))"
proof -
  have p': "net p' = net p" "fmlookup (tasks p') t = Some TaskOver"
    using assms(1-3) by (simp_all add: task_step_def Agent_report_def)
  then have w': "w' = world_run asDur dNew tsNew es w" using assms(4,12) by simp
  have j: "fmlookup (jobs (srv_jobs (server w'))) jid = Some j"
    unfolding w' by (rule undecided_stays [OF _ assms(7-11)]) (simp add: assms(6) world.inv_run)
  have "\<exists>x. fmlookup (nodes (srv_registry (server w'))) k = Some x \<and> CurrentJobID x = jid"
    if "undisturbed asDur dNew tsNew (fs @ es) (world_main timeout)" "k \<in> set (AssignedNodeIDs j)" for k
  proof -
    have "live_ok w'" using live_ok_run [OF live_ok_main that(1)] w' assms(6) by simp
    from live_running(3) [OF this j assms(8)] that(2) show ?thesis by blast
  qed
  with j p'(2) show ?thesis by (auto simp: task_step_def)
qed

text \<open>A job runs on n1 and n2.  Its process has succeeded on n1, but the report does not get through; the heartbeats of n1
  and the success of n2 do.\<close>

definition pair_events :: "int event list" where
  "pair_events =
     [Arrive 0 (RegisterNodeReq (Some sample_node_request)),
      Arrive 1 (RegisterNodeReq (Some \<lparr>RegisterNodeRequest_Spec = Some \<lparr>NodeSpec_Id = ''n2'', NodeSpec_Hostname = [],
        NodeSpec_Address = [], NodeSpec_TotalCpus = 4\<rparr>\<rparr>)),
      Arrive 2 (SubmitJobReq (Some \<lparr>SubmitJobRequest_Spec = Some (specToProto (\<lambda>d. d) (sample_spec 2))\<rparr>))] @
     map (\<lambda>k. CallStep k (sample_input 1)) [0, 0, 1, 1, 2, 2, 2, 2] @ map (SchedStep WakeTick) [2, 3, 4, 5, 6, 7]"

definition pair_world :: "(int, int) World" where
  "pair_world = world_run (\<lambda>d. d) (\<lambda>d. d) (\<lambda>t. t) pair_events (world_main 0)"

definition quiet_events :: "int event list" where
  "quiet_events =
     [Arrive 3 (HeartbeatReq (Some \<lparr>HeartbeatRequest_NodeId = ''n1'', HeartbeatRequest_AllocatedCpus = 0, HeartbeatRequest_CurrentJobId = []\<rparr>)),
      Arrive 4 (ReportJobStatusReq (Some (report_request ''n2'' ''job-1'' JOB_EVENT_COMPLETED 0 [])))] @
     map (\<lambda>k. CallStep k (sample_input 90)) [3, 4, 4, 3, 4, 3, 4, 4, 4] @ [MonStep MonBeat [] 93, MonStep MonBeat [] 94]"

definition done_proc :: "(int Server, string, int) Proc" where
  "done_proc = \<lparr>agent = idle_agent, net = server pair_world, run_at = RunWait, hb_at = HbSelect, wl_at = WlRecv, errCh = [],
     tasks = fmupd 0 (TaskReport ''job-1'' \<lparr>rs_Event = JOB_EVENT_COMPLETED, rs_ExitCode = 0, rs_ErrMsg = []\<rparr>) fmempty, next_task = 1\<rparr>"

definition dead_line :: "(int Server, string) Client" where
  "dead_line = \<lparr>cl_RegisterNode = \<lambda>req v. (Inl ''unavailable'', v), cl_Heartbeat = \<lambda>req v. (Inl ''unavailable'', v),
     cl_ReportJobStatus = \<lambda>req v. (Inl ''unavailable'', v)\<rparr>"

lemma pair_world_facts:
  "undisturbed (\<lambda>d. d) (\<lambda>d. d) (\<lambda>t. t) (pair_events @ quiet_events) (world_main 0 :: (int, int) World)"
  "map_option (\<lambda>j. (job_Status j, AssignedNodeIDs j)) (fmlookup (jobs (srv_jobs (server pair_world))) ''job-1'') =
     Some (StatusRunning, [''n1'', ''n2''])"
  "unreported ''job-1'' ''n1'' (srv_jobs (server pair_world))"
  "undecided (\<lambda>d. d) (\<lambda>d. d) (\<lambda>t. t) ''job-1'' ''n1'' quiet_events pair_world"
  "\<not> unreported ''job-1'' ''n2'' (srv_jobs (server (world_run (\<lambda>d. d) (\<lambda>d. d) (\<lambda>t. t) quiet_events pair_world)))"
  by code_simp+

theorem lost_report_strands_the_gang_witness:
  "let w' = world_run (\<lambda>d. d) (\<lambda>d. d) (\<lambda>t. t) quiet_events
      (pair_world\<lparr>server := net (proc_step (\<lambda>d. d) (\<lambda>e. False) (TaskTurn 0 dead_line) done_proc)\<rparr>)
   in job_status (server w') ''job-1'' = Some StatusRunning \<and>
     (\<forall>k \<in> {''n1'', ''n2''}. \<exists>x. fmlookup (nodes (srv_registry (server w'))) k = Some x \<and> CurrentJobID x = ''job-1'')"
proof -
  from pair_world_facts(2) obtain j where j: "fmlookup (jobs (srv_jobs (server pair_world))) ''job-1'' = Some j"
      "job_Status j = StatusRunning" "AssignedNodeIDs j = [''n1'', ''n2'']"
    by auto
  have task: "fmlookup (tasks done_proc) 0 =
      Some (TaskReport ''job-1'' \<lparr>rs_Event = JOB_EVENT_COMPLETED, rs_ExitCode = 0, rs_ErrMsg = []\<rparr>)"
    and net: "net done_proc = server pair_world" and n: "''n1'' = cf_ID (ag_cfg (agent done_proc))" "''n1'' \<in> set (AssignedNodeIDs j)"
    by (simp_all add: done_proc_def idle_agent_def Make_Agent_def j(3))
  have lost: "\<And>req v. cl_ReportJobStatus dead_line req v = (Inl ''unavailable'', v)"
    by (simp add: dead_line_def)
  from lost_report_strands_the_gang [OF task lost refl net n(1) pair_world_def j(1,2) n(2) pair_world_facts(3,4) refl] pair_world_facts(1) j(2,3)
  show ?thesis by (simp add: job_status_def Let_def)
qed

end
