(* ===== verification/Progress.thy ===== *)
theory Progress
  imports Causes
begin

text \<open>
  What the scheduler's goroutine achieves when the other threads of \<open>Threads\<close> run between its calls: an
  attempt (\<open>trySchedule\<close> of \<open>src/internal/scheduler/scheduler.go\<close>) that keeps getting steps ends, and the job at
  the head of the queue is started once enough nodes are free for it, as long as nobody takes those nodes or
  the job away.
\<close>

section \<open>Runs in which a turn comes again and again\<close>

text \<open>
  A rank that no step raises and every turn lowers, while an invariant holds that only reaching the goal may
  end: if turns come again and again, the goal is reached.
\<close>

lemma ranked_progress:
  assumes wf: "wf r" and fair: "\<And>t :: nat. \<exists>u \<ge> t. turn u"
    and keep: "\<And>t. t0 \<le> t \<Longrightarrow> P (X t) \<Longrightarrow> \<not> goal (X t) \<Longrightarrow> \<not> goal (X (Suc t)) \<Longrightarrow>
      P (X (Suc t)) \<and> (rank (X (Suc t)) = rank (X t) \<or> (rank (X (Suc t)), rank (X t)) \<in> r)"
    and drop: "\<And>t. t0 \<le> t \<Longrightarrow> turn t \<Longrightarrow> P (X t) \<Longrightarrow> \<not> goal (X t) \<Longrightarrow> \<not> goal (X (Suc t)) \<Longrightarrow> (rank (X (Suc t)), rank (X t)) \<in> r"
  shows "P (X t) \<Longrightarrow> t0 \<le> t \<Longrightarrow> \<exists>u \<ge> t. goal (X u)"
proof (induction "rank (X t)" arbitrary: t rule: wf_induct_rule [OF wf])
  case 1
  show ?case
  proof (rule ccontr)
    assume "\<not> ?case"
    then have never: "\<And>u. t \<le> u \<Longrightarrow> \<not> goal (X u)" by blast
    have same: "P (X u) \<and> rank (X u) = rank (X t)" if "t \<le> u" for u
      using that
    proof (induction u rule: dec_induct)
      case (step u)
      then have u: "t0 \<le> u" "t \<le> Suc u" using 1(3) by simp_all
      from keep [OF u(1)] step never have "P (X (Suc u)) \<and> (rank (X (Suc u)) = rank (X t) \<or> (rank (X (Suc u)), rank (X t)) \<in> r)"
        by auto
      moreover have "(rank (X (Suc u)), rank (X t)) \<notin> r" if "P (X (Suc u))"
        using 1(1) [OF _ that] u never by (meson le_SucI le_trans step.hyps(1) 1(3))
      ultimately show ?case by blast
    qed (use 1 in simp)
    from fair obtain u where u: "t \<le> u" "turn u" by blast
    then have "t0 \<le> u" using 1(3) by simp
    from drop [OF this u(2)] same [OF u(1)] same [of "Suc u"] never [of u] never [of "Suc u"] u(1)
    have "(rank (X t), rank (X t)) \<in> r" by simp
    with wf show False by (meson wf_irrefl)
  qed
qed

section \<open>Attempts end\<close>

text \<open>How far an attempt is from its end: its stage, and the locked sections of the dispatch still to come.\<close>

fun attempt_left :: "'dur sched_pc \<Rightarrow> nat \<times> nat" where
  "attempt_left (SchedSelect j) = (4, 0)"
| "attempt_left (SchedReserve j ids) = (3, 0)"
| "attempt_left (SchedMark j ids) = (2, 0)"
| "attempt_left (SchedDispatch j ids rank rest cs) = (1, 3 * length rest + length cs)"
| "attempt_left (SchedFail j ids err) = (0, 2)"
| "attempt_left (SchedRelease j ids) = (0, 1)"
| "attempt_left (SchedBackOut j ids) = (0, 1)"
| "attempt_left p = (0, 0)"

fun between_attempts :: "'dur sched_pc \<Rightarrow> bool" where
  "between_attempts SchedWait = True"
| "between_attempts SchedPeek = True"
| "between_attempts SchedStopped = True"
| "between_attempts p = False"

abbreviation lex_less :: "((nat \<times> nat) \<times> (nat \<times> nat)) set" where
  "lex_less \<equiv> less_than <*lex*> less_than"

lemma attempt_progress:
  "\<not> between_attempts p \<longrightarrow> (attempt_left (fst (sched_step dNew wk now p s)), attempt_left p) \<in> lex_less"
  by (induction dNew wk now p s rule: sched_step.induct)
    (auto simp: dispatch_sections_def split: option.split prod.split)

lemma sched_at_other: "\<nexists>wk now. e = SchedStep wk now \<Longrightarrow> sched_at (world_step asDur dNew tsNew e w) = sched_at w"
  by (cases e) (auto split: option.split prod.split)

lemma attempts_end_from:
  assumes "\<forall>t. \<exists>u \<ge> t. \<exists>wk now. es u = SchedStep wk now"
  shows "\<exists>u \<ge> t. between_attempts (sched_at (world_at asDur dNew tsNew es w u))"
proof -
  let ?at = "\<lambda>t. sched_at (world_at asDur dNew tsNew es w t)"
  have moved: "(attempt_left (?at (Suc t)), attempt_left (?at t)) \<in> lex_less"
    if "es t = SchedStep wk now" "\<not> between_attempts (?at t)" for t wk now
    using that attempt_progress [of "?at t" dNew wk now "server (world_at asDur dNew tsNew es w t)"] by (simp add: split_beta)
  have other: "?at (Suc t) = ?at t" if "\<nexists>wk now. es t = SchedStep wk now" for t
    using sched_at_other [OF that] by simp
  have "\<exists>u \<ge> t. between_attempts (?at u)"
  proof (rule ranked_progress [where X = ?at and P = "\<lambda>_. True" and rank = attempt_left and ?t0.0 = 0 and r = lex_less])
    show "\<exists>u \<ge> t. \<exists>wk now. es u = SchedStep wk now" for t using assms by blast
    show "True \<and> (attempt_left (?at (Suc t)) = attempt_left (?at t) \<or> (attempt_left (?at (Suc t)), attempt_left (?at t)) \<in> lex_less)"
      if "\<not> between_attempts (?at t)" for t
      using moved [OF _ that] other [of t] by metis
    show "(attempt_left (?at (Suc t)), attempt_left (?at t)) \<in> lex_less"
      if "\<exists>wk now. es t = SchedStep wk now" "\<not> between_attempts (?at t)" for t
      using moved [OF _ that(2)] that(1) by blast
  qed auto
  then show ?thesis .
qed

section \<open>Room for a job\<close>

definition node_free :: "int \<Rightarrow> Registry \<Rightarrow> string \<Rightarrow> bool" where
  "node_free cpus r k = (case fmlookup (nodes r) k of None \<Rightarrow> False | Some n \<Rightarrow> free_for cpus n)"

definition keeps_room :: "int \<Rightarrow> Registry \<Rightarrow> Registry \<Rightarrow> bool" where
  "keeps_room cpus r r' \<longleftrightarrow> (\<forall>k |\<in>| fmdom (nodes r). node_free cpus r k \<longrightarrow> node_free cpus r' k)"

definition enough_room :: "ResourceRequest \<Rightarrow> Registry \<Rightarrow> bool" where
  "enough_room req r \<longleftrightarrow> SelectGang (ListNodes r) req \<noteq> None"

lemma keeps_roomD: "keeps_room cpus r r' \<Longrightarrow> node_free cpus r k \<Longrightarrow> node_free cpus r' k"
proof -
  assume "keeps_room cpus r r'" and free: "node_free cpus r k"
  moreover from free have "k |\<in>| fmdom (nodes r)" by (auto simp: node_free_def fmdomI split: option.splits)
  ultimately show ?thesis unfolding keeps_room_def by blast
qed

lemma keeps_room_same: "nodes r' = nodes r \<Longrightarrow> keeps_room cpus r r'"
  by (simp add: keeps_room_def node_free_def)

lemma finite_node_free: "finite {k. node_free cpus r k}"
  by (rule finite_subset [of _ "fmdom' (nodes r)"]) (auto simp: node_free_def mem_fmdom' split: option.splits)

lemma enough_room_iff:
  assumes "reg_inv r"
  shows "enough_room req r \<longleftrightarrow> 1 \<le> NodesRequired req \<and> 1 \<le> CPUsPerNode req \<and>
     NodesRequired req \<le> int (card {k. node_free (CPUsPerNode req) r k})"
proof (cases "1 \<le> CPUsPerNode req")
  case True
  let ?fit = "filter (\<lambda>n. nodeFits n (CPUsPerNode req)) (ListNodes r)"
  have "set (map node_ID ?fit) = {k. node_free (CPUsPerNode req) r k}"
  proof (rule set_eqI)
    fix k
    have "k \<in> node_ID ` set ?fit \<longleftrightarrow> (\<exists>n. fmlookup (nodes r) (node_ID n) = Some n \<and> free_for (CPUsPerNode req) n \<and> k = node_ID n)"
      by (auto simp: set_ListNodes [OF assms] nodeFits_free_for [OF True])
    also have "\<dots> \<longleftrightarrow> node_free (CPUsPerNode req) r k"
    proof (cases "fmlookup (nodes r) k")
      case (Some n)
      have "node_ID n = k" using reg_invD [OF assms Some] by simp
      with Some show ?thesis unfolding node_free_def by (metis option.inject option.simps(5))
    qed (auto simp: node_free_def)
    finally show "k \<in> set (map node_ID ?fit) \<longleftrightarrow> k \<in> {k. node_free (CPUsPerNode req) r k}" by simp
  qed
  moreover have "distinct (map node_ID ?fit)" by (simp add: distinct_map_filter distinct_ListNodes [OF assms])
  ultimately have "length ?fit = card {k. node_free (CPUsPerNode req) r k}" by (metis distinct_card length_map)
  with True show ?thesis by (auto simp: enough_room_def SelectGang_spec gang_spec_def fitting_def Let_def)
qed (simp add: enough_room_def SelectGang_def)

lemma enough_room_kept:
  assumes "reg_inv r" "reg_inv r'" "keeps_room (CPUsPerNode req) r r'" "enough_room req r"
  shows "enough_room req r'"
proof -
  have "card {k. node_free (CPUsPerNode req) r k} \<le> card {k. node_free (CPUsPerNode req) r' k}"
    using keeps_roomD [OF assms(3)] by (intro card_mono finite_node_free) blast
  with assms(1,2,4) show ?thesis by (simp add: enough_room_iff)
qed

lemma selected_free:
  assumes "reg_inv r" "SelectGang (ListNodes r) req = Some ids" "k \<in> set ids"
  shows "node_free (CPUsPerNode req) r k"
proof -
  from SelectGang_Some(4) [OF assms(2)] assms(3) obtain n where "n \<in> set (ListNodes r)" "free_for (CPUsPerNode req) n" "node_ID n = k"
    by force
  then show ?thesis by (auto simp: node_free_def set_ListNodes [OF assms(1)])
qed

section \<open>The head of the queue\<close>

lemma head_iff:
  assumes "jm_inv m"
  shows "PeekPendingJob m = Some j \<longleftrightarrow> pending m \<noteq> [] \<and> fmlookup (jobs m) (hd (pending m)) = Some j"
  using jm_inv_pending_known [OF assms, of "hd (pending m)"]
  by (auto simp: PeekPendingJob_def peekPendingID_def split: list.split option.split)

lemma head_stays:
  assumes "jm_inv (srv_jobs s)" "jm_inv (srv_jobs s')" "jm_later (srv_jobs s) (srv_jobs s')" "PeekPendingJob (srv_jobs s) = Some j"
    and "job_status s' (job_ID j) = Some StatusPending"
  shows "PeekPendingJob (srv_jobs s') = Some j"
proof -
  note head = peek_head [OF assms(1,4)]
  have same: "fmlookup (jobs (srv_jobs s')) (job_ID j) = Some j"
    by (rule later_same_job [OF assms(3) _ head(1)]) (use assms(5) head in \<open>simp add: job_status_def\<close>)
  have "is_job (srv_jobs s') (job_ID j) StatusPending" using same head(2) by (simp add: is_job_def)
  then have "job_ID j \<in> set (pending (srv_jobs s'))" using jm_inv_pending [OF assms(2)] by blast
  moreover obtain new where "pending (srv_jobs s') = filter (\<lambda>x. x \<in> set (pending (srv_jobs s'))) (pending (srv_jobs s)) @ new"
    using assms(3) by (auto simp: jm_later_def queue_later_def)
  ultimately have "hd (pending (srv_jobs s')) = job_ID j" "pending (srv_jobs s') \<noteq> []"
    using head(3) by (metis append_Cons filter.simps(2) list.sel(1), auto)
  with same show ?thesis by (simp add: head_iff [OF assms(2)])
qed

text \<open>
  A step of another thread spares a pending job when the job is still pending after it and every node that was
  free for the job still is; a step of the scheduler, unless it ends the scheduler.
\<close>

definition spares ::
  "('dur \<Rightarrow> duration) \<Rightarrow> (duration \<Rightarrow> 'dur) \<Rightarrow> (instant \<Rightarrow> 'ts) \<Rightarrow> Job \<Rightarrow> 'dur event \<Rightarrow> ('dur, 'ts) World \<Rightarrow> bool" where
  "spares asDur dNew tsNew j e w = (case e of
     SchedStep wk now \<Rightarrow> wk \<noteq> WakeDone
   | _ \<Rightarrow> let s' = server (world_step asDur dNew tsNew e w)
          in job_status s' (job_ID j) = Some StatusPending \<and>
             keeps_room (CPUsPerNode (Resources (job_Spec j))) (srv_registry (server w)) (srv_registry s'))"

text \<open>The places of an attempt for the head of the queue, with what holds there, and the steps to its start.\<close>

fun start_place :: "Job \<Rightarrow> Registry \<Rightarrow> 'dur sched_pc \<Rightarrow> bool" where
  "start_place j r SchedWait = enough_room (Resources (job_Spec j)) r"
| "start_place j r SchedPeek = enough_room (Resources (job_Spec j)) r"
| "start_place j r (SchedSelect q) = (q = j \<and> enough_room (Resources (job_Spec j)) r)"
| "start_place j r (SchedReserve q ids) = (q = j \<and> enough_room (Resources (job_Spec j)) r \<and>
     (\<forall>k \<in> set ids. node_free (CPUsPerNode (Resources (job_Spec j))) r k) \<and> ids \<noteq> [])"
| "start_place j r (SchedMark q ids) = (q = j)"
| "start_place j r p = False"

fun start_left :: "'dur sched_pc \<Rightarrow> nat" where
  "start_left SchedWait = 5"
| "start_left SchedPeek = 4"
| "start_left (SchedSelect j) = 3"
| "start_left (SchedReserve j ids) = 2"
| "start_left (SchedMark j ids) = 1"
| "start_left p = 0"

definition starting :: "Job \<Rightarrow> ('dur, 'ts) World \<Rightarrow> bool" where
  "starting j w \<longleftrightarrow> world_ok w \<and> PeekPendingJob (srv_jobs (server w)) = Some j \<and> start_place j (srv_registry (server w)) (sched_at w)"

abbreviation is_running :: "Job \<Rightarrow> ('dur, 'ts) World \<Rightarrow> bool" where
  "is_running j w \<equiv> job_status (server w) (job_ID j) = Some StatusRunning"

lemma start_place_kept:
  assumes "start_place j r p" "reg_inv r" "reg_inv r'" "keeps_room (CPUsPerNode (Resources (job_Spec j))) r r'"
  shows "start_place j r' p"
  using assms(1) enough_room_kept [OF assms(2-4)] keeps_roomD [OF assms(4)] by (cases p) auto

text \<open>A step of another thread leaves the attempt where it is.\<close>

lemma starting_other:
  assumes "starting j w" "spares asDur dNew tsNew j e w" "\<nexists>wk now. e = SchedStep wk now"
  shows "starting j (world_step asDur dNew tsNew e w) \<and> sched_at (world_step asDur dNew tsNew e w) = sched_at w"
proof -
  let ?w' = "world_step asDur dNew tsNew e w"
  have ok: "world_ok w" "PeekPendingJob (srv_jobs (server w)) = Some j" "start_place j (srv_registry (server w)) (sched_at w)"
    using assms(1) by (simp_all add: starting_def)
  note comps = comps_okD [OF conjunct1 [OF ok(1) [unfolded world_ok_def]]]
  have ok': "world_ok ?w'" by (rule world_ok_step [OF ok(1)])
  note comps' = comps_okD [OF conjunct1 [OF ok' [unfolded world_ok_def]]]
  have sp: "job_status (server ?w') (job_ID j) = Some StatusPending"
      "keeps_room (CPUsPerNode (Resources (job_Spec j))) (srv_registry (server w)) (srv_registry (server ?w'))"
    using assms(2,3) by (auto simp: spares_def Let_def split: event.splits)
  from head_stays [OF comps(1) comps'(1) world_later [OF ok(1)] ok(2) sp(1)]
    start_place_kept [OF ok(3) comps(4) comps'(4) sp(2)] ok'
  show ?thesis by (simp add: starting_def sched_at_other [OF assms(3)])
qed

text \<open>A step of the scheduler goes on with the attempt; only a \<open>select\<close> whose kick is missing waits.\<close>

lemma starting_sched:
  assumes "starting j w" "wk \<noteq> WakeDone" "w' = world_step asDur dNew tsNew (SchedStep wk now) w"
  shows "is_running j w' \<or> starting j w' \<and>
    (start_left (sched_at w') < start_left (sched_at w) \<or> wk = WakeKick \<and> start_left (sched_at w') = start_left (sched_at w))"
proof -
  have ok: "world_ok w" "PeekPendingJob (srv_jobs (server w)) = Some j" "start_place j (srv_registry (server w)) (sched_at w)"
    using assms(1) by (simp_all add: starting_def)
  note comps = comps_okD [OF conjunct1 [OF ok(1) [unfolded world_ok_def]]]
  note head = peek_head [OF comps(1) ok(2)]
  have ne: "job_ID j \<noteq> []" using head(1) comps(2) by auto
  have ok': "world_ok w'" unfolding assms(3) by (rule world_ok_step [OF ok(1)])
  have eq: "server w' = snd (sched_step dNew wk now (sched_at w) (server w))" "sched_at w' = fst (sched_step dNew wk now (sched_at w) (server w))"
    using assms(3) by (simp_all add: split_beta)
  let ?req = "Resources (job_Spec j)"
  show ?thesis
  proof (cases "sched_at w")
    case SchedWait
    with ok ok' eq assms(2) show ?thesis
      by (cases wk) (auto simp: starting_def wake_up_def set_comps_def split: if_splits)
  next
    case SchedPeek
    with ok ok' eq show ?thesis by (simp add: starting_def)
  next
    case (SchedSelect q)
    then have q: "q = j" "enough_room ?req (srv_registry (server w))" using ok(3) by simp_all
    then obtain ids where ids: "SelectGang (ListNodes (srv_registry (server w))) ?req = Some ids" by (auto simp: enough_room_def)
    have "ids \<noteq> []" using SelectGang_Some(1,2) [OF ids] by auto
    with SchedSelect q ids ok ok' eq selected_free [OF comps(4) ids] show ?thesis by (simp add: starting_def)
  next
    case (SchedReserve q ids)
    then have q: "q = j" "enough_room ?req (srv_registry (server w))" "ids \<noteq> []"
        "\<forall>k \<in> set ids. node_free (CPUsPerNode ?req) (srv_registry (server w)) k"
      using ok(3) by simp_all
    have "1 \<le> CPUsPerNode ?req" using q(2) by (simp add: enough_room_iff [OF comps(4)])
    with q(3,4) ne have "fst (ReserveNodes (job_ID j) ids (CPUsPerNode ?req) (srv_registry (server w))) = None"
      unfolding ReserveNodes_None_iff by (auto simp: node_free_def split: option.splits)
    with SchedReserve q(1) ok ok' eq show ?thesis by (auto simp: starting_def split: prod.splits option.splits)
  next
    case (SchedMark q ids)
    with ok(3) have "q = j" by simp
    with SchedMark eq MarkRunning_pending [OF head(1,2)] show ?thesis by (simp add: job_status_def)
  qed (use ok(3) in simp_all)
qed

section \<open>Properties\<close>

text \<open>C25.  No attempt of the scheduler blocks or goes on for ever: whatever the other threads do between its
  calls, a scheduler that is given a step again and again comes back to the end of an attempt.\<close>

theorem attempts_end:
  assumes "\<forall>t. \<exists>u \<ge> t. \<exists>wk now. es u = SchedStep wk now"
  shows "\<exists>u \<ge> t. between_attempts (sched_at (world_at asDur dNew tsNew es w u))"
  using attempts_end_from [OF assms] .

text \<open>C8.  A job that can run does run.  Once the scheduler is between two attempts, a job heads the queue and
  enough nodes are free for it, the job is started: under every interleaving in which the scheduler keeps getting
  steps with its ticker firing and, as long as the job is pending, the steps of the other threads neither end it
  nor take away a node that is free for it.  Submissions, reports about other jobs, released gangs, heartbeats
  and streams may come at any point between the scheduler's calls.\<close>

theorem head_job_starts:
  fixes w :: "('dur, 'ts) World"
  assumes "w = world_run asDur dNew tsNew fs (world_main timeout)" "sched_at w = SchedWait \<or> sched_at w = SchedPeek"
    and "PeekPendingJob (srv_jobs (server w)) = Some j"
    and "SelectGang (ListNodes (srv_registry (server w))) (Resources (job_Spec j)) \<noteq> None"
    and "\<forall>t. job_status (server (world_at asDur dNew tsNew es w t)) (job_ID j) = Some StatusPending \<longrightarrow>
      spares asDur dNew tsNew j (es t) (world_at asDur dNew tsNew es w t)"
    and "\<forall>t. \<exists>u \<ge> t. \<exists>now. es u = SchedStep WakeTick now"
  shows "\<exists>t. job_status (server (world_at asDur dNew tsNew es w t)) (job_ID j) = Some StatusRunning"
proof -
  let ?at = "world_at asDur dNew tsNew es w"
  have pending: "job_status (server v) (job_ID j) = Some StatusPending" if "starting j v" for v :: "('dur, 'ts) World"
  proof -
    from that have "jm_inv (srv_jobs (server v))" "PeekPendingJob (srv_jobs (server v)) = Some j"
      by (simp_all add: starting_def world_ok_def comps_ok_def)
    from peek_head [OF this] show ?thesis by (simp add: job_status_def)
  qed
  have step: "starting j (?at (Suc t)) \<and> (start_left (sched_at (?at (Suc t))) = start_left (sched_at (?at t)) \<or>
      start_left (sched_at (?at (Suc t))) < start_left (sched_at (?at t)))"
    if "starting j (?at t)" "\<not> is_running j (?at (Suc t))" for t
  proof -
    have sp: "spares asDur dNew tsNew j (es t) (?at t)" using assms(5) pending [OF that(1)] by blast
    show ?thesis
    proof (cases "\<exists>wk now. es t = SchedStep wk now")
      case True
      then obtain wk now where e: "es t = SchedStep wk now" by blast
      with sp have "wk \<noteq> WakeDone" by (simp add: spares_def)
      from starting_sched [OF that(1) this refl, of asDur dNew tsNew now] that(2) e show ?thesis by auto
    next
      case False
      from starting_other [OF that(1) sp False] show ?thesis by simp
    qed
  qed
  have turn: "start_left (sched_at (?at (Suc t))) < start_left (sched_at (?at t))"
    if "\<exists>now. es t = SchedStep WakeTick now" "starting j (?at t)" "\<not> is_running j (?at (Suc t))" for t
  proof -
    from that(1) obtain now where e: "es t = SchedStep WakeTick now" by blast
    from starting_sched [OF that(2) _ refl, of WakeTick asDur dNew tsNew now] that(3) e show ?thesis by auto
  qed
  have "world_ok w" unfolding assms(1) by (rule world.inv_run)
  with assms(2-4) have "starting j (?at 0)" by (auto simp: starting_def enough_room_def)
  then have "\<exists>u \<ge> 0. is_running j (?at u)"
  proof (rule ranked_progress [where X = ?at and P = "starting j" and rank = "\<lambda>v. start_left (sched_at v)" and r = less_than and ?t0.0 = 0
        and turn = "\<lambda>t. \<exists>now. es t = SchedStep WakeTick now", rotated 4])
  qed (use assms(6) step turn in \<open>auto simp del: world_at.simps\<close>)
  then show ?thesis by blast
qed

text \<open>A job has been submitted and a node has registered; requests go on arriving between the steps of the scheduler.\<close>

definition queued_events :: "int event list" where
  "queued_events =
     [Arrive 0 (RegisterNodeReq (Some sample_node_request)), CallStep 0 (sample_input 1), CallStep 0 (sample_input 2),
      Arrive 1 (SubmitJobReq (Some sample_request)), CallStep 1 (sample_input 3), CallStep 1 (sample_input 4)]"

definition queued_world :: "(int, int) World" where
  "queued_world = world_run (\<lambda>d. d) (\<lambda>d. d) (\<lambda>t. t) queued_events (world_main 0)"

definition busy_events :: "nat \<Rightarrow> int event" where
  "busy_events t = (if even t then Arrive t ListNodesReq else SchedStep WakeTick (int t))"

lemma busy_fair: "\<forall>t. \<exists>u \<ge> t. \<exists>now. busy_events u = SchedStep WakeTick now"
  by (intro allI, rule_tac x = "Suc (2 * t)" in exI) (simp add: busy_events_def)

lemma queued_world_state:
  "map_option job_ID (PeekPendingJob (srv_jobs (server queued_world))) = Some ''job-1''"
  "(case PeekPendingJob (srv_jobs (server queued_world)) of None \<Rightarrow> False
    | Some j \<Rightarrow> SelectGang (ListNodes (srv_registry (server queued_world))) (Resources (job_Spec j)) \<noteq> None)"
  "between_attempts (sched_at queued_world) \<and> start_left (sched_at queued_world) > 0"
  by code_simp+

theorem attempts_end_witness:
  "\<exists>u. between_attempts (sched_at (world_at (\<lambda>d. d) (\<lambda>d. d) (\<lambda>t. t) busy_events sample_world u))"
  using attempts_end [of busy_events 0 "\<lambda>d. d" "\<lambda>d. d" "\<lambda>t. t" sample_world] busy_fair by blast

theorem head_job_starts_witness:
  "\<exists>t. job_status (server (world_at (\<lambda>d. d) (\<lambda>d. d) (\<lambda>t. t) busy_events queued_world t)) ''job-1'' = Some StatusRunning"
proof -
  from queued_world_state(1) obtain j where j: "PeekPendingJob (srv_jobs (server queued_world)) = Some j" "job_ID j = ''job-1''" by auto
  have place: "sched_at queued_world = SchedWait \<or> sched_at queued_world = SchedPeek"
    using queued_world_state(3) by (cases "sched_at queued_world") auto
  have "spares (\<lambda>d. d) (\<lambda>d. d) (\<lambda>t. t) j (busy_events t) w" if "job_status (server w) (job_ID j) = Some StatusPending"
    for t and w :: "(int, int) World"
    using that by (auto simp: spares_def busy_events_def Let_def intro: keeps_room_same)
  from head_job_starts [OF queued_world_def place j(1) _ _ busy_fair] this queued_world_state(2) j show ?thesis by simp
qed

end
