(* ===== verification/Daemon.thy ===== *)
theory Daemon
  imports Flags Causes
begin

text \<open>
  The controller program, \<open>src/cmd/controller/main.go\<close>: its flags, the goroutines it starts before it listens,
  serving, and the shutdown that a signal begins.  What runs inside is the model of \<open>Threads\<close>; the results of
  \<open>net.Listen\<close>, \<open>Serve\<close> and \<open>GracefulStop\<close> are events, and what the gRPC library promises about them is the
  predicate \<open>grpc_rule\<close>.  Log lines are left out.  Two theorems are about the shutdown: it waits for every stream, and
  meanwhile nothing is scheduled or watched.
\<close>

section \<open>Flags\<close>

record ctl_flags =
  lf_listen :: string
  lf_timeout :: duration

definition ctl_defaults :: ctl_flags where
  "ctl_defaults = \<lparr>lf_listen = '':50051'', lf_timeout = DefaultHeartbeatTimeout\<rparr>"

definition ctl_known :: "string \<Rightarrow> bool" where
  "ctl_known f \<longleftrightarrow> f = ''listen'' \<or> f = ''heartbeat-timeout''"

section \<open>State\<close>

text \<open>
  \<open>MainServe\<close> is inside \<open>Serve\<close>.  The goroutine that stops the server waits for the context (\<open>StopWait\<close>), then
  is inside \<open>GracefulStop\<close>.  \<open>notified\<close> says that the context of \<open>signal.NotifyContext\<close> is done.
\<close>

datatype main_pc = MainListen | MainServe | MainExited nat

datatype stop_pc = StopOff | StopWait | StopGraceful | StopDone

record ('dur, 'ts) Daemon =
  world :: "('dur, 'ts) World"
  notified :: bool
  main_at :: main_pc
  stop_at :: stop_pc

text \<open>What \<open>main\<close> has done when it comes to \<open>net.Listen\<close>: scheduler and monitor are running already.\<close>

definition daemon_main :: "ctl_flags \<Rightarrow> ('dur, 'ts) Daemon" where
  "daemon_main f = \<lparr>world = world_main (lf_timeout f), notified = False, main_at = MainListen, stop_at = StopOff\<rparr>"

datatype ctl_start = CtlExit nat | CtlListens string ctl_flags

definition ctl_program :: "(string \<Rightarrow> string \<Rightarrow> ctl_flags \<Rightarrow> ctl_flags option) \<Rightarrow> string list \<Rightarrow> ctl_start" where
  "ctl_program setv args = (case parse_flags ctl_known setv args ctl_defaults of
     Exit c \<Rightarrow> CtlExit c | Parsed f rest \<Rightarrow> CtlListens (lf_listen f) f)"

section \<open>Steps\<close>

text \<open>
  A signal; the results of \<open>net.Listen\<close> and of \<open>Serve\<close> (an error or not); a step of the goroutine that stops the
  server; and a step of a thread inside, where the \<open>ctx.Done\<close> case of a \<open>select\<close> needs the signal.
  \<open>log.Fatalf\<close> exits with status 1, and with the program all its goroutines end.
\<close>

datatype 'dur daemon_event =
    Interrupt
  | Listened "string option"
  | Served "string option"
  | StopTurn
  | Inside "'dur event"

fun needs_signal :: "'dur event \<Rightarrow> bool" where
  "needs_signal (SchedStep wk now) = (wk = WakeDone)"
| "needs_signal (MonStep c ks now) = (c = MonDone)"
| "needs_signal _ = False"

fun daemon_turn ::
  "('dur \<Rightarrow> duration) \<Rightarrow> (duration \<Rightarrow> 'dur) \<Rightarrow> (instant \<Rightarrow> 'ts) \<Rightarrow> 'dur daemon_event \<Rightarrow> ('dur, 'ts) Daemon \<Rightarrow> ('dur, 'ts) Daemon" where
  "daemon_turn asDur dNew tsNew Interrupt d = d\<lparr>notified := True\<rparr>"
| "daemon_turn asDur dNew tsNew (Listened r) d =
     (if main_at d \<noteq> MainListen then d
      else case r of
        Some err \<Rightarrow> d\<lparr>main_at := MainExited 1\<rparr>
      | None \<Rightarrow> d\<lparr>main_at := MainServe, stop_at := StopWait\<rparr>)"
| "daemon_turn asDur dNew tsNew (Served r) d =
     (if main_at d \<noteq> MainServe then d
      else case r of
        Some err \<Rightarrow> d\<lparr>main_at := MainExited 1\<rparr>
      | None \<Rightarrow> d\<lparr>main_at := MainExited 0\<rparr>)"
| "daemon_turn asDur dNew tsNew StopTurn d = (case stop_at d of
     StopWait \<Rightarrow> if notified d then d\<lparr>stop_at := StopGraceful\<rparr> else d
   | StopGraceful \<Rightarrow> d\<lparr>stop_at := StopDone\<rparr>
   | _ \<Rightarrow> d)"
| "daemon_turn asDur dNew tsNew (Inside e) d =
     (if needs_signal e \<and> \<not> notified d then d else d\<lparr>world := world_step asDur dNew tsNew e (world d)\<rparr>)"

definition daemon_step ::
  "('dur \<Rightarrow> duration) \<Rightarrow> (duration \<Rightarrow> 'dur) \<Rightarrow> (instant \<Rightarrow> 'ts) \<Rightarrow> 'dur daemon_event \<Rightarrow> ('dur, 'ts) Daemon \<Rightarrow> ('dur, 'ts) Daemon" where
  "daemon_step asDur dNew tsNew e d = (case main_at d of MainExited c \<Rightarrow> d | _ \<Rightarrow> daemon_turn asDur dNew tsNew e d)"

abbreviation daemon_run ::
  "('dur \<Rightarrow> duration) \<Rightarrow> (duration \<Rightarrow> 'dur) \<Rightarrow> (instant \<Rightarrow> 'ts) \<Rightarrow> 'dur daemon_event list \<Rightarrow> ('dur, 'ts) Daemon \<Rightarrow> ('dur, 'ts) Daemon" where
  "daemon_run asDur dNew tsNew es d \<equiv> fold (daemon_step asDur dNew tsNew) es d"

section \<open>What the gRPC library promises\<close>

text \<open>
  As the package documents it: requests reach the handlers between \<open>Serve\<close> and \<open>GracefulStop\<close>; \<open>GracefulStop\<close>
  blocks until the pending calls have finished; and \<open>Serve\<close> returns an error unless \<open>GracefulStop\<close> was called.
\<close>

definition all_returned :: "('dur, 'ts) World \<Rightarrow> bool" where
  "all_returned w \<longleftrightarrow> fBall (fmdom (calls w)) (\<lambda>k. map_option returned (fmlookup (calls w) k) = Some True)"

definition stopping :: "('dur, 'ts) Daemon \<Rightarrow> bool" where
  "stopping d \<longleftrightarrow> stop_at d = StopGraceful \<or> stop_at d = StopDone"

fun grpc_rule :: "'dur daemon_event \<Rightarrow> ('dur, 'ts) Daemon \<Rightarrow> bool" where
  "grpc_rule (Inside (Arrive k req)) d = (main_at d = MainServe \<and> \<not> stopping d)"
| "grpc_rule StopTurn d = (stop_at d = StopGraceful \<longrightarrow> all_returned (world d))"
| "grpc_rule (Served None) d = stopping d"
| "grpc_rule _ d = True"

fun grpc_follows ::
  "('dur \<Rightarrow> duration) \<Rightarrow> (duration \<Rightarrow> 'dur) \<Rightarrow> (instant \<Rightarrow> 'ts) \<Rightarrow> 'dur daemon_event list \<Rightarrow> ('dur, 'ts) Daemon \<Rightarrow> bool" where
  "grpc_follows asDur dNew tsNew [] d = True"
| "grpc_follows asDur dNew tsNew (e # es) d =
     (grpc_rule e d \<and> grpc_follows asDur dNew tsNew es (daemon_step asDur dNew tsNew e d))"

lemma grpc_follows_snoc:
  "grpc_follows asDur dNew tsNew (es @ [e]) d \<longleftrightarrow>
   grpc_follows asDur dNew tsNew es d \<and> grpc_rule e (daemon_run asDur dNew tsNew es d)"
  by (induction es arbitrary: d) simp_all

section \<open>The program around the threads\<close>

text \<open>Inside, the program is a run of the threads.\<close>

lemma daemon_step_world:
  "world (daemon_step asDur dNew tsNew e d) = world d \<or>
   (\<exists>x. e = Inside x \<and> (needs_signal x \<longrightarrow> notified d) \<and> world (daemon_step asDur dNew tsNew e d) = world_step asDur dNew tsNew x (world d))"
  by (cases e) (auto simp: daemon_step_def split: main_pc.split stop_pc.split option.split)

lemma daemon_world:
  "\<exists>fs. world (daemon_run asDur dNew tsNew es d) = world_run asDur dNew tsNew fs (world d) \<and> (\<forall>e \<in> set fs. Inside e \<in> set es)"
proof (induction es rule: rev_induct)
  case Nil
  then show ?case by (intro exI [of _ "[]"]) simp
next
  case (snoc e es)
  then obtain fs where fs: "world (daemon_run asDur dNew tsNew es d) = world_run asDur dNew tsNew fs (world d)"
      "\<forall>e \<in> set fs. Inside e \<in> set es" by blast
  from daemon_step_world [of asDur dNew tsNew e "daemon_run asDur dNew tsNew es d"] show ?case
  proof (elim disjE exE conjE)
    assume "world (daemon_step asDur dNew tsNew e (daemon_run asDur dNew tsNew es d)) = world (daemon_run asDur dNew tsNew es d)"
    with fs show ?case by (intro exI [of _ fs]) simp
  next
    fix x assume "e = Inside x" "world (daemon_step asDur dNew tsNew e (daemon_run asDur dNew tsNew es d)) =
        world_step asDur dNew tsNew x (world (daemon_run asDur dNew tsNew es d))"
    with fs show ?case by (intro exI [of _ "fs @ [x]"]) auto
  qed
qed

text \<open>Returned calls stay returned, and without a request no call begins.\<close>

lemma all_returned_step:
  assumes "all_returned w" "\<nexists>k req. e = Arrive k req"
  shows "all_returned (world_step asDur dNew tsNew e w)"
proof (cases e)
  case (CallStep k i)
  show ?thesis
  proof (cases "fmlookup (calls w) k")
    case (Some p)
    with assms(1) fmdomI [OF Some] have "returned p" by (fastforce simp: all_returned_def)
    then obtain r where "p = Returned r" by (auto simp: returned_iff)
    with CallStep Some assms(1) show ?thesis by (auto simp: all_returned_def returned_def)
  qed (use CallStep assms(1) in simp)
qed (use assms in \<open>auto simp: all_returned_def split: prod.split\<close>)

text \<open>The places of the two goroutines that only a signal ends.\<close>

lemma stopped_by_signal:
  "sched_at w \<noteq> SchedStopped \<Longrightarrow> sched_at (world_step asDur dNew tsNew e w) = SchedStopped \<Longrightarrow> needs_signal e"
  "mon_at w \<noteq> MonStopped \<Longrightarrow> mon_at (world_step asDur dNew tsNew e w) = MonStopped \<Longrightarrow> needs_signal e"
proof -
  have s: "p \<noteq> SchedStopped \<longrightarrow> fst (sched_step dNew wk now p s) = SchedStopped \<longrightarrow> wk = WakeDone" for wk now p s
    by (induction dNew wk now p s rule: sched_step.induct) (auto split: option.splits prod.splits if_splits)
  have m: "p \<noteq> MonStopped \<longrightarrow> fst (mon_step c ks now p s) = MonStopped \<longrightarrow> c = MonDone" for c ks now p and s :: "'a Server"
    by (induction c ks now p s rule: mon_step.induct) (auto simp: Let_def split: option.splits prod.splits list.splits mon_case.splits if_splits)
  show "sched_at w \<noteq> SchedStopped \<Longrightarrow> sched_at (world_step asDur dNew tsNew e w) = SchedStopped \<Longrightarrow> needs_signal e"
    using s by (cases e) (auto simp: split_beta split: option.splits if_splits)
  show "mon_at w \<noteq> MonStopped \<Longrightarrow> mon_at (world_step asDur dNew tsNew e w) = MonStopped \<Longrightarrow> needs_signal e"
    using m by (cases e) (auto simp: split_beta split: option.splits if_splits)
qed

text \<open>What holds of the program after the events \<open>es\<close>.\<close>

definition exit_cause :: "'dur daemon_event list \<Rightarrow> ('dur, 'ts) Daemon \<Rightarrow> nat \<Rightarrow> bool" where
  "exit_cause es d c \<longleftrightarrow> c = 0 \<and> stopping d \<or>
     c = 1 \<and> (\<exists>msg. Listened (Some msg) \<in> set es \<or> Served (Some msg) \<in> set es)"

definition daemon_ok :: "'dur daemon_event list \<Rightarrow> ('dur, 'ts) Daemon \<Rightarrow> bool" where
  "daemon_ok es d \<longleftrightarrow>
     (notified d \<longrightarrow> Interrupt \<in> set es) \<and> (stopping d \<longrightarrow> notified d) \<and>
     (sched_at (world d) = SchedStopped \<or> mon_at (world d) = MonStopped \<longrightarrow> notified d) \<and>
     (main_at d = MainListen \<longrightarrow> calls (world d) = fmempty \<and> stop_at d = StopOff) \<and>
     (stop_at d = StopDone \<longrightarrow> all_returned (world d)) \<and>
     (\<forall>c. main_at d = MainExited c \<longrightarrow> exit_cause es d c)"

lemma daemon_ok_more: "daemon_ok es d \<Longrightarrow> daemon_ok (es @ [e]) d"
  unfolding daemon_ok_def exit_cause_def by auto

lemma world_step_calls: "calls w = fmempty \<Longrightarrow> \<nexists>k req. e = Arrive k req \<Longrightarrow> calls (world_step asDur dNew tsNew e w) = fmempty"
  by (cases e) (auto split: prod.split)

lemma daemon_ok_inside:
  assumes ok: "daemon_ok es d" and rule: "grpc_rule (Inside x) d" and run: "\<And>c. main_at d \<noteq> MainExited c" and sig: "needs_signal x \<longrightarrow> notified d"
  shows "daemon_ok (es @ [Inside x]) (d\<lparr>world := world_step asDur dNew tsNew x (world d)\<rparr>)"
proof -
  let ?w' = "world_step asDur dNew tsNew x (world d)"
  have arr: "\<nexists>k req. x = Arrive k req" if "main_at d = MainListen \<or> stop_at d = StopDone"
    using rule that by (cases x) (auto simp: stopping_def)
  have "sched_at ?w' = SchedStopped \<or> mon_at ?w' = MonStopped \<longrightarrow> notified d"
    using ok sig stopped_by_signal [of "world d" asDur dNew tsNew x] by (auto simp: daemon_ok_def)
  moreover have "main_at d = MainListen \<longrightarrow> calls ?w' = fmempty"
    using ok arr world_step_calls [of "world d" x asDur dNew tsNew] by (auto simp: daemon_ok_def)
  moreover have "stop_at d = StopDone \<longrightarrow> all_returned ?w'"
    using ok arr all_returned_step [of "world d" x asDur dNew tsNew] by (auto simp: daemon_ok_def)
  ultimately show ?thesis using ok run by (simp add: daemon_ok_def stopping_def)
qed

lemma daemon_ok_step:
  assumes "daemon_ok es d" "grpc_rule e d"
  shows "daemon_ok (es @ [e]) (daemon_step asDur dNew tsNew e d)"
proof (cases "\<exists>c. main_at d = MainExited c")
  case True
  then show ?thesis using daemon_ok_more [OF assms(1)] by (auto simp: daemon_step_def)
next
  case False
  then have step: "daemon_step asDur dNew tsNew e d = daemon_turn asDur dNew tsNew e d"
    by (auto simp: daemon_step_def split: main_pc.split)
  note more = daemon_ok_more [OF assms(1), of e]
  show ?thesis
  proof (cases e)
    case (Inside x)
    have "daemon_ok (es @ [Inside x]) (d\<lparr>world := world_step asDur dNew tsNew x (world d)\<rparr>)" if "needs_signal x \<longrightarrow> notified d"
      by (rule daemon_ok_inside [OF assms(1) _ _ that]) (use assms(2) False Inside in auto)
    with more show ?thesis unfolding step unfolding Inside by simp
  next
    case (Listened r)
    have listen: "calls (world d) = fmempty \<and> stop_at d = StopOff" if "main_at d = MainListen"
      using assms(1) that by (simp add: daemon_ok_def)
    show ?thesis
    proof (cases "main_at d = MainListen")
      case True
      with listen more Listened show ?thesis unfolding step
        by (cases r) (auto simp: daemon_ok_def exit_cause_def stopping_def)
    qed (use more in \<open>simp add: step [unfolded Listened] Listened\<close>)
  next
    case (Served r)
    with more assms(2) show ?thesis unfolding step
      by (cases r) (auto simp: daemon_ok_def exit_cause_def stopping_def)
  next
    case StopTurn
    with more assms(2) False show ?thesis unfolding step
      by (cases "stop_at d") (auto simp: daemon_ok_def stopping_def)
  next
    case Interrupt
    with more False show ?thesis unfolding step by (auto simp: daemon_ok_def stopping_def)
  qed
qed

lemma daemon_ok_main: "daemon_ok [] (daemon_main f)"
  by (simp add: daemon_ok_def daemon_main_def world_main_def stopping_def)

lemma daemon_ok_run:
  "grpc_follows asDur dNew tsNew es (daemon_main f) \<Longrightarrow> daemon_ok es (daemon_run asDur dNew tsNew es (daemon_main f))"
proof (induction es rule: rev_induct)
  case (snoc e es)
  then show ?case using daemon_ok_step [of es "daemon_run asDur dNew tsNew es (daemon_main f)" e asDur dNew tsNew]
    by (simp add: grpc_follows_snoc)
qed (simp add: daemon_ok_main)

lemma grpc_follows_append:
  "grpc_follows asDur dNew tsNew (es @ fs) d \<longleftrightarrow>
   grpc_follows asDur dNew tsNew es d \<and> grpc_follows asDur dNew tsNew fs (daemon_run asDur dNew tsNew es d)"
  by (induction es arbitrary: d) simp_all

lemma stopping_step: "stopping d \<Longrightarrow> daemon_ok es d \<Longrightarrow> stopping (daemon_step asDur dNew tsNew e d)"
  by (cases e) (auto simp: daemon_step_def stopping_def daemon_ok_def split: main_pc.split stop_pc.split option.split)

lemma stopping_run:
  "stopping d \<Longrightarrow> daemon_ok fs d \<Longrightarrow> grpc_follows asDur dNew tsNew es d \<Longrightarrow> stopping (daemon_run asDur dNew tsNew es d)"
proof (induction es arbitrary: d fs)
  case (Cons e es)
  with stopping_step [OF Cons.prems(1,2), of asDur dNew tsNew e] daemon_ok_step [OF Cons.prems(2), of e asDur dNew tsNew] show ?case
    by simp
qed simp

section \<open>A controller that has stopped scheduling\<close>

lemma sched_stopped_stays: "sched_at w = SchedStopped \<Longrightarrow> sched_at (world_step asDur dNew tsNew e w) = SchedStopped"
  by (cases e) (auto split: option.split prod.split)

lemma mon_stopped_stays: "mon_at w = MonStopped \<Longrightarrow> mon_at (world_step asDur dNew tsNew e w) = MonStopped"
  by (cases e) (auto split: option.split prod.split)

text \<open>Who is running in the end was running all along, unchanged.\<close>

lemma nothing_starts:
  assumes "world_ok w" "sched_at w = SchedStopped"
    and "fmlookup (jobs (srv_jobs (server (world_run asDur dNew tsNew es w)))) jid = Some j" "job_Status j = StatusRunning"
  shows "fmlookup (jobs (srv_jobs (server w))) jid = Some j"
  using assms
proof (induction es arbitrary: w)
  case (Cons e es)
  let ?w' = "world_step asDur dNew tsNew e w"
  have later: "fmlookup (jobs (srv_jobs (server ?w'))) jid = Some j"
    using Cons.IH [OF world_ok_step [OF Cons.prems(1)] sched_stopped_stays [OF Cons.prems(2)]] Cons.prems(3,4) by simp
  show ?case
  proof (rule ccontr)
    assume "fmlookup (jobs (srv_jobs (server w))) jid \<noteq> Some j"
    with later step_changes [OF Cons.prems(1) refl, of asDur dNew tsNew e jid]
    have "changes e w jid (fmlookup (jobs (srv_jobs (server w))) jid) (Some j)" by simp
    then show False using Cons.prems(2,4) by cases (auto dest: New_Job_Inr)
  qed
qed simp

text \<open>Only the monitor marks a node offline.\<close>

definition online :: "Registry \<Rightarrow> string \<Rightarrow> bool" where
  "online r k \<longleftrightarrow> (\<exists>n. fmlookup (nodes r) k = Some n \<and> node_Status n = StatusOnline)"

lemma online_Release: "online r k \<Longrightarrow> online (ReleaseNodes ids c r) k"
proof (induction ids arbitrary: r)
  case (Cons i ids)
  have "online (r\<lparr>nodes := fmupd i (released c n) (nodes r)\<rparr>) k" if "fmlookup (nodes r) i = Some n" for n
    using Cons.prems that by (auto simp: online_def released_def)
  with Cons show ?case by (simp split: option.split)
qed simp

lemma online_Register: "online r k \<Longrightarrow> node_Status node = StatusOnline \<Longrightarrow> online (RegisterNode now node r) k"
  by (auto simp: online_def RegisterNode_def Let_def split: option.split)

lemma online_enter: "online (srv_registry s) k \<Longrightarrow> online (srv_registry (snd (enter asDur dNew tsNew i req s))) k"
  by (cases req) (auto simp: Let_def intro: online_Register split: sum.split)

lemma online_call:
  assumes "online (srv_registry s) k"
  shows "online (srv_registry (snd (call_step asDur dNew tsNew i p s))) k"
proof (cases p)
  case (Entered req)
  with online_enter [OF assms] show ?thesis by simp
qed (use assms in \<open>auto simp: Let_def online_Release split: sum.split option.split prod.split list.split watch_case.split recv.split\<close>)

lemma online_step:
  assumes "online (srv_registry (server w)) k" "sched_at w = SchedStopped" "mon_at w = MonStopped"
  shows "online (srv_registry (server (world_step asDur dNew tsNew e w))) k"
  using assms online_call [OF assms(1), of asDur dNew tsNew] by (cases e) (auto simp: split_beta split: option.split)

lemma online_run:
  "online (srv_registry (server w)) k \<Longrightarrow> sched_at w = SchedStopped \<Longrightarrow> mon_at w = MonStopped \<Longrightarrow>
   online (srv_registry (server (world_run asDur dNew tsNew es w))) k"
  by (induction es arbitrary: w) (simp_all add: online_step sched_stopped_stays mon_stopped_stays)

section \<open>Properties\<close>

text \<open>C18.  The controller program from its start to its exit, with the gRPC library keeping its promises: what happens
  inside is a run of the controller's threads, so every theorem about them holds of the program; nothing is
  served before \<open>main\<close> listens; the scheduler and the monitor stop only after a signal; when \<open>GracefulStop\<close> has returned
  no call is pending; the program exits with status 0 only after a signal, and otherwise with status 1 after
  an error of \<open>net.Listen\<close> or \<open>Serve\<close>.\<close>

theorem controller_program_runs:
  assumes "ctl_program setv args = CtlListens addr f" "d = daemon_run asDur dNew tsNew es (daemon_main f)"
    and "grpc_follows asDur dNew tsNew es (daemon_main f)"
  shows "(\<exists>fs. world d = world_run asDur dNew tsNew fs (world_main (lf_timeout f)) \<and> (\<forall>e \<in> set fs. Inside e \<in> set es)) \<and>
    (main_at d = MainListen \<longrightarrow> calls (world d) = fmempty) \<and>
    (sched_at (world d) = SchedStopped \<or> mon_at (world d) = MonStopped \<longrightarrow> Interrupt \<in> set es) \<and>
    (stop_at d = StopDone \<longrightarrow> all_returned (world d)) \<and>
    (\<forall>c. main_at d = MainExited c \<longrightarrow> c = 0 \<and> Interrupt \<in> set es \<or>
       c = 1 \<and> (\<exists>msg. Listened (Some msg) \<in> set es \<or> Served (Some msg) \<in> set es))"
proof -
  have "daemon_ok es d" unfolding assms(2) by (rule daemon_ok_run [OF assms(3)])
  moreover have "\<exists>fs. world d = world_run asDur dNew tsNew fs (world_main (lf_timeout f)) \<and> (\<forall>e \<in> set fs. Inside e \<in> set es)"
    using daemon_world [of asDur dNew tsNew es "daemon_main f"] unfolding assms(2) by (simp add: daemon_main_def)
  ultimately show ?thesis by (auto simp: daemon_ok_def exit_cause_def)
qed

text \<open>C38.  A graceful stop waits for every stream.  If the gRPC library keeps its promises (\<open>GracefulStop\<close> returns only when no
  call is pending) and at some moment a \<open>WatchWork\<close> call, the only one of its node, is in its loop and holds the node's
  subscription, then, whatever else the program, its threads and the signal do, the call stays in its loop and
  \<open>GracefulStop\<close> does not return, and once begun goes on blocking, for as long as the stream's context lives, its sends succeed and the
  node opens no newer stream.  (The documentation of \<open>Serve\<close> does not say whether it returns earlier; then
  the program exits with the call still pending.)\<close>

theorem streams_outlive_a_graceful_stop:
  assumes "d = daemon_run asDur dNew tsNew fs (daemon_main f)" "d' = daemon_run asDur dNew tsNew es d"
    and "grpc_follows asDur dNew tsNew (fs @ es) (daemon_main f)"
    and "fmlookup (calls (world d)) k = Some (WatchLoop n ch sent)" "fmlookup (hub_sub (srv_hub (server (world d)))) n = Some ch"
    and "\<forall>j p. fmlookup (calls (world d)) j = Some p \<longrightarrow> j \<noteq> k \<longrightarrow> \<not> watches n p"
    and "\<forall>e. Inside e \<in> set es \<longrightarrow> leaves_alone k n e"
  shows "(\<exists>sent'. fmlookup (calls (world d')) k = Some (WatchLoop n ch sent')) \<and> stop_at d' \<noteq> StopDone \<and>
    (stop_at d = StopGraceful \<longrightarrow> stop_at d' = StopGraceful)"
proof -
  from daemon_world [of asDur dNew tsNew fs "daemon_main f"] obtain gs where
    w: "world d = world_run asDur dNew tsNew gs (world_main (lf_timeout f))" unfolding assms(1) by (auto simp: daemon_main_def)
  from daemon_world [of asDur dNew tsNew es d] obtain hs where
    w': "world d' = world_run asDur dNew tsNew hs (world d)" "\<forall>e \<in> set hs. Inside e \<in> set es" unfolding assms(2) by blast
  have "streaming k n ch (world d)" using assms(4-6) by (simp add: streaming_def)
  moreover have "world_ok (world d)" unfolding w by (rule world.inv_run)
  moreover have "ops_ok (world d)" unfolding w by (rule ops_ok_run [OF ops_ok_main])
  ultimately have "streaming k n ch (world d')" unfolding w'(1) by (rule streaming_run) (use assms(7) w'(2) in blast)
  then obtain sent' where loop: "fmlookup (calls (world d')) k = Some (WatchLoop n ch sent')" by (auto simp: streaming_def)
  then have "\<not> all_returned (world d')" using fmdomI [OF loop] by (force simp: all_returned_def returned_def)
  moreover have "daemon_ok (fs @ es) d'" using daemon_ok_run [OF assms(3)] by (simp add: assms(1,2))
  ultimately have "stop_at d' \<noteq> StopDone" by (auto simp: daemon_ok_def)
  moreover have "stopping d'" if "stop_at d = StopGraceful"
    using that assms(3) daemon_ok_run [of asDur dNew tsNew fs f] unfolding assms(2)
    by (intro stopping_run [of d fs]) (simp_all add: stopping_def assms(1) grpc_follows_append)
  ultimately show ?thesis using loop by (auto simp: stopping_def)
qed

text \<open>C33.  A controller that was told to stop schedules nothing and watches nobody, however long its shutdown takes
  (\<open>streams_outlive_a_graceful_stop\<close>: as long as a node is connected).  Once the scheduler's goroutine has ended no job
  starts any more, whoever asks for it; once the monitor's has ended too, no node that is online is ever marked
  offline, so the job of a node that is lost stays running.\<close>

theorem draining_controller_is_blind:
  assumes "d = daemon_run asDur dNew tsNew es (daemon_main f)" "sched_at (world d) = SchedStopped"
    and "d' = daemon_run asDur dNew tsNew es' d"
  shows "(\<forall>jid j. fmlookup (jobs (srv_jobs (server (world d')))) jid = Some j \<longrightarrow> job_Status j = StatusRunning \<longrightarrow>
      fmlookup (jobs (srv_jobs (server (world d)))) jid = Some j) \<and>
    (mon_at (world d) = MonStopped \<longrightarrow>
      (\<forall>k. online (srv_registry (server (world d))) k \<longrightarrow> online (srv_registry (server (world d'))) k))"
proof -
  from daemon_world [of asDur dNew tsNew es "daemon_main f"] obtain fs where
    "world d = world_run asDur dNew tsNew fs (world_main (lf_timeout f))" unfolding assms(1) by (auto simp: daemon_main_def)
  then have "world_ok (world d)" by (simp add: world.inv_run)
  moreover from daemon_world [of asDur dNew tsNew es' d] obtain gs where
    "world d' = world_run asDur dNew tsNew gs (world d)" unfolding assms(3) by blast
  ultimately show ?thesis using nothing_starts [OF _ assms(2)] online_run [OF _ assms(2)] by metis
qed

text \<open>A node registers, a job is submitted, a signal arrives and the scheduler and the monitor end; the submission
  then goes on.\<close>

definition plain_setv :: "string \<Rightarrow> string \<Rightarrow> ctl_flags \<Rightarrow> ctl_flags option" where
  "plain_setv flag v f = (if flag = ''listen'' then Some (f\<lparr>lf_listen := v\<rparr>) else None)"

definition drain_events :: "int daemon_event list" where
  "drain_events = [Listened None, Inside (Arrive 0 (RegisterNodeReq (Some sample_node_request))), Inside (CallStep 0 (sample_input 1)),
     Inside (SchedStep WakeTick 2), Inside (Arrive 1 (SubmitJobReq (Some sample_request))), Inside (CallStep 1 (sample_input 3)),
     Interrupt, StopTurn, Inside (SchedStep WakeDone 4), Inside (MonStep MonDone [] 5), Inside (CallStep 0 (sample_input 6)),
     Inside (CallStep 1 (sample_input 7)), Inside (CallStep 1 (sample_input 8)), Inside (CallStep 1 (sample_input 9)), StopTurn, Served None]"

definition drained :: "int daemon_event list \<Rightarrow> (int, int) Daemon" where
  "drained es = daemon_run (\<lambda>d. d) (\<lambda>d. d) (\<lambda>t. t) es (daemon_main \<lparr>lf_listen = '':7000'', lf_timeout = DefaultHeartbeatTimeout\<rparr>)"

definition goroutines_ended :: "('dur, 'ts) Daemon \<Rightarrow> bool" where
  "goroutines_ended d \<longleftrightarrow> (case (sched_at (world d), mon_at (world d)) of (SchedStopped, MonStopped) \<Rightarrow> True | _ \<Rightarrow> False)"

lemma drained_facts:
  "grpc_follows (\<lambda>d. d) (\<lambda>d. d) (\<lambda>t. t) drain_events (daemon_main \<lparr>lf_listen = '':7000'', lf_timeout = DefaultHeartbeatTimeout\<rparr> :: (int, int) Daemon)"
  "main_at (drained drain_events) = MainExited 0"
  "goroutines_ended (drained (take 10 drain_events))"
  "map_option node_Status (fmlookup (nodes (srv_registry (server (world (drained (take 10 drain_events)))))) ''n1'') = Some StatusOnline"
  "job_status (server (world (drained drain_events))) ''job-1'' = Some StatusPending"
  by code_simp+

lemma plain_args: "ctl_program plain_setv [''-listen'', '':7000''] = CtlListens '':7000'' \<lparr>lf_listen = '':7000'', lf_timeout = DefaultHeartbeatTimeout\<rparr>"
  by code_simp

text \<open>A node registers and opens its stream; then a signal arrives and \<open>GracefulStop\<close> is called, while the stream waits.\<close>

definition stream_events :: "int daemon_event list" where
  "stream_events =
     [Listened None, Inside (Arrive 0 (RegisterNodeReq (Some sample_node_request))), Inside (CallStep 0 (sample_input 1)), Inside (CallStep 0 (sample_input 2)),
      Inside (Arrive 1 (WatchWorkReq (Some \<lparr>WatchWorkRequest_NodeId = ''n1''\<rparr>))), Inside (CallStep 1 (sample_input 3)), Inside (CallStep 1 (sample_input 4)),
      Interrupt, Inside (SchedStep WakeDone 5), StopTurn]"

definition still_waiting :: "nat \<Rightarrow> int daemon_event list" where
  "still_waiting m = replicate m (Inside (CallStep 1 \<lparr>in_now = 6, in_order = [], in_case = FromChannel None\<rparr>))"

definition loop_of :: "('dur, 'ts) pc option \<Rightarrow> (string \<times> nat) option" where
  "loop_of p = (case p of Some (WatchLoop n ch sent) \<Rightarrow> Some (n, ch) | _ \<Rightarrow> None)"

lemma stream_facts:
  "grpc_follows (\<lambda>d. d) (\<lambda>d. d) (\<lambda>t. t) stream_events (daemon_main \<lparr>lf_listen = '':7000'', lf_timeout = DefaultHeartbeatTimeout\<rparr> :: (int, int) Daemon)"
  "stop_at (drained stream_events) = StopGraceful"
  "loop_of (fmlookup (calls (world (drained stream_events))) 1) = Some (''n1'', 0)"
  "fmlookup (hub_sub (srv_hub (server (world (drained stream_events))))) ''n1'' = Some 0"
  "map_option (watches ''n1'') (fmlookup (calls (world (drained stream_events))) 0) = Some False"
  "fmdom (calls (world (drained stream_events))) = {|0, 1|}"
  by code_simp+

lemma still_waiting_follows: "grpc_follows asDur dNew tsNew (still_waiting m) d"
  by (induction m arbitrary: d) (simp_all add: still_waiting_def)

theorem streams_outlive_a_graceful_stop_witness:
  "\<forall>m. stop_at (daemon_run (\<lambda>d. d) (\<lambda>d. d) (\<lambda>t. t) (still_waiting m) (drained stream_events)) = StopGraceful"
proof
  fix m
  from stream_facts(3) obtain sent where loop: "fmlookup (calls (world (drained stream_events))) 1 = Some (WatchLoop ''n1'' 0 sent)"
    by (auto simp: loop_of_def split: option.splits pc.splits)
  have "\<not> watches ''n1'' p" if "fmlookup (calls (world (drained stream_events))) j = Some p" "j \<noteq> 1" for j p
  proof -
    have "j |\<in>| {|0, 1|}" using fmdomI [OF that(1)] stream_facts(6) by simp
    with that stream_facts(5) show ?thesis by auto
  qed
  then have alone: "\<forall>j p. fmlookup (calls (world (drained stream_events))) j = Some p \<longrightarrow> j \<noteq> 1 \<longrightarrow> \<not> watches ''n1'' p" by blast
  have follows: "grpc_follows (\<lambda>d. d) (\<lambda>d. d) (\<lambda>t. t) (stream_events @ still_waiting m)
      (daemon_main \<lparr>lf_listen = '':7000'', lf_timeout = DefaultHeartbeatTimeout\<rparr> :: (int, int) Daemon)"
    using stream_facts(1) by (simp add: grpc_follows_append still_waiting_follows)
  have "\<forall>e. Inside e \<in> set (still_waiting m) \<longrightarrow> leaves_alone 1 ''n1'' e" by (simp add: still_waiting_def)
  with streams_outlive_a_graceful_stop [OF drained_def refl follows] loop stream_facts(2,4) alone
  show "stop_at (daemon_run (\<lambda>d. d) (\<lambda>d. d) (\<lambda>t. t) (still_waiting m) (drained stream_events)) = StopGraceful"
    by (simp add: drained_def)
qed

theorem controller_program_runs_witness:
  "main_at (drained drain_events) = MainExited 0 \<and> Interrupt \<in> set drain_events \<and>
   (\<exists>fs. world (drained drain_events) = world_run (\<lambda>d. d) (\<lambda>d. d) (\<lambda>t. t) fs (world_main DefaultHeartbeatTimeout))"
  using controller_program_runs [OF plain_args drained_def drained_facts(1)] drained_facts(2) by auto

theorem draining_controller_is_blind_witness:
  "job_status (server (world (drained drain_events))) ''job-1'' = Some StatusPending \<and>
   (\<forall>es'. online (srv_registry (server (world (daemon_run (\<lambda>d. d) (\<lambda>d. d) (\<lambda>t. t) es' (drained (take 10 drain_events)))))) ''n1'')"
proof -
  have "sched_at (world (drained (take 10 drain_events))) = SchedStopped" "mon_at (world (drained (take 10 drain_events))) = MonStopped"
    using drained_facts(3) by (auto simp: goroutines_ended_def split: sched_pc.splits mon_pc.splits)
  moreover have "online (srv_registry (server (world (drained (take 10 drain_events))))) ''n1''"
    using drained_facts(4) by (auto simp: online_def)
  ultimately show ?thesis
    using draining_controller_is_blind [OF drained_def _ refl] drained_facts(5) by blast
qed

end
