(* ===== verification/NodeProgram.thy ===== *)
theory NodeProgram
  imports Flags Causes
begin

text \<open>
  The node program from its command line to its place in the cluster: the flags of \<open>src/cmd/node/main.go\<close>, and what
  \<open>main\<close> does with them up to \<open>Run\<close> (\<open>AgentRun\<close>), and the status it exits with.  Over a controller that answers, the
  node registers as the flags say and its loops begin; with one that does not it exits.
\<close>

section \<open>Flags\<close>

record node_flags =
  nf_controller :: string
  nf_id :: string
  nf_cpus :: int
  nf_interval :: duration

definition node_defaults :: node_flags where
  "node_defaults = \<lparr>nf_controller = ''127.0.0.1:50051'', nf_id = [], nf_cpus = 1, nf_interval = DefaultHeartbeatInterval\<rparr>"

definition node_known :: "string \<Rightarrow> bool" where
  "node_known f \<longleftrightarrow> f = ''controller'' \<or> f = ''id'' \<or> f = ''cpus'' \<or> f = ''heartbeat-interval''"

text \<open>
  \<open>dialled addr\<close> says whether \<open>Dial\<close> accepts the address: \<open>grpc.NewClient\<close> makes no connection yet, so a controller that
  is not there shows only in the error of the first call.  The program exits while it reads its flags, or with
  status 1 by \<open>log.Fatal\<close>, or runs.
\<close>

datatype ('w, 'e, 'dur) node_begin = NodeExit nat | NodeRuns string "('w, 'e, 'dur) Proc"

definition node_program ::
  "(string \<Rightarrow> string \<Rightarrow> node_flags \<Rightarrow> node_flags option) \<Rightarrow> string \<Rightarrow> (string \<Rightarrow> bool) \<Rightarrow> string list \<Rightarrow> 'w \<Rightarrow> ('w, 'e, 'dur) node_begin" where
  "node_program setv hostname dialled args w = (case parse_flags node_known setv args node_defaults of
     Exit c \<Rightarrow> NodeExit c
   | Parsed f rest \<Rightarrow> (case node_main (nf_id f) hostname (nf_cpus f) (nf_interval f) (dialled (nf_controller f)) w of
       None \<Rightarrow> NodeExit 1
     | Some p \<Rightarrow> NodeRuns (nf_controller f) p))"

text \<open>The status with which the program exits once \<open>Run\<close> has returned.\<close>

definition node_exit :: "('e \<Rightarrow> bool) \<Rightarrow> ('w, 'e, 'dur) Proc \<Rightarrow> nat option" where
  "node_exit isCanceled p = (case run_at p of
     RunReturned err \<Rightarrow> Some (if fatal_exit isCanceled err then 1 else 0)
   | _ \<Rightarrow> None)"

section \<open>Facts\<close>

text \<open>The identifier and the CPUs a node starts with.\<close>

definition chosen_id :: "node_flags \<Rightarrow> string \<Rightarrow> string" where
  "chosen_id f hostname = (if nf_id f = [] then hostname else nf_id f)"

definition chosen_cpus :: "node_flags \<Rightarrow> int" where
  "chosen_cpus f = (if nf_cpus f < 1 then 1 else nf_cpus f)"

lemma node_program_iff:
  assumes "parse_flags node_known setv args node_defaults = Parsed f rest"
  shows "node_program setv hostname dialled args w =
    (if chosen_id f hostname = [] \<or> \<not> dialled (nf_controller f) then NodeExit 1
     else NodeRuns (nf_controller f) \<lparr>agent = Make_Agent \<lparr>cf_ID = chosen_id f hostname, cf_Hostname = hostname, cf_Address = [],
        cf_TotalCPUs = nf_cpus f, cf_Interval = nf_interval f\<rparr>, net = w, run_at = RunRegister, hb_at = HbOff, wl_at = WlOff,
        errCh = [], tasks = fmempty, next_task = 0\<rparr>)"
  using assms by (auto simp: node_program_def node_main_def node_config_def chosen_id_def Let_def)

lemma Make_Agent_cfg:
  "cf_ID (ag_cfg (Make_Agent cfg)) = cf_ID cfg" "cf_Hostname (ag_cfg (Make_Agent cfg)) = cf_Hostname cfg"
  "cf_Address (ag_cfg (Make_Agent cfg)) = cf_Address cfg"
  "cf_TotalCPUs (ag_cfg (Make_Agent cfg)) = (if cf_TotalCPUs cfg < 1 then 1 else cf_TotalCPUs cfg)"
  "ag_exec (Make_Agent cfg) = node_start"
  by (simp_all add: Make_Agent_def Let_def)

lemma first_registration:
  assumes "run_at p = RunRegister" "cf_ID (ag_cfg (agent p)) \<noteq> []"
  shows "run_step (server_client now) p = p\<lparr>run_at := RunHeartbeat,
    net := srv_kick (set_registry (RegisterNode now (registered_node (ag_cfg (agent p))) (srv_registry (net p))) (net p))\<rparr>"
proof -
  have "agent p\<lparr>ag_cfg := ag_cfg (agent p)\<lparr>cf_ID := cf_ID (ag_cfg (agent p))\<rparr>\<rparr> = agent p" by simp
  with assms show ?thesis
    by (simp add: run_step_def Agent_Register_def register_on_server pb_getters Let_def)
qed

lemma first_heartbeat:
  assumes "run_at p = RunHeartbeat" "cf_ID (ag_cfg (agent p)) \<noteq> []" "Reg_Get (cf_ID (ag_cfg (agent p))) (srv_registry (net p)) \<noteq> None"
  shows "\<exists>a. run_step (server_client now) p = p\<lparr>agent := a, net := (net p)\<lparr>srv_monitor := Record (cf_ID (ag_cfg (agent p))) (srv_monitor (net p))\<rparr>,
    run_at := RunWait, hb_at := HbSelect, wl_at := WlTop initial_backoff\<rparr> \<and> ag_cfg a = ag_cfg (agent p)"
proof -
  let ?hit = "PendingCancel (cf_ID (ag_cfg (agent p))) (srv_hub (net p))"
  have eq: "Agent_Heartbeat (server_client now) (agent p) (net p) =
      (None, if ?hit \<noteq> [] then (agent p)\<lparr>ag_exec := snd (node_stop ?hit (ag_exec (agent p)))\<rparr> else agent p,
       (net p)\<lparr>srv_monitor := Record (cf_ID (ag_cfg (agent p))) (srv_monitor (net p))\<rparr>)"
    using assms by (simp add: Agent_Heartbeat_def Server_Heartbeat_def heartbeat_request_def pb_getters Let_def split: prod.split)
  show ?thesis
    by (rule exI [of _ "if ?hit \<noteq> [] then (agent p)\<lparr>ag_exec := snd (node_stop ?hit (ag_exec (agent p)))\<rparr> else agent p"])
      (use assms(1) in \<open>simp add: run_step_def eq\<close>)
qed

lemma registers_as:
  assumes "node_ID node \<noteq> []" "node_Status node = StatusOnline"
  shows "\<exists>n. Reg_Get (node_ID node) (RegisterNode now node r) = Some n \<and> node_Status n = StatusOnline \<and>
    (Hostname node \<noteq> [] \<longrightarrow> Hostname n = Hostname node) \<and>
    (Reg_Get (node_ID node) r = None \<longrightarrow> CurrentJobID n = CurrentJobID node \<and> TotalCPUs n = TotalCPUs node)"
  using assms by (cases "fmlookup (nodes r) (node_ID node)") (auto simp: Reg_Get_def RegisterNode_def Let_def merge_existing_def)

text \<open>A first call that fails ends the program.\<close>

lemma returned_stays:
  "run_at p = RunReturned err \<Longrightarrow> run_at (proc_run asDur notFound es p) = RunReturned err"
proof (induction es arbitrary: p)
  case (Cons e es)
  have "run_at (proc_step asDur notFound e p) = RunReturned err"
    using Cons.prems other_ranks(1) [of e asDur notFound p] by (cases "\<exists>cl. e = RunTurn cl") (auto simp: run_step_def)
  with Cons.IH show ?case by simp
qed simp

lemma refused:
  assumes "run_at p = RunRegister \<and> (\<forall>req v. fst (cl_RegisterNode cl req v) = Inl err) \<or>
      run_at p = RunHeartbeat \<and> (\<forall>req v. fst (cl_Heartbeat cl req v) = Inl err)"
  shows "node_exit isCanceled (proc_run asDur notFound (RunTurn cl # es) p) = Some (if isCanceled err then 0 else 1)"
proof -
  have "run_at (run_step cl p) = RunReturned (CallFailed err)"
    using assms
  proof
    assume r: "run_at p = RunRegister \<and> (\<forall>req v. fst (cl_RegisterNode cl req v) = Inl err)"
    obtain v' where "cl_RegisterNode cl (register_request (ag_cfg (agent p))) (net p) = (Inl err, v')" using r by (metis prod.collapse)
    with r show ?thesis by (simp add: run_step_def Agent_Register_def)
  next
    assume r: "run_at p = RunHeartbeat \<and> (\<forall>req v. fst (cl_Heartbeat cl req v) = Inl err)"
    obtain v' where "cl_Heartbeat cl (heartbeat_request (agent p)) (net p) = (Inl err, v')" using r by (metis prod.collapse)
    with r show ?thesis by (simp add: run_step_def Agent_Heartbeat_def)
  qed
  then show ?thesis by (simp add: node_exit_def returned_stays fatal_exit_def)
qed

text \<open>Over a controller that answers, the first two steps register the node and send its first heartbeat.\<close>

lemma first_steps:
  fixes s :: "'dur Server"
  assumes "parse_flags node_known setv args node_defaults = Parsed f rest" "chosen_id f hostname \<noteq> []" "dialled (nf_controller f)"
  shows "\<exists>(p0 :: ('dur Server, rpc_code \<times> string, 'dur) Proc) p n. node_program setv hostname dialled args s = NodeRuns (nf_controller f) p0 \<and>
      run_at p0 = RunRegister \<and> run_at (run_step (server_client t1) p0) = RunHeartbeat \<and>
      p = run_step (server_client t2) (run_step (server_client t1) p0) \<and>
      Reg_Get (chosen_id f hostname) (srv_registry (net p)) = Some n \<and> node_Status n = StatusOnline \<and>
      (hostname \<noteq> [] \<longrightarrow> Hostname n = hostname) \<and>
      (Reg_Get (chosen_id f hostname) (srv_registry s) = None \<longrightarrow>
         CurrentJobID n = [] \<and> TotalCPUs n = max 1 (wrap32 (chosen_cpus f))) \<and>
      srv_monitor (net p) = Record (chosen_id f hostname) (srv_monitor s) \<and>
      run_at p = RunWait \<and> hb_at p = HbSelect \<and> wl_at p = WlTop initial_backoff"
proof -
  let ?id = "chosen_id f hostname"
  define cfg where "cfg = \<lparr>cf_ID = ?id, cf_Hostname = hostname, cf_Address = [], cf_TotalCPUs = nf_cpus f, cf_Interval = nf_interval f\<rparr>"
  define p0 :: "('dur Server, rpc_code \<times> string, 'dur) Proc" where "p0 = \<lparr>agent = Make_Agent cfg, net = s, run_at = RunRegister, hb_at = HbOff, wl_at = WlOff,
     errCh = [], tasks = fmempty, next_task = 0\<rparr>"
  have start: "node_program setv hostname dialled args s = NodeRuns (nf_controller f) p0"
    using assms(2,3) by (simp add: node_program_iff [OF assms(1)] p0_def cfg_def)
  have id: "cf_ID (ag_cfg (agent p0)) = ?id" by (simp add: p0_def Make_Agent_cfg cfg_def)
  define p1 where "p1 = run_step (server_client t1) p0"
  let ?r1 = "RegisterNode t1 (registered_node (ag_cfg (agent p0))) (srv_registry s)"
  have p1: "p1 = p0\<lparr>run_at := RunHeartbeat, net := srv_kick (set_registry ?r1 s)\<rparr>"
    unfolding p1_def using first_registration [of p0 t1] assms(2) id by (simp add: p0_def)
  have fields: "node_ID (registered_node (ag_cfg (agent p0))) = ?id" "Hostname (registered_node (ag_cfg (agent p0))) = hostname"
    "node_Status (registered_node (ag_cfg (agent p0))) = StatusOnline" "CurrentJobID (registered_node (ag_cfg (agent p0))) = []"
    "TotalCPUs (registered_node (ag_cfg (agent p0))) = max 1 (wrap32 (chosen_cpus f))"
    by (auto simp: registered_node_def zero_Node_def p0_def Make_Agent_cfg cfg_def chosen_cpus_def wrap32_def sint_sbintrunc')
  obtain n where n: "Reg_Get ?id ?r1 = Some n" "node_Status n = StatusOnline" "hostname \<noteq> [] \<longrightarrow> Hostname n = hostname"
    "Reg_Get ?id (srv_registry s) = None \<longrightarrow> CurrentJobID n = [] \<and> TotalCPUs n = max 1 (wrap32 (chosen_cpus f))"
    using registers_as [of "registered_node (ag_cfg (agent p0))" t1 "srv_registry s"] assms(2) fields by auto
  have reg: "srv_registry (net p1) = ?r1" "srv_monitor (net p1) = srv_monitor s"
    by (simp_all add: p1 srv_kick_def Kick_def set_registry_def)
  have "run_at p1 = RunHeartbeat" "agent p1 = agent p0" by (simp_all add: p1)
  with first_heartbeat [of p1 t2] assms(2) id n(1) reg(1) obtain a where
    a: "run_step (server_client t2) p1 = p1\<lparr>agent := a, net := (net p1)\<lparr>srv_monitor := Record ?id (srv_monitor (net p1))\<rparr>,
      run_at := RunWait, hb_at := HbSelect, wl_at := WlTop initial_backoff\<rparr>" by auto
  have at: "run_at p0 = RunRegister" "run_at (run_step (server_client t1) p0) = RunHeartbeat"
    using \<open>run_at p1 = RunHeartbeat\<close> by (simp_all add: p0_def p1_def)
  have after: "Reg_Get ?id (srv_registry (net (run_step (server_client t2) p1))) = Some n"
    "srv_monitor (net (run_step (server_client t2) p1)) = Record ?id (srv_monitor s)" "run_at (run_step (server_client t2) p1) = RunWait"
    "hb_at (run_step (server_client t2) p1) = HbSelect" "wl_at (run_step (server_client t2) p1) = WlTop initial_backoff"
    using a n(1) reg by simp_all
  show ?thesis
    by (rule exI [of _ p0], rule exI [of _ "run_step (server_client t2) p1"], rule exI [of _ n])
      (use start at n(2-4) after in \<open>simp add: p1_def [symmetric]\<close>)
qed

section \<open>Properties\<close>

text \<open>C19.  What a node program does with its command line.  Flags that do not parse end it with status 2, and \<open>-h\<close> with 0;
  with no name (neither its own nor the host's) or an address that cannot be dialled it exits with status 1.  Otherwise
  \<open>Run\<close> starts, and over a controller that answers, the program registers in its first step and beats in
  its second: then the controller knows the node by that name, online, with the host's name and, for a new node, free
  and with the CPUs of the flag (at least one, and as a 32-bit integer), its heartbeat is queued, and both loops have
  begun.  If instead the first registration fails, as it does when no controller is there, or the first heartbeat, \<open>Run\<close> returns the error
  and the program has exited for good, with status 1 (with 0 if the error is the context's).\<close>

theorem node_joins_the_cluster:
  fixes s :: "'dur Server" and asDur :: "'dur \<Rightarrow> duration"
  shows "case parse_flags node_known setv args node_defaults of
      Exit c \<Rightarrow> node_program setv hostname dialled args s = NodeExit c \<and> (c = 0 \<or> c = 2)
    | Parsed f rest \<Rightarrow>
      if chosen_id f hostname = [] \<or> \<not> dialled (nf_controller f) then node_program setv hostname dialled args s = NodeExit 1
      else \<exists>p0 p n. node_program setv hostname dialled args s = NodeRuns (nf_controller f) p0 \<and>
        p = proc_run asDur not_found [RunTurn (server_client t1), RunTurn (server_client t2)] p0 \<and>
        Reg_Get (chosen_id f hostname) (srv_registry (net p)) = Some n \<and> node_Status n = StatusOnline \<and>
        (hostname \<noteq> [] \<longrightarrow> Hostname n = hostname) \<and>
        (Reg_Get (chosen_id f hostname) (srv_registry s) = None \<longrightarrow>
           CurrentJobID n = [] \<and> TotalCPUs n = max 1 (wrap32 (chosen_cpus f))) \<and>
        srv_monitor (net p) = Record (chosen_id f hostname) (srv_monitor s) \<and>
        run_at p = RunWait \<and> hb_at p = HbSelect \<and> wl_at p = WlTop initial_backoff \<and>
        (\<forall>cl err es. (\<forall>req v. fst (cl_RegisterNode cl req v) = Inl err) \<longrightarrow>
           node_exit isCanceled (proc_run asDur not_found (RunTurn cl # es) p0) = Some (if isCanceled err then 0 else 1)) \<and>
        (\<forall>cl err es. (\<forall>req v. fst (cl_Heartbeat cl req v) = Inl err) \<longrightarrow>
           node_exit isCanceled (proc_run asDur not_found (RunTurn (server_client t1) # RunTurn cl # es) p0) =
             Some (if isCanceled err then 0 else 1))"
proof (cases "parse_flags node_known setv args node_defaults")
  case (Exit c)
  with parse_flags_exit [OF Exit] show ?thesis by (simp add: node_program_def)
next
  case (Parsed f rest)
  show ?thesis
  proof (cases "chosen_id f hostname = [] \<or> \<not> dialled (nf_controller f)")
    case True
    then show ?thesis using Parsed by (simp add: node_program_iff [OF Parsed])
  next
    case False
    then have set: "chosen_id f hostname \<noteq> []" "dialled (nf_controller f)" by simp_all
    obtain p0 :: "('dur Server, rpc_code \<times> string, 'dur) Proc" and p n where p: "node_program setv hostname dialled args s = NodeRuns (nf_controller f) p0"
        "run_at p0 = RunRegister" "run_at (run_step (server_client t1) p0) = RunHeartbeat"
        "p = run_step (server_client t2) (run_step (server_client t1) p0)"
      and n: "Reg_Get (chosen_id f hostname) (srv_registry (net p)) = Some n" "node_Status n = StatusOnline"
        "hostname \<noteq> [] \<longrightarrow> Hostname n = hostname" "Reg_Get (chosen_id f hostname) (srv_registry s) = None \<longrightarrow>
           CurrentJobID n = [] \<and> TotalCPUs n = max 1 (wrap32 (chosen_cpus f))"
      and at: "srv_monitor (net p) = Record (chosen_id f hostname) (srv_monitor s)" "run_at p = RunWait" "hb_at p = HbSelect"
        "wl_at p = WlTop initial_backoff"
      using first_steps [where dialled = dialled and s = s and ?t1.0 = t1 and ?t2.0 = t2, OF Parsed set] by (elim exE conjE) (rule that)
    have run: "p = proc_run asDur not_found [RunTurn (server_client t1), RunTurn (server_client t2)] p0" using p(4) by simp
    have reg: "\<forall>cl err es. (\<forall>req v. fst (cl_RegisterNode cl req v) = Inl err) \<longrightarrow>
        node_exit isCanceled (proc_run asDur not_found (RunTurn cl # es) p0) = Some (if isCanceled err then 0 else 1)"
      using refused [of p0] p(2) by blast
    have beat: "\<forall>cl err es. (\<forall>req v. fst (cl_Heartbeat cl req v) = Inl err) \<longrightarrow>
        node_exit isCanceled (proc_run asDur not_found (RunTurn (server_client t1) # RunTurn cl # es) p0) =
          Some (if isCanceled err then 0 else 1)"
      using refused [of "run_step (server_client t1) p0"] p(3) by simp
    show ?thesis
      unfolding Parsed parsed.case if_not_P [OF False]
      by (intro exI conjI) (rule p(1) run n at reg beat)+
  qed
qed

text \<open>A node with the name of its host and more CPUs than 32 bits can hold: it joins with one.\<close>

definition cpus_setv :: "string \<Rightarrow> string \<Rightarrow> node_flags \<Rightarrow> node_flags option" where
  "cpus_setv flag v f = (if flag = ''cpus'' \<and> v = ''4294967297'' then Some (f\<lparr>nf_cpus := 4294967297\<rparr>) else None)"

lemma cpus_args:
  "parse_flags node_known cpus_setv [''-cpus'', ''4294967297''] node_defaults = Parsed (node_defaults\<lparr>nf_cpus := 4294967297\<rparr>) []"
  by code_simp

definition no_controller :: "(int Server, rpc_code \<times> string) Client" where
  "no_controller = \<lparr>cl_RegisterNode = \<lambda>req v. (Inl (Internal, ''connection refused''), v), cl_Heartbeat = \<lambda>req v. (Inl (Internal, ''connection refused''), v),
     cl_ReportJobStatus = \<lambda>req v. (Inl (Internal, ''connection refused''), v)\<rparr>"

lemma bad_args: "parse_flags node_known cpus_setv [''-cpus''] node_defaults = Exit 2"
  by code_simp

theorem node_joins_the_cluster_witness:
  "(\<exists>p0 p n. node_program cpus_setv ''host'' (\<lambda>a. True) [''-cpus'', ''4294967297''] (controller_main 0 :: int Server) = NodeRuns ''127.0.0.1:50051'' p0 \<and>
     p = proc_run (\<lambda>d. d) not_found [RunTurn (server_client 1), RunTurn (server_client 2)] p0 \<and>
     Reg_Get ''host'' (srv_registry (net p)) = Some n \<and> TotalCPUs n = 1 \<and> run_at p = RunWait \<and>
     node_exit (\<lambda>e. False) (proc_run (\<lambda>d. d) not_found [RunTurn no_controller] p0) = Some 1) \<and>
   (node_program cpus_setv ''host'' (\<lambda>a. True) [''-cpus''] (controller_main 0 :: int Server) :: (int Server, rpc_code \<times> string, int) node_begin) = NodeExit 2"
proof -
  let ?f = "node_defaults\<lparr>nf_cpus := 4294967297\<rparr>"
  have vals: "chosen_id ?f ''host'' = ''host''" "nf_controller ?f = ''127.0.0.1:50051''" "max 1 (wrap32 (chosen_cpus ?f)) = 1"
    by code_simp+
  have none: "Reg_Get ''host'' (srv_registry (controller_main 0 :: int Server)) = None"
    by (simp add: controller_main_def New_Server_def Let_def Make_Scheduler_def Reg_Get_def Make_Registry_def MakeMonitor_def)
  have gone: "\<forall>req v. fst (cl_RegisterNode no_controller req v) = Inl (Internal, ''connection refused'')" by (simp add: no_controller_def)
  note joins = node_joins_the_cluster [where setv = cpus_setv and hostname = "''host''" and dialled = "\<lambda>a. True" and
      s = "controller_main 0 :: int Server" and asDur = "\<lambda>d. d" and ?t1.0 = 1 and ?t2.0 = 2 and isCanceled = "\<lambda>e. False"]
  have "(node_program cpus_setv ''host'' (\<lambda>a. True) [''-cpus''] (controller_main 0 :: int Server) :: (int Server, rpc_code \<times> string, int) node_begin) = NodeExit 2"
    using joins [of "[''-cpus'']"] by (simp add: bad_args del: parse_flags.simps)
  moreover have "\<exists>p0 p n. node_program cpus_setv ''host'' (\<lambda>a. True) [''-cpus'', ''4294967297''] (controller_main 0 :: int Server) = NodeRuns ''127.0.0.1:50051'' p0 \<and>
     p = proc_run (\<lambda>d. d) not_found [RunTurn (server_client 1), RunTurn (server_client 2)] p0 \<and>
     Reg_Get ''host'' (srv_registry (net p)) = Some n \<and> TotalCPUs n = 1 \<and> run_at p = RunWait \<and>
     node_exit (\<lambda>e. False) (proc_run (\<lambda>d. d) not_found [RunTurn no_controller] p0) = Some 1"
  proof -
    have "\<not> (''host'' = [] \<or> \<not> True)" by simp
    note at = joins [of "[''-cpus'', ''4294967297'']", unfolded cpus_args parsed.case vals if_not_P [OF this]]
    then obtain p0 p n where p: "node_program cpus_setv ''host'' (\<lambda>a. True) [''-cpus'', ''4294967297''] (controller_main 0 :: int Server) = NodeRuns ''127.0.0.1:50051'' p0"
        "p = proc_run (\<lambda>d. d) not_found [RunTurn (server_client 1), RunTurn (server_client 2)] p0"
        "Reg_Get ''host'' (srv_registry (net p)) = Some n" "TotalCPUs n = 1" "run_at p = RunWait"
        "\<And>cl err es. \<forall>req v. fst (cl_RegisterNode cl req v) = Inl err \<Longrightarrow>
           node_exit (\<lambda>e. False) (proc_run (\<lambda>d. d) not_found (RunTurn cl # es) p0) = Some (if False then 0 else 1)"
      using none by blast
    from p(6) [OF gone, of "[]"] p(1-5) show ?thesis by (intro exI conjI) simp_all
  qed
  ultimately show ?thesis by blast
qed

end
