(* ===== verification/Spec2Isabelle.thy ===== *)
theory Spec2Isabelle
  imports Slctl Submissions Progress Daemon NodeProgram
begin

text \<open>
  SlurmLite (Go): a gang scheduler for a small cluster.  \<open>slctl\<close> submits jobs to the controller; the
  controller starts a job only when all the nodes it needs are free at once, sends every node its share
  of the work, and follows the job until it ends; a node agent runs the process and reports.  This
  library models the whole program, its three commands included, except the generated gRPC glue and what
  the programs ask of the operating system, and proves what makes it correct.

  \<^bold>\<open>Theories and the code they model\<close>

    \<^item> \<open>Prelude\<close>: the Go notions the source relies on: 32 and 64-bit integers with wrap-around, instants
      and durations (nanoseconds as \<open>int\<close>) and their text, maps (\<open>fmap\<close>) with \<open>range\<close> in an arbitrary order
      (the order is an argument wherever it could matter), white space, error values.
    \<^item> \<open>Component\<close>: two locales for a state behind a mutex.  \<open>guarded_component\<close>: an invariant that every
      operation keeps holds in every run; \<open>forward_component\<close>: a preorder that every operation respects
      relates any two moments of a run.  \<open>fifo_queue\<close> is the contract of a first-in first-out queue.
    \<^item> \<open>Job\<close> (\<open>internal/job/job.go\<close>): statuses, requests, specifications, jobs, the status machine.
    \<^item> \<open>JobManager\<close> (\<open>internal/job/manager.go\<close>): queue, jobs, reports; \<open>GangReports\<close>: the abstract outcome
      of a gang, which \<open>ReportNodeEvent\<close> refines.
    \<^item> \<open>Registry\<close> (\<open>internal/cluster/registry.go\<close>), \<open>Resources\<close> (\<open>internal/scheduler/resources.go\<close>): nodes,
      reservations, and the choice of a gang.
    \<^item> \<open>Scheduler\<close> (\<open>internal/scheduler/scheduler.go\<close>): attempts, dispatching, the loop of \<open>Run\<close> and its
      kick channel; the locale \<open>dispatcher\<close> is what it needs of the \<open>Dispatcher\<close> interface.
    \<^item> \<open>Proto\<close> (\<open>api/proto/v1/scheduler.pb.go\<close>): messages, enums and nil-safe getters.
    \<^item> \<open>Hub\<close> (\<open>internal/controller/hub.go\<close>): queues, streams (channels as heap objects), pending cancels;
      it interprets \<open>dispatcher\<close>, \<open>guarded_component\<close> and \<open>fifo_queue\<close>.
    \<^item> \<open>Monitor\<close> (\<open>internal/cluster/heartbeat.go\<close>, \<open>internal/cluster/reaper.go\<close>): heartbeats and lost nodes;
      the locale \<open>job_failure\<close> is what it needs of \<open>JobFailure\<close>, interpreted by the job manager and by \<open>Failer\<close>.
    \<^item> \<open>Convert\<close> (\<open>internal/controller/convert.go\<close>), \<open>Server\<close> (\<open>internal/controller/server.go\<close> and the wiring in
      \<open>cmd/controller/main.go\<close>): the wire forms and every RPC handler.
    \<^item> \<open>Placement\<close>, \<open>System\<close>: the invariant between registry and job manager, and the runs of the whole
      controller; \<open>Handlers\<close>: what each handler promises its caller.
    \<^item> \<open>Executor\<close> (\<open>internal/node/executor.go\<close>), \<open>Agent\<close> (\<open>internal/node/agent.go\<close>, \<open>cmd/node/main.go\<close>): the
      node; the locale \<open>node_service\<close> is what the agent needs of the controller.  \<open>Cluster\<close>: agent and
      controller together, with the interpretation of that locale on the controller's handlers.
    \<^item> \<open>Threads\<close>: the controller call by call: each handler of \<open>server.go\<close>, \<open>Run\<close> and \<open>trySchedule\<close> of
      \<open>scheduler.go\<close>, \<open>Run\<close> of \<open>heartbeat.go\<close> with \<open>reaper.go\<close> is a thread with a program counter and its local
      variables; a step is one locked section, and any other thread may run between two steps.
      \<open>Interleaving\<close>: what survives that; \<open>Solo\<close>: that a thread alone is the function of the atomic model,
      and that handlers return; \<open>Submissions\<close>: submissions at the same time; \<open>Races\<close>: what goes wrong;
      \<open>Causes\<close>: why a stored job changes; \<open>Progress\<close>: that attempts end and the head of the queue starts.
    \<^item> \<open>Daemon\<close> (\<open>cmd/controller/main.go\<close>): the controller program around those threads, from its flags to its
      exit; what \<open>Serve\<close> and \<open>GracefulStop\<close> promise is the predicate \<open>grpc_rule\<close>.
    \<^item> \<open>AgentRun\<close>: the node program as threads: \<open>main\<close>, \<open>Run\<close> with its two loops, and a goroutine for each
      assignment, interleaved with the processes of the executor; \<open>NodeProgram\<close> (\<open>cmd/node/main.go\<close>): its flags
      and how it joins the cluster.
    \<^item> \<open>Flags\<close>: the scan of a command line (the \<open>flag\<close> package) that the three programs share.
    \<^item> \<open>Slctl\<close> (\<open>cmd/slctl/commands.go\<close>, \<open>cmd/slctl/main.go\<close>): the command line client.

  \<^bold>\<open>How state and concurrency are modelled\<close>

  A Go struct is a record of the same fields, a map an \<open>fmap\<close>, a pointer that may be nil an option, an
  error a value of a sum or an option.  Every exported method of the job manager, the registry, the hub
  and the monitor's queue holds its mutex from start to end, so it is one function on the state, and
  goroutines that share a component act as some sequence of calls: each such component has a datatype
  of its operations, and its properties hold after every list of them.  In \<open>System\<close> the operations are
  whole RPC handlers, scheduling attempts, stream turns and monitor turns, in any order
  (\<open>srv_op\<close>, \<open>srv_apply\<close>); the handlers are functions composed of the calls of the source in its order.
  A handler is not atomic in the program, so \<open>Threads\<close> models it a second time, as a sequence of steps
  (\<open>call_step\<close>, \<open>sched_step\<close>, \<open>mon_step\<close>), each of them one call of a locked method with the local computation
  after it; \<open>world_step\<close> lets any thread move and any request arrive.  The two models are tied together:
  steps that are not interrupted give what the function gives (\<open>threads_alone_are_atomic\<close>).  A thread that
  is about to start or to release a gang has it in hand (\<open>claim\<close>); \<open>owned\<close> says that running jobs and
  threads together account for every busy node, each for its own.  A step disturbs a handler when it changes
  the status of a job that the handler has read, and the monitor when it gives up a node that carries a job that is
  not running; runs without such steps keep the gangs whole, and the
  theorems of \<open>Races\<close>, \<open>cancel_race_leaks_gang\<close> and \<open>late_report_frees_the_next_job\<close> show what the others
  can do.  The executor blocks in the middle of a call, so it is a step relation (\<open>exec_step\<close>) whose
  labels are the events of the callers, the process and the timers; the select between process exit
  and context is both steps being possible.  \<open>AgentRun\<close> embeds it in the goroutines of the agent.

  \<^bold>\<open>What is shown\<close>

    \<^item> Gangs: in every run of the controller each running job holds exactly as many distinct nodes as it asks
      for, each carrying that job alone, and every other node is free (\<open>gangs_are_all_or_nothing\<close>); an attempt
      commits a whole gang or backs out; reservations are all or nothing, within capacity, and undone
      by release; the gang is the first fit.
    \<^item> Interleaving: the same call by call (\<open>gangs_survive_interleaving\<close>), with what holds in every run,
      disturbed or not (\<open>components_survive_interleaving\<close>); handlers return whatever the others do, and
      submissions at the same time never collide; every change of a stored job has one of six causes
      (\<open>every_change_has_a_cause\<close>).
    \<^item> Progress: attempts end, and a job at the head of the queue that finds room is started, whatever runs in
      between, as long as no other thread ends it or takes a free node away (\<open>spares\<close>).
    \<^item> Jobs: queue order and contents, the status machine, final states, well-formed jobs; submission never
      fails for a valid specification; reports refine the abstract gang outcome; a gang whose nodes all
      succeed completes, the first failure stops it, a lost node fails it, a cancellation frees it.
    \<^item> Delivery: bounded queues, no send on a closed channel, backlog in order on the next stream, pending
      cancels that reach the process with the next heartbeat, no lost wake-up of the scheduler.
    \<^item> Nodes: one job at a time, results that are justified by what happened, every run returns, the merged
      environment, bounded back-off, re-registration after a restart of the controller.
    \<^item> The node program: its executor makes only the executor's steps and every run has one goroutine that
      reports it; it ends only after a signal, with both loops ended, and after a signal it does end, if its
      \<open>select\<close> and its stream are fair (\<open>fair_select\<close>, \<open>fair_stream\<close>); it joins the cluster as its flags say, or exits.
    \<^item> The controller program: it is a run of its threads, serves nothing before it listens, and exits with
      status 0 only after a signal; a graceful stop waits for every open stream.
    \<^item> End to end: what a process did becomes the state of its job; what \<open>slctl submit\<close> is given is what is
      queued; a process sees its rank.
    \<^item> Where the code falls short: the cancel race, the late report, a node reaped between its reservation and
      the start of its job, assignments that a cancellation overtakes, streams that keep a graceful stop
      waiting while nothing is scheduled or watched any more, processes that a shutdown leaves behind, results whose
      report is lost, messages that an ended stream drops or that wait behind
      a drained channel, ignored cancelled reports, unknown events that count as success, filters that
      decode to nothing, assignments refused by a node that is still stopping, truncated counts.

  \<^bold>\<open>Bounds and termination\<close>

  No definition uses fuel.  A thread of \<open>Threads\<close> or \<open>AgentRun\<close> makes one step per event, so a run recurses on
  the events; that a handler returns is shown by a measure on its place and the notifications left
  (\<open>pc_less\<close>), that the agent ends by one rank for each goroutine, and the progress of the scheduler by a rank
  that turns lower and other steps keep (\<open>ranked_progress\<close>).  The scheduling loop is a function whose measure is the number of pending
  jobs; \<open>watch_loop\<close>, \<open>watch_pauses\<close> and the runs of a component recurse on the list of things that happen.
  Counters keep their width: job names count modulo \<open>2 ^ 64\<close>, and the theorems about them take runs shorter
  than that.  Free CPUs are computed with 64-bit wrap-around.

  \<^bold>\<open>What is not modelled\<close>

    \<^item> \<open>scheduler_grpc.pb.go\<close> and the reflection part of \<open>scheduler.pb.go\<close>: generated code over the gRPC and
      protobuf libraries.  A client is a record of functions; \<open>durationpb\<close> and \<open>timestamppb\<close> conversions are
      arguments (a theorem that needs \<open>AsDuration\<close> to undo \<open>New\<close> says so).
    \<^item> The operating system and the network: starting, killing and reaping a process, dialling, listening,
      signals, timers, log lines and what a process writes.  They show as events
      or as arguments; \<open>grpc.NewClient\<close> makes no connection, so a controller that is not there shows in the first call.
    \<^item> Reading a number or a duration from a flag, and the column widths of \<open>tabwriter\<close>.
    \<^item> The gRPC transport: in \<open>Cluster\<close> a call is answered at once and nothing is lost; in \<open>AgentRun\<close> any call may fail,
      with the effects on the controller left to the client that is given.  The steps of \<open>Threads\<close>
      are the locked sections; the Go memory model below them is not modelled.
    \<^item> Tests, shell scripts and example jobs.
\<close>

end
